(* ===== verification/Xio_Prelude.thy ===== *)
theory Xio_Prelude
  imports Main "HOL-Library.Word" "HOL-Library.Multiset"
begin

text \<open>
  Shared vocabulary of the development: machine types, the errors a handler can return, the
  list idioms of the kernel's \<^verbatim>\<open>list_head\<close> API (find the first match, unlink the first match,
  update the first match in place), and the lemmas about them that every component uses.
  Facts that unfold the model's operations are collected in \<open>xio_defs\<close>, and the
  characteristic facts of the list idioms in \<open>list_idioms\<close>.
\<close>

unbundle bit_operations_syntax

named_theorems xio_defs \<open>definitions of the model's operations\<close>
named_theorems list_idioms \<open>facts about the kernel list idioms\<close>

subsection \<open>Machine types\<close>

type_synonym u8 = "8 word"
type_synonym u16 = "16 word"
type_synonym u32 = "32 word"
type_synonym u64 = "64 word"

text \<open>A pointer of the kernel, with 0 as the null pointer.\<close>

type_synonym ptr = "64 word"

abbreviation NULL :: ptr where
  "NULL \<equiv> 0"

text \<open>
  The negative return values of the handlers. \<open>Errno n\<close> stands for an error that a kernel
  function reported and the module passes on unchanged.
\<close>

datatype errno =
    EPERM | ENOENT | EBADF | ENOMEM | EFAULT | ENOTBLK | ENODEV | EINVAL | ENOTTY | ERANGE
  | ENOSYS | EOPNOTSUPP | Errno int

type_synonym 'a kres = "errno + 'a"

subsection \<open>List idioms\<close>

text \<open>
  \<^verbatim>\<open>list_for_each_entry_safe(e, tmp, &l, list) { if (P e) { list_del(e); found; break; } }\<close>:
  the first match and the list without it.
\<close>

fun unlink_first :: "('a \<Rightarrow> bool) \<Rightarrow> 'a list \<Rightarrow> ('a \<times> 'a list) option" where
  "unlink_first P [] = None"
| "unlink_first P (x # xs) =
     (if P x then Some (x, xs)
      else (case unlink_first P xs of None \<Rightarrow> None | Some (y, ys) \<Rightarrow> Some (y, x # ys)))"

text \<open>
  \<^verbatim>\<open>list_for_each_entry(e, &l, list) { if (P e) { update e; break; } }\<close>: the first match
  updated in place, and whether there was one.
\<close>

fun update_first :: "('a \<Rightarrow> bool) \<Rightarrow> ('a \<Rightarrow> 'a) \<Rightarrow> 'a list \<Rightarrow> 'a list \<times> bool" where
  "update_first P f [] = ([], False)"
| "update_first P f (x # xs) =
     (if P x then (f x # xs, True)
      else (case update_first P f xs of (ys, b) \<Rightarrow> (x # ys, b)))"

lemma unlink_first_Some [list_idioms]:
  "unlink_first P xs = Some (x, ys) \<Longrightarrow>
     P x \<and> (\<exists>us vs. xs = us @ x # vs \<and> ys = us @ vs \<and> (\<forall>u\<in>set us. \<not> P u))"
proof (induction xs arbitrary: ys)
  case Nil
  then show ?case by simp
next
  case (Cons a xs)
  show ?case
  proof (cases "P a")
    case True
    with Cons.prems have "P x \<and> a # xs = [] @ x # xs \<and> ys = [] @ xs \<and> (\<forall>u\<in>set []. \<not> P u)"
      by simp
    then show ?thesis by blast
  next
    case False
    with Cons.prems obtain zs where zs: "unlink_first P xs = Some (x, zs)" "ys = a # zs"
      by (auto split: option.splits)
    with Cons.IH obtain us vs where
      "P x" "xs = us @ x # vs" "zs = us @ vs" "\<forall>u\<in>set us. \<not> P u" by blast
    with False zs have "P x \<and> a # xs = (a # us) @ x # vs \<and> ys = (a # us) @ vs
        \<and> (\<forall>u\<in>set (a # us). \<not> P u)" by simp
    then show ?thesis by blast
  qed
qed

lemma unlink_first_None_iff [list_idioms]:
  "unlink_first P xs = None \<longleftrightarrow> (\<forall>x\<in>set xs. \<not> P x)"
  by (induction xs) (auto split: option.splits)

lemma unlink_first_mset:
  "unlink_first P xs = Some (x, ys) \<Longrightarrow> mset xs = add_mset x (mset ys)"
  by (drule unlink_first_Some) auto

lemma unlink_first_find:
  "unlink_first P xs = Some (x, ys) \<Longrightarrow> List.find P xs = Some x"
  by (induction xs arbitrary: ys) (auto split: option.splits if_splits)

lemma unlink_first_set:
  "unlink_first P xs = Some (x, ys) \<Longrightarrow> x \<in> set xs \<and> set ys \<subseteq> set xs \<and> P x"
  by (drule unlink_first_Some) auto

lemma unlink_first_length:
  "unlink_first P xs = Some (x, ys) \<Longrightarrow> length xs = Suc (length ys)"
  by (drule unlink_first_Some) auto

lemma update_first_found [list_idioms]:
  "snd (update_first P f xs) \<longleftrightarrow> (\<exists>x\<in>set xs. P x)"
  by (induction xs) (auto split: prod.splits)

lemma update_first_not_found [list_idioms]:
  "\<not> snd (update_first P f xs) \<Longrightarrow> fst (update_first P f xs) = xs"
  by (induction xs) (auto split: prod.splits)

lemma update_first_length [simp]: "length (fst (update_first P f xs)) = length xs"
  by (induction xs) (auto split: prod.splits)

lemma update_first_map:
  assumes "\<And>x. P x \<Longrightarrow> g (f x) = g x"
  shows "map g (fst (update_first P f xs)) = map g xs"
  by (induction xs) (simp_all add: assms case_prod_beta)

lemma find_update_first_same:
  assumes "\<And>x. P x \<Longrightarrow> P (f x)"
  shows "List.find P (fst (update_first P f xs)) = map_option f (List.find P xs)"
  by (induction xs) (simp_all add: assms case_prod_beta)

lemma find_update_first_other:
  assumes "\<And>x. P x \<Longrightarrow> \<not> Q x" and "\<And>x. P x \<Longrightarrow> \<not> Q (f x)"
  shows "List.find Q (fst (update_first P f xs)) = List.find Q xs"
  by (induction xs) (simp_all add: assms case_prod_beta)

lemma set_update_first:
  "y \<in> set (fst (update_first P f xs)) \<Longrightarrow> y \<in> set xs \<or> (\<exists>x\<in>set xs. P x \<and> y = f x)"
  by (induction xs) (auto split: prod.splits if_splits)

lemma find_None_conv [simp]: "List.find P xs = None \<longleftrightarrow> (\<forall>x\<in>set xs. \<not> P x)"
  by (auto simp: find_None_iff)

lemma find_Some_set: "List.find P xs = Some x \<Longrightarrow> x \<in> set xs \<and> P x"
  by (auto simp: find_Some_iff)

lemma mset_filter_partition: "mset (filter P xs) + mset (filter (\<lambda>x. \<not> P x) xs) = mset xs"
  by (induction xs) auto

subsection \<open>Casts\<close>

lemma ucast_u32_u64_u32 [simp]: "ucast (ucast (x :: u32) :: u64) = x"
  by (rule bit_word_eqI) (simp add: bit_simps)

subsection \<open>Sums over lists\<close>

lemma sum_list_filter_partition:
  fixes f :: "'a \<Rightarrow> int"
  shows "sum_list (map f (filter P xs)) + sum_list (map f (filter (\<lambda>x. \<not> P x) xs)) =
         sum_list (map f xs)"
  by (induction xs) auto

lemma unlink_first_sum_list:
  fixes f :: "'a \<Rightarrow> int"
  assumes "unlink_first P xs = Some (x, ys)"
  shows "sum_list (map f xs) = f x + sum_list (map f ys)"
proof -
  from unlink_first_Some [OF assms] obtain us vs where "xs = us @ x # vs" "ys = us @ vs"
    by blast
  then show ?thesis by simp
qed

lemma sum_list_concat_map:
  fixes f :: "'b \<Rightarrow> int"
  shows "sum_list (map f (concat (map g xs))) = sum_list (map (\<lambda>x. sum_list (map f (g x))) xs)"
  by (induction xs) auto

lemma sum_list_map_rev:
  fixes f :: "'a \<Rightarrow> int"
  shows "sum_list (map f (rev xs)) = sum_list (map f xs)"
  by (induction xs) simp_all

end
