(* ===== verification/Kernel_Uapi.thy ===== *)
theory Kernel_Uapi
  imports Xio_Prelude
begin

text \<open>
  The user/kernel interface of \<^verbatim>\<open>/dev/rocm-xio\<close> (\<^verbatim>\<open>src/include/rocm-xio-uapi.h\<close>): the
  32-bit encoding of PCI addresses, the request records, and the two helpers of the kernel
  module that encode and print such an address (\<^verbatim>\<open>pci_dev_to_bdf\<close> is in
  \<^verbatim>\<open>Kernel_Dmabuf\<close> because it reads the device).
\<close>

subsection \<open>PCI addresses\<close>

definition ROCM_XIO_BDF :: "u32 \<Rightarrow> u32 \<Rightarrow> u32 \<Rightarrow> u32 \<Rightarrow> u32" where
  "ROCM_XIO_BDF domain bus dev func =
     push_bit 16 domain OR push_bit 8 bus OR push_bit 3 dev OR func"

text \<open>The decoding that every handler with a PCI address repeats.\<close>

definition bdf_domain :: "u32 \<Rightarrow> u32" where
  "bdf_domain bdf = drop_bit 16 bdf AND 0xFFFF"

definition bdf_bus :: "u32 \<Rightarrow> u32" where
  "bdf_bus bdf = drop_bit 8 bdf AND 0xFF"

definition bdf_devfn :: "u32 \<Rightarrow> u32" where
  "bdf_devfn bdf = bdf AND 0xFF"

definition PCI_SLOT :: "u32 \<Rightarrow> u32" where
  "PCI_SLOT devfn = drop_bit 3 devfn AND 0x1F"

definition PCI_FUNC :: "u32 \<Rightarrow> u32" where
  "PCI_FUNC devfn = devfn AND 7"

lemmas bdf_defs = ROCM_XIO_BDF_def bdf_domain_def bdf_bus_def bdf_devfn_def PCI_SLOT_def
  PCI_FUNC_def

subsection \<open>Printing a PCI address\<close>

text \<open>The digit and the zero-padded hexadecimal conversions of \<^verbatim>\<open>printf\<close>.\<close>

definition hex_char :: "nat \<Rightarrow> char" where
  "hex_char d = ''0123456789abcdef'' ! (d mod 16)"

fun hex_digits :: "nat \<Rightarrow> string" where
  "hex_digits n = (if n < 16 then [hex_char n] else hex_digits (n div 16) @ [hex_char (n mod 16)])"

declare hex_digits.simps [simp del]

definition hex_pad :: "nat \<Rightarrow> nat \<Rightarrow> string" where
  "hex_pad w n = replicate (w - length (hex_digits n)) CHR ''0'' @ hex_digits n"

text \<open>
  \<^verbatim>\<open>format_bdf_as_pci_addr(bdf, buf, buf_size)\<close>: \<open>None\<close> when nothing is written, otherwise
  the C string left in the buffer. \<^verbatim>\<open>snprintf\<close> keeps at most \<open>buf_size - 1\<close> characters.
\<close>

definition format_bdf_as_pci_addr :: "u32 \<Rightarrow> bool \<Rightarrow> nat \<Rightarrow> string option" where
  "format_bdf_as_pci_addr bdf has_buf buf_size =
     (if bdf = 0 \<or> \<not> has_buf \<or> buf_size < 13
      then (if has_buf \<and> buf_size > 0 then Some '''' else None)
      else Some (take (buf_size - 1)
             (hex_pad 4 (unat (bdf_domain bdf)) @ '':'' @ hex_pad 2 (unat (bdf_bus bdf)) @ '':'' @
              hex_pad 2 (unat (PCI_SLOT (bdf_devfn bdf))) @ ''.'' @
              hex_pad 1 (unat (PCI_FUNC (bdf_devfn bdf))))))"

text \<open>Reading hexadecimal digits back, used to state that the printed form is unambiguous.\<close>

definition hex_digit_value :: "char \<Rightarrow> nat" where
  "hex_digit_value c = (let k = of_char c :: nat in if k < 58 then k - 48 else k - 87)"

definition hex_value :: "string \<Rightarrow> nat" where
  "hex_value s = foldl (\<lambda>a c. 16 * a + hex_digit_value c) 0 s"

subsection \<open>Requests\<close>

definition ROCM_XIO_FLAG_EMULATED :: u32 where
  "ROCM_XIO_FLAG_EMULATED = push_bit 0 1"

definition ROCM_XIO_FLAG_PASSTHROUGH :: u32 where
  "ROCM_XIO_FLAG_PASSTHROUGH = push_bit 1 1"

record rocm_xio_vram_req =
  vr_dmabuf_fd :: int
  vr_nvme_bdf :: u32
  vr_flags :: u32
  vr_phys_addr :: u64
  vr_size :: u64

record rocm_xio_device_info =
  di_bdf :: u32
  di_bar0_addr :: u64
  di_bar0_size :: u64
  di_doorbell_stride :: u32
  di_max_queues :: u32

record rocm_xio_register_queue_addr_req =
  rq_virt_addr :: u64
  rq_phys_addr :: u64
  rq_size :: u64
  rq_prp2 :: u64
  rq_nvme_bdf :: u32
  rq_queue_type :: u8

record rocm_xio_register_buffer_req =
  rb_dmabuf_fd :: int
  rb_virt_addr :: u64
  rb_phys_addr :: u64
  rb_size :: u64
  rb_nvme_bdf :: u32
  rb_flags :: u32

record rocm_xio_mmio_bridge_shadow_req =
  ms_bridge_bdf :: u32
  ms_shadow_gpa :: u64
  ms_shadow_size :: u64

record rocm_xio_alloc_contig_req =
  ac_size :: u64
  ac_nvme_bdf :: u32
  ac_phys_addr :: u64
  ac_mmap_offset :: u32

record rocm_xio_quiesce_ns_req =
  qn_bdev_fd :: int
  qn_qid :: u32

record rocm_xio_debug_resurrect_req =
  dr_bdf :: u16
  dr_qid :: u16

subsection \<open>Lemmas on the encoding\<close>

lemma bdf_fields_bound:
  "bdf_domain b \<le> 0xFFFF" "bdf_bus b \<le> 0xFF" "bdf_devfn b \<le> 0xFF"
  "PCI_SLOT d \<le> 0x1F" "PCI_FUNC d \<le> 7"
  by (simp_all add: bdf_defs word_and_le1)

lemma small_word_bit:
  fixes x :: "'a::len word"
  assumes "x < 2 ^ n" and "bit x i"
  shows "i < n"
proof -
  from assms(1) have "take_bit n x = x"
    by (metis less_mask_eq take_bit_eq_mask)
  with assms(2) show ?thesis by (metis bit_take_bit_iff)
qed

lemma and_low_masks:
  fixes x :: u32
  shows "x AND 0xFFFF = take_bit 16 x" "x AND 0xFF = take_bit 8 x" "x AND 0x1F = take_bit 5 x"
    "x AND 7 = take_bit 3 x"
  by (simp_all add: take_bit_eq_mask mask_numeral)

lemmas bdf_bit_simps = bdf_defs and_low_masks bit_simps

lemma bdf_reencode:
  "ROCM_XIO_BDF (bdf_domain b) (bdf_bus b) (PCI_SLOT (bdf_devfn b)) (PCI_FUNC (bdf_devfn b)) = b"
proof (rule bit_eqI)
  fix n
  assume "possible_bit TYPE(u32) n"
  then have n: "n < 32" by simp
  consider "n < 3" | "3 \<le> n" "n < 8" | "8 \<le> n" "n < 16" | "16 \<le> n" by linarith
  then show "bit (ROCM_XIO_BDF (bdf_domain b) (bdf_bus b) (PCI_SLOT (bdf_devfn b))
      (PCI_FUNC (bdf_devfn b))) n = bit b n"
    using n by cases (auto simp: bdf_bit_simps)
qed

lemma hex_digit_value_table: "\<forall>k\<in>set [0..<16]. hex_digit_value (''0123456789abcdef'' ! k) = k"
  by code_simp

lemma hex_digit_value_char: "hex_digit_value (hex_char d) = d mod 16"
proof -
  have "d mod 16 \<in> set [0..<16]" by simp
  with hex_digit_value_table show ?thesis unfolding hex_char_def by blast
qed

lemma hex_value_snoc: "hex_value (s @ [c]) = 16 * hex_value s + hex_digit_value c"
  by (simp add: hex_value_def)

lemma hex_value_digits: "hex_value (hex_digits n) = n"
proof (induction n rule: hex_digits.induct)
  case (1 n)
  show ?case
  proof (cases "n < 16")
    case True
    then show ?thesis
      by (subst hex_digits.simps) (simp add: hex_value_def hex_digit_value_char)
  next
    case False
    with 1 have "hex_value (hex_digits (n div 16)) = n div 16" by simp
    with False show ?thesis
      by (subst hex_digits.simps) (simp add: hex_value_snoc hex_digit_value_char)
  qed
qed

lemma hex_value_zeros: "hex_value (replicate k CHR ''0'' @ s) = hex_value s"
  by (induction k) (simp_all add: hex_value_def hex_digit_value_def)

lemma hex_value_pad: "hex_value (hex_pad w n) = n"
  by (simp add: hex_pad_def hex_value_zeros hex_value_digits)

lemma hex_digits_length: "n < 16 ^ w \<Longrightarrow> 0 < w \<Longrightarrow> length (hex_digits n) \<le> w"
proof (induction n arbitrary: w rule: hex_digits.induct)
  case (1 n)
  show ?case
  proof (cases "n < 16")
    case True
    with "1.prems" show ?thesis by (subst hex_digits.simps) simp
  next
    case False
    obtain v where v: "w = Suc v" using "1.prems" by (cases w) auto
    with False "1.prems" have "0 < v" by (cases v) auto
    moreover from "1.prems" v have "n div 16 < 16 ^ v" by (simp add: div_less_iff_less_mult mult.commute)
    ultimately have "length (hex_digits (n div 16)) \<le> v" using "1.IH" False by blast
    with False v show ?thesis by (subst hex_digits.simps) simp
  qed
qed

lemma hex_pad_length: "n < 16 ^ w \<Longrightarrow> 0 < w \<Longrightarrow> length (hex_pad w n) = w"
  using hex_digits_length [of n w] by (simp add: hex_pad_def)

lemma bdf_unat_bounds:
  "unat (bdf_domain b) < 16 ^ 4" "unat (bdf_bus b) < 16 ^ 2" "unat (PCI_SLOT d) < 16 ^ 2"
  "unat (PCI_FUNC d) < 16 ^ 1"
  using bdf_fields_bound(1,2) [of b] bdf_fields_bound(4,5) [of d]
  by (simp_all add: word_le_nat_alt)

lemma bdf_pad_lengths [simp]:
  "length (hex_pad 4 (unat (bdf_domain b))) = 4" "length (hex_pad 2 (unat (bdf_bus b))) = 2"
  "length (hex_pad 2 (unat (PCI_SLOT d))) = 2" "length (hex_pad (Suc 0) (unat (PCI_FUNC d))) = 1"
  using hex_pad_length [OF bdf_unat_bounds(1), of b] hex_pad_length [OF bdf_unat_bounds(2), of b]
    hex_pad_length [OF bdf_unat_bounds(3), of d] hex_pad_length [OF bdf_unat_bounds(4), of d]
  by simp_all

lemma format_bdf_body:
  assumes "b \<noteq> 0" and "13 \<le> n"
  shows "format_bdf_as_pci_addr b True n =
    Some (hex_pad 4 (unat (bdf_domain b)) @ '':'' @ hex_pad 2 (unat (bdf_bus b)) @ '':'' @
      hex_pad 2 (unat (PCI_SLOT (bdf_devfn b))) @ ''.'' @ hex_pad 1 (unat (PCI_FUNC (bdf_devfn b))))"
  using assms by (simp add: format_bdf_as_pci_addr_def)

lemma hex_pad_inj: "hex_pad w (unat x) = hex_pad w (unat y) \<Longrightarrow> x = y"
  by (metis hex_value_pad word_unat_eq_iff)

subsection \<open>Properties\<close>

text \<open>Encoding then decoding a PCI address returns its four fields, for every domain, bus,
  device and function in the ranges the header documents.\<close>

theorem bdf_roundtrip:
  assumes "domain < 2 ^ 16" and "bus < 2 ^ 8" and "dev < 2 ^ 5" and "func < 2 ^ 3"
  shows "bdf_domain (ROCM_XIO_BDF domain bus dev func) = domain \<and>
    bdf_bus (ROCM_XIO_BDF domain bus dev func) = bus \<and>
    PCI_SLOT (bdf_devfn (ROCM_XIO_BDF domain bus dev func)) = dev \<and>
    PCI_FUNC (bdf_devfn (ROCM_XIO_BDF domain bus dev func)) = func"
proof (intro conjI)
  note small = small_word_bit [OF assms(1)] small_word_bit [OF assms(2)]
    small_word_bit [OF assms(3)] small_word_bit [OF assms(4)]
  show "bdf_domain (ROCM_XIO_BDF domain bus dev func) = domain"
    by (rule bit_eqI) (auto simp: bdf_bit_simps dest: small)
  show "bdf_bus (ROCM_XIO_BDF domain bus dev func) = bus"
    by (rule bit_eqI) (auto simp: bdf_bit_simps dest: small)
  show "PCI_SLOT (bdf_devfn (ROCM_XIO_BDF domain bus dev func)) = dev"
    by (rule bit_eqI) (auto simp: bdf_bit_simps dest: small)
  show "PCI_FUNC (bdf_devfn (ROCM_XIO_BDF domain bus dev func)) = func"
    by (rule bit_eqI) (auto simp: bdf_bit_simps dest: small)
qed

theorem bdf_roundtrip_witness:
  "bdf_domain (ROCM_XIO_BDF 1 0x85 0x1F 7) = 1 \<and> bdf_bus (ROCM_XIO_BDF 1 0x85 0x1F 7) = 0x85 \<and>
   PCI_SLOT (bdf_devfn (ROCM_XIO_BDF 1 0x85 0x1F 7)) = 0x1F \<and>
   PCI_FUNC (bdf_devfn (ROCM_XIO_BDF 1 0x85 0x1F 7)) = 7"
  using bdf_roundtrip [of 1 "0x85" "0x1F" 7] by simp

text \<open>A non-zero PCI address printed into a buffer of at least 13 bytes is the complete
  12-character form, and no other address prints the same text.\<close>

theorem format_bdf_unique:
  assumes "b \<noteq> 0" and "13 \<le> n" and "format_bdf_as_pci_addr b True n = Some s"
  shows "length s = 12 \<and> (\<forall>b'. format_bdf_as_pci_addr b' True n = Some s \<longrightarrow> b' = b)"
proof (intro conjI allI impI)
  from assms show len: "length s = 12"
    by (auto simp: format_bdf_body)
  fix b'
  assume b': "format_bdf_as_pci_addr b' True n = Some s"
  with len have "b' \<noteq> 0" by (auto simp: format_bdf_as_pci_addr_def split: if_splits)
  with b' assms have "bdf_domain b' = bdf_domain b \<and> bdf_bus b' = bdf_bus b \<and>
      PCI_SLOT (bdf_devfn b') = PCI_SLOT (bdf_devfn b) \<and>
      PCI_FUNC (bdf_devfn b') = PCI_FUNC (bdf_devfn b)"
    by (auto simp: format_bdf_body dest!: hex_pad_inj)
  then show "b' = b" by (metis bdf_reencode)
qed

theorem format_bdf_unique_witness:
  "format_bdf_as_pci_addr 0x8500 True 16 = Some ''0000:85:00.0'' \<and>
   format_bdf_as_pci_addr 0x10085 True 16 \<noteq> Some ''0000:85:00.0''"
proof -
  have *: "format_bdf_as_pci_addr 0x8500 True 16 = Some ''0000:85:00.0''" by code_simp
  then have "length ''0000:85:00.0'' = 12 \<and>
      (\<forall>b'. format_bdf_as_pci_addr b' True 16 = Some ''0000:85:00.0'' \<longrightarrow> b' = 0x8500)"
    by (rule format_bdf_unique [rotated 2]) simp_all
  from conjunct2 [OF this, THEN spec, of "0x10085"] * show ?thesis by auto
qed

end
