(* ===== verification/Kernel_Env.thy ===== *)
theory Kernel_Env
  imports Kernel_Uapi
begin

text \<open>
  What the kernel module uses of the Linux kernel. The answers of the kernel's functions are
  fields of an environment record, which every handler takes as an argument; the calls that
  take or give back something are recorded in a trace. \<open>held\<close> counts, per resource, the
  calls that took it minus the calls that gave it back (a quiesced request queue and a stopped
  hardware queue count as taken until they are resumed); \<open>unwind\<close> checks in addition that
  what was taken last is given back first. The locale \<open>resource_accounting\<close> is the contract
  between a component and the module: a component whose every step moves the resources it
  owns by exactly what the trace of the step takes and gives back neither leaks nor releases
  twice, over any number of steps.
\<close>

subsection \<open>The environment\<close>

text \<open>What the module registers with the kernel while it is loaded.\<close>

datatype kreg = Chrdev | Device_class | Device_node | Kprobe_submit | Kretprobe_alloc | Kretprobe_create

record pci_env =
  pci_get_domain_bus_and_slot :: "u32 \<Rightarrow> u32 \<Rightarrow> u32 \<Rightarrow> ptr"
  pci_get_amd_device :: ptr
  pci_domain_nr :: "ptr \<Rightarrow> u32"
  pci_bus_number :: "ptr \<Rightarrow> u32"
  pci_devfn :: "ptr \<Rightarrow> u32"
  pci_resource_flags :: "ptr \<Rightarrow> nat \<Rightarrow> u64"
  pci_resource_start :: "ptr \<Rightarrow> nat \<Rightarrow> u64"
  pci_resource_len :: "ptr \<Rightarrow> nat \<Rightarrow> u64"
  pci_read_config_dword :: "ptr \<Rightarrow> nat \<Rightarrow> u32"
  pci_devices :: "ptr list"
  pci_has_driver :: "ptr \<Rightarrow> bool"
  pci_get_drvdata :: "ptr \<Rightarrow> ptr"

record sg_entry =
  sg_phys :: u64
  sg_dma_address :: u64
  sg_length :: u32

record ttm_resource =
  ttm_start :: u64
  ttm_mem_type :: u32

record dmabuf_env = pci_env +
  dma_buf_get :: "int \<Rightarrow> ptr kres"
  dmabuf_size :: "ptr \<Rightarrow> u64"
  dmabuf_priv :: "ptr \<Rightarrow> ptr"
  tbo_resource :: "ptr \<Rightarrow> ttm_resource option"
  dma_buf_dynamic_attach :: "ptr \<Rightarrow> ptr \<Rightarrow> ptr kres"
  dma_buf_pin :: "ptr \<Rightarrow> errno option"
  dma_buf_map_attachment :: "ptr \<Rightarrow> ptr kres"
  sgt_entries :: "ptr \<Rightarrow> sg_entry list"

record blk_env = dmabuf_env +
  fget :: "int \<Rightarrow> ptr"
  f_mapping :: "ptr \<Rightarrow> ptr"
  mapping_host :: "ptr \<Rightarrow> ptr"
  file_inode :: "ptr \<Rightarrow> ptr"
  inode_is_blk :: "ptr \<Rightarrow> bool"
  I_BDEV :: "ptr \<Rightarrow> ptr"
  bdev_get_queue :: "ptr \<Rightarrow> ptr"
  queue_is_mq :: "ptr \<Rightarrow> bool"
  nr_hw_queues :: "ptr \<Rightarrow> u32"
  hctx_table :: "ptr \<Rightarrow> u32 \<Rightarrow> ptr"

text \<open>
  \<open>kmalloc_ptr\<close> is the address of a successful allocation and \<open>kmalloc_stale\<close> what the
  fields of the fresh object hold before they are assigned: \<^verbatim>\<open>kmalloc\<close> does not clear memory.
\<close>

record kenv = blk_env +
  copy_from_user_ok :: bool
  copy_to_user_ok :: bool
  capable_sys_admin :: bool
  kmalloc_ok :: bool
  kmalloc_ptr :: ptr
  kmalloc_stale :: u64
  virt_addr_valid :: "u64 \<Rightarrow> bool"
  virt_to_phys :: "u64 \<Rightarrow> u64"
  dma_alloc_coherent :: "ptr \<Rightarrow> u64 \<Rightarrow> (u64 \<times> u64) option"
  dma_mmap_coherent :: "errno option"
  remap_pfn_range :: "errno option"
  register_fails :: "kreg \<Rightarrow> errno option"

text \<open>
  A concrete environment, used where a statement about every environment is instantiated: one
  device per PCI address, one GPU with a prefetchable BAR 0 of 16 GiB at 32 GiB, one DMA-BUF
  of 64 KiB mapped as a single segment inside that BAR, one block device with 8 hardware
  queues.
\<close>

definition sample_env :: kenv where
  "sample_env =
     \<lparr>pci_get_domain_bus_and_slot = (\<lambda>d b f. 0x100),
      pci_get_amd_device = 0x200,
      pci_domain_nr = (\<lambda>p. 0), pci_bus_number = (\<lambda>p. 0x85), pci_devfn = (\<lambda>p. 0),
      pci_resource_flags = (\<lambda>p i. if i = 0 then 0x2200 else 0),
      pci_resource_start = (\<lambda>p i. 0x800000000), pci_resource_len = (\<lambda>p i. 0x400000000),
      pci_read_config_dword = (\<lambda>p off. if off = 0x40 then 0x10000 else 0),
      pci_devices = [0x100, 0x200], pci_has_driver = (\<lambda>p. True), pci_get_drvdata = (\<lambda>p. p + 8),
      dma_buf_get = (\<lambda>fd. if fd < 0 then Inl EBADF else Inr 0x300), dmabuf_size = (\<lambda>d. 0x10000),
      dmabuf_priv = (\<lambda>d. 0x308), tbo_resource = (\<lambda>t. Some \<lparr>ttm_start = 0x40, ttm_mem_type = 2\<rparr>),
      dma_buf_dynamic_attach = (\<lambda>d p. Inr 0x400), dma_buf_pin = (\<lambda>a. None),
      dma_buf_map_attachment = (\<lambda>a. Inr 0x500),
      sgt_entries = (\<lambda>s. [\<lparr>sg_phys = 0x800040000, sg_dma_address = 0x9000, sg_length = 0x10000\<rparr>]),
      fget = (\<lambda>fd. if fd < 0 then NULL else 0x600), f_mapping = (\<lambda>f. 0x608), mapping_host = (\<lambda>m. 0x610),
      file_inode = (\<lambda>f. 0x618), inode_is_blk = (\<lambda>i. True), I_BDEV = (\<lambda>i. 0x620),
      bdev_get_queue = (\<lambda>b. 0x700), queue_is_mq = (\<lambda>q. True), nr_hw_queues = (\<lambda>q. 8),
      hctx_table = (\<lambda>q i. 0x800 + ucast i),
      copy_from_user_ok = True, copy_to_user_ok = True, capable_sys_admin = True,
      kmalloc_ok = True, kmalloc_ptr = 0x1000, kmalloc_stale = 0xDEAD,
      virt_addr_valid = (\<lambda>v. False), virt_to_phys = (\<lambda>v. v),
      dma_alloc_coherent = (\<lambda>p n. Some (0xA000, 0xB000)), dma_mmap_coherent = None,
      remap_pfn_range = None, register_fails = (\<lambda>k. None)\<rparr>"

lemma sample_env_simps [simp]:
  "pci_get_domain_bus_and_slot sample_env d b f = 0x100"
  "pci_get_amd_device sample_env = 0x200"
  "pci_resource_flags sample_env p i = (if i = 0 then 0x2200 else 0)"
  "pci_resource_start sample_env p i = 0x800000000"
  "pci_resource_len sample_env p i = 0x400000000"
  "pci_read_config_dword sample_env p off = (if off = 0x40 then 0x10000 else 0)"
  "pci_devices sample_env = [0x100, 0x200]"
  "pci_has_driver sample_env p"
  "pci_get_drvdata sample_env p = p + 8"
  "dma_buf_get sample_env fd = (if fd < 0 then Inl EBADF else Inr 0x300)"
  "dmabuf_size sample_env dm = 0x10000"
  "dma_buf_dynamic_attach sample_env dm p = Inr 0x400"
  "dma_buf_pin sample_env a = None"
  "dma_buf_map_attachment sample_env a = Inr 0x500"
  "sgt_entries sample_env s =
     [\<lparr>sg_phys = 0x800040000, sg_dma_address = 0x9000, sg_length = 0x10000\<rparr>]"
  "fget sample_env fd = (if fd < 0 then NULL else 0x600)"
  "f_mapping sample_env g = 0x608"
  "mapping_host sample_env m = 0x610"
  "inode_is_blk sample_env n"
  "I_BDEV sample_env n = 0x620"
  "bdev_get_queue sample_env bd = 0x700"
  "queue_is_mq sample_env q"
  "nr_hw_queues sample_env q = 8"
  "hctx_table sample_env q k = 0x800 + ucast k"
  "copy_from_user_ok sample_env" "copy_to_user_ok sample_env" "capable_sys_admin sample_env"
  "kmalloc_ok sample_env" "kmalloc_ptr sample_env = 0x1000" "kmalloc_stale sample_env = 0xDEAD"
  "\<not> virt_addr_valid sample_env v"
  "dma_alloc_coherent sample_env p sz = Some (0xA000, 0xB000)"
  "dma_mmap_coherent sample_env = None" "remap_pfn_range sample_env = None"
  "register_fails sample_env kr = None"
  by (simp_all add: sample_env_def)

subsection \<open>Calls and resources\<close>

datatype kobj =
    Obj_queue_addr | Obj_vram_buffer | Obj_contig | Obj_quiesced | Obj_snapshot | Obj_poisoned
  | Obj_pending

text \<open>The NVMe admin commands the module submits itself.\<close>

record nvme_create_cmd =
  nc_opcode :: u8
  nc_prp1 :: u64
  nc_qid :: u16
  nc_qsize :: u16
  nc_flags :: u16
  nc_vector_or_cqid :: u16

datatype kcall =
    Pci_get ptr | Pci_dev_put ptr
  | Dma_buf_get ptr | Dma_buf_put ptr
  | Dma_buf_attach ptr ptr | Dma_buf_detach ptr ptr
  | Dma_buf_pin ptr | Dma_buf_unpin ptr
  | Dma_buf_map ptr ptr | Dma_buf_unmap ptr ptr
  | Kmalloc kobj | Kfree kobj
  | Dma_alloc ptr u64 u64 u64 | Dma_free ptr u64 u64 u64
  | Fget ptr | Fput ptr
  | Blk_mq_quiesce_queue ptr | Blk_mq_unquiesce_queue ptr
  | Blk_mq_stop_hw_queue ptr | Blk_mq_start_hw_queue ptr
  | Nvme_submit_sync_cmd ptr nvme_create_cmd
  | Mod_delayed_work_resurrect | Schedule_work_snapshot
  | Remap_pfn_range u64 u64 u64
  | Dma_mmap_coherent ptr u64 u64 u64
  | Register kreg | Unregister kreg
  | Cancel_work_sync_snapshot | Cancel_work_sync_resurrect

datatype res =
    RPci ptr | RDmabuf ptr | RAttach ptr ptr | RPin ptr | RMap ptr ptr | RMem kobj
  | RCoherent ptr u64 u64 u64 | RFile ptr | RQuiesce ptr | RStop ptr
  | RReg kreg

fun takes :: "kcall \<Rightarrow> res option" where
  "takes (Pci_get p) = Some (RPci p)"
| "takes (Dma_buf_get d) = Some (RDmabuf d)"
| "takes (Dma_buf_attach d a) = Some (RAttach d a)"
| "takes (Dma_buf_pin a) = Some (RPin a)"
| "takes (Dma_buf_map a s) = Some (RMap a s)"
| "takes (Kmalloc k) = Some (RMem k)"
| "takes (Dma_alloc p n c d) = Some (RCoherent p n c d)"
| "takes (Fget f) = Some (RFile f)"
| "takes (Blk_mq_quiesce_queue q) = Some (RQuiesce q)"
| "takes (Blk_mq_stop_hw_queue h) = Some (RStop h)"
| "takes (Register k) = Some (RReg k)"
| "takes _ = None"

fun gives :: "kcall \<Rightarrow> res option" where
  "gives (Pci_dev_put p) = Some (RPci p)"
| "gives (Dma_buf_put d) = Some (RDmabuf d)"
| "gives (Dma_buf_detach d a) = Some (RAttach d a)"
| "gives (Dma_buf_unpin a) = Some (RPin a)"
| "gives (Dma_buf_unmap a s) = Some (RMap a s)"
| "gives (Kfree k) = Some (RMem k)"
| "gives (Dma_free p n c d) = Some (RCoherent p n c d)"
| "gives (Fput f) = Some (RFile f)"
| "gives (Blk_mq_unquiesce_queue q) = Some (RQuiesce q)"
| "gives (Blk_mq_start_hw_queue h) = Some (RStop h)"
| "gives (Unregister k) = Some (RReg k)"
| "gives _ = None"

definition delta :: "res \<Rightarrow> kcall \<Rightarrow> int" where
  "delta r c = (if takes c = Some r then 1 else 0) - (if gives c = Some r then 1 else 0)"

definition held :: "kcall list \<Rightarrow> res \<Rightarrow> int" where
  "held cs r = sum_list (map (delta r) cs)"

text \<open>Last taken, first given back: \<open>None\<close> when a call gives back what is not on top.\<close>

fun unwind :: "res list \<Rightarrow> kcall list \<Rightarrow> res list option" where
  "unwind st [] = Some st"
| "unwind st (c # cs) =
     (case takes c of
        Some r \<Rightarrow> unwind (r # st) cs
      | None \<Rightarrow>
         (case gives c of
            None \<Rightarrow> unwind st cs
          | Some r \<Rightarrow> (case st of [] \<Rightarrow> None | t # st' \<Rightarrow> if t = r then unwind st' cs else None)))"

definition res_count :: "res \<Rightarrow> res \<Rightarrow> int" where
  "res_count q r = (if q = r then 1 else 0)"

definition res_counts :: "res list \<Rightarrow> res \<Rightarrow> int" where
  "res_counts qs r = sum_list (map (\<lambda>q. res_count q r) qs)"

lemma held_simps [simp]:
  "held [] r = 0"
  "held (c # cs) r = delta r c + held cs r"
  "held (cs @ ds) r = held cs r + held ds r"
  by (simp_all add: held_def)

lemma held_concat_map: "held (concat (map g xs)) r = sum_list (map (\<lambda>x. held (g x) r) xs)"
  by (induction xs) simp_all

lemma res_counts_simps [simp]:
  "res_counts [] r = 0"
  "res_counts (q # qs) r = res_count q r + res_counts qs r"
  "res_counts (qs @ ps) r = res_counts qs r + res_counts ps r"
  by (simp_all add: res_counts_def)

lemma delta_simps [simp]:
  "delta r (Pci_get p) = res_count (RPci p) r"
  "delta r (Pci_dev_put p) = - res_count (RPci p) r"
  "delta r (Dma_buf_get d) = res_count (RDmabuf d) r"
  "delta r (Dma_buf_put d) = - res_count (RDmabuf d) r"
  "delta r (Dma_buf_attach d a) = res_count (RAttach d a) r"
  "delta r (Dma_buf_detach d a) = - res_count (RAttach d a) r"
  "delta r (Dma_buf_pin a) = res_count (RPin a) r"
  "delta r (Dma_buf_unpin a) = - res_count (RPin a) r"
  "delta r (Dma_buf_map a s) = res_count (RMap a s) r"
  "delta r (Dma_buf_unmap a s) = - res_count (RMap a s) r"
  "delta r (Kmalloc k) = res_count (RMem k) r"
  "delta r (Kfree k) = - res_count (RMem k) r"
  "delta r (Dma_alloc p n c d) = res_count (RCoherent p n c d) r"
  "delta r (Dma_free p n c d) = - res_count (RCoherent p n c d) r"
  "delta r (Fget f) = res_count (RFile f) r"
  "delta r (Fput f) = - res_count (RFile f) r"
  "delta r (Blk_mq_quiesce_queue q) = res_count (RQuiesce q) r"
  "delta r (Blk_mq_unquiesce_queue q) = - res_count (RQuiesce q) r"
  "delta r (Blk_mq_stop_hw_queue h) = res_count (RStop h) r"
  "delta r (Blk_mq_start_hw_queue h) = - res_count (RStop h) r"
  "delta r (Nvme_submit_sync_cmd q cmd) = 0"
  "delta r Mod_delayed_work_resurrect = 0"
  "delta r Schedule_work_snapshot = 0"
  "delta r (Remap_pfn_range v n s) = 0"
  "delta r (Dma_mmap_coherent p n c d) = 0"
  "delta r (Register kr) = res_count (RReg kr) r"
  "delta r (Unregister kr) = - res_count (RReg kr) r"
  "delta r Cancel_work_sync_snapshot = 0"
  "delta r Cancel_work_sync_resurrect = 0"
  by (simp_all add: delta_def res_count_def)

lemma unwind_append:
  "unwind st (cs @ ds) = (case unwind st cs of None \<Rightarrow> None | Some st' \<Rightarrow> unwind st' ds)"
  by (induction st cs rule: unwind.induct) (auto split: option.splits list.splits)

lemma takes_gives_disjoint: "takes c = Some r \<Longrightarrow> gives c = None"
  by (cases c) auto

text \<open>A trace that unwinds to a stack holds exactly what is on it.\<close>

lemma unwind_held:
  "unwind st cs = Some st' \<Longrightarrow> held cs r = res_counts st' r - res_counts st r"
proof (induction st cs rule: unwind.induct)
  case (1 st)
  then show ?case by simp
next
  case (2 st c cs)
  show ?case
  proof (cases "takes c")
    case (Some q)
    then have "delta r c = res_count q r"
      by (simp add: delta_def res_count_def takes_gives_disjoint)
    with 2 Some show ?thesis by simp
  next
    case None
    then show ?thesis
      using 2 by (auto simp: delta_def res_count_def split: option.splits list.splits if_splits)
  qed
qed

subsection \<open>Runs and the accounting contract\<close>

inductive runs :: "('s \<Rightarrow> kcall list \<Rightarrow> 's \<Rightarrow> bool) \<Rightarrow> 's \<Rightarrow> kcall list \<Rightarrow> 's \<Rightarrow> bool"
  for step :: "'s \<Rightarrow> kcall list \<Rightarrow> 's \<Rightarrow> bool" where
  runs_refl: "runs step s [] s"
| runs_step: "runs step s cs t \<Longrightarrow> step t ds u \<Longrightarrow> runs step s (cs @ ds) u"

lemma runs_one: "step s cs t \<Longrightarrow> runs step s cs t"
  using runs_step [OF runs_refl, of step s cs t] by simp

locale resource_accounting =
  fixes step :: "'s \<Rightarrow> kcall list \<Rightarrow> 's \<Rightarrow> bool"
    and inv :: "'s \<Rightarrow> bool"
    and owned :: "'s \<Rightarrow> res \<Rightarrow> int"
  assumes inv_step: "inv s \<Longrightarrow> step s cs t \<Longrightarrow> inv t"
    and step_balanced: "inv s \<Longrightarrow> step s cs t \<Longrightarrow> held cs r = owned t r - owned s r"
begin

lemma runs_inv: "runs step s cs t \<Longrightarrow> inv s \<Longrightarrow> inv t"
  by (induction rule: runs.induct) (auto intro: inv_step)

lemma runs_balanced: "runs step s cs t \<Longrightarrow> inv s \<Longrightarrow> held cs r = owned t r - owned s r"
proof (induction rule: runs.induct)
  case (runs_refl s)
  show ?case by simp
next
  case (runs_step s cs t ds u)
  then have "inv t" by (blast intro: runs_inv)
  with runs_step show ?case using step_balanced [of t ds u] by simp
qed

text \<open>Starting and ending with nothing owned, a run gives back all it took.\<close>

lemma runs_no_leak:
  "runs step s cs t \<Longrightarrow> inv s \<Longrightarrow> owned s r = 0 \<Longrightarrow> owned t r = 0 \<Longrightarrow> held cs r = 0"
  using runs_balanced by simp

end

end
