(* ===== verification/Kernel_Dmabuf.thy ===== *)
theory Kernel_Dmabuf
  imports Kernel_Env
begin

text \<open>
  How the kernel module turns a DMA-BUF into an address a device can use, and the two queries
  that only read PCI configuration (\<^verbatim>\<open>kernel/rocm-xio/rocm-xio.c\<close>):
  \<^verbatim>\<open>extract_vram_offset_from_amdgpu_bo\<close>, \<^verbatim>\<open>extract_vram_offset_from_sg\<close>, \<^verbatim>\<open>get_dmabuf_bar_gpa\<close>,
  \<^verbatim>\<open>pci_dev_to_bdf\<close>, \<^verbatim>\<open>get_dmabuf_phys_addr\<close>, \<^verbatim>\<open>get_nvme_device_info\<close> and
  \<^verbatim>\<open>get_mmio_bridge_shadow_buffer\<close>. Each returns its result and the trace of the calls that
  take or give back a reference, in the order of the source's labels. A scatter-gather table
  is the list of its mapped entries, so \<^verbatim>\<open>sgt->nents\<close> is its length.
\<close>

subsection \<open>The offset of a buffer in VRAM\<close>

text \<open>
  The out-parameter \<^verbatim>\<open>*offset\<close> is passed in and returned: the function writes it before it
  checks the memory type, so it is changed on one of the error paths too.
\<close>

definition extract_vram_offset_from_amdgpu_bo ::
    "kenv \<Rightarrow> ptr \<Rightarrow> u64 \<Rightarrow> u64 \<Rightarrow> u64 \<Rightarrow> errno option \<times> u64" where
  "extract_vram_offset_from_amdgpu_bo env dmabuf bar_start bar_size offset =
     (if dmabuf = NULL \<or> dmabuf_priv env dmabuf = NULL then (Some EINVAL, offset)
      else (case tbo_resource env (dmabuf_priv env dmabuf) of
              None \<Rightarrow> (Some EINVAL, offset)
            | Some resource \<Rightarrow>
                (let offset' = push_bit 12 (ttm_start resource)
                 in if ttm_mem_type resource \<noteq> 2 then (Some EINVAL, offset') else (None, offset'))))"

definition in_bar :: "u64 \<Rightarrow> u64 \<Rightarrow> sg_entry \<Rightarrow> bool" where
  "in_bar bar_start bar_size sg \<longleftrightarrow> sg_phys sg \<ge> bar_start \<and> sg_phys sg < bar_start + bar_size"

definition extract_vram_offset_from_sg ::
    "kenv \<Rightarrow> sg_entry list \<Rightarrow> u64 \<Rightarrow> u64 \<Rightarrow> ptr \<Rightarrow> u64 \<Rightarrow> errno option \<times> u64" where
  "extract_vram_offset_from_sg env sgt bar_start bar_size dmabuf offset =
     (case sgt of
        [] \<Rightarrow> (Some EINVAL, offset)
      | sg0 # _ \<Rightarrow>
         (case List.find (in_bar bar_start bar_size) sgt of
            Some sg \<Rightarrow> (None, sg_phys sg - bar_start)
          | None \<Rightarrow>
             (case extract_vram_offset_from_amdgpu_bo env dmabuf bar_start bar_size offset of
                (None, offset') \<Rightarrow> (None, offset')
              | (Some _, offset') \<Rightarrow>
                  if sg_dma_address sg0 > 0 \<and> sg_dma_address sg0 < bar_size
                  then (None, sg_dma_address sg0)
                  else (Some EINVAL, offset'))))"

subsection \<open>The guest-physical address of a buffer\<close>

definition IORESOURCE_MEM :: u64 where
  "IORESOURCE_MEM = 0x200"

definition IORESOURCE_PREFETCH :: u64 where
  "IORESOURCE_PREFETCH = 0x2000"

text \<open>The loop over the standard BARs, which stops at the first one that qualifies.\<close>

fun find_vram_bar :: "kenv \<Rightarrow> ptr \<Rightarrow> nat list \<Rightarrow> nat option" where
  "find_vram_bar env gpu_dev [] = None"
| "find_vram_bar env gpu_dev (i # is) =
     (if pci_resource_flags env gpu_dev i AND IORESOURCE_MEM = 0 then find_vram_bar env gpu_dev is
      else if i = 0 \<and> pci_resource_flags env gpu_dev i AND IORESOURCE_PREFETCH \<noteq> 0 then Some i
      else find_vram_bar env gpu_dev is)"

definition bar_gpa_of_sgt :: "kenv \<Rightarrow> ptr \<Rightarrow> ptr \<Rightarrow> ptr \<Rightarrow> u64 kres" where
  "bar_gpa_of_sgt env gpu_dev dmabuf sgt =
     (case find_vram_bar env gpu_dev [0..<6] of
        None \<Rightarrow> Inl EINVAL
      | Some i \<Rightarrow>
         (let bar_start = pci_resource_start env gpu_dev i;
              bar_size = pci_resource_len env gpu_dev i
          in case extract_vram_offset_from_sg env (sgt_entries env sgt) bar_start bar_size dmabuf 0 of
               (None, vram_offset) \<Rightarrow> Inr (bar_start + vram_offset)
             | (Some _, _) \<Rightarrow> Inr bar_start))"

definition get_dmabuf_bar_gpa :: "kenv \<Rightarrow> int \<Rightarrow> (u64 \<times> u64) kres \<times> kcall list" where
  "get_dmabuf_bar_gpa env dmabuf_fd =
     (case dma_buf_get env dmabuf_fd of
        Inl e \<Rightarrow> (Inl e, [])
      | Inr dmabuf \<Rightarrow>
         (let gpu_dev = pci_get_amd_device env
          in if gpu_dev = NULL then (Inl ENODEV, [Dma_buf_get dmabuf, Dma_buf_put dmabuf])
             else (case dma_buf_dynamic_attach env dmabuf gpu_dev of
                Inl e \<Rightarrow> (Inl e, [Dma_buf_get dmabuf, Pci_get gpu_dev,
                                 Pci_dev_put gpu_dev, Dma_buf_put dmabuf])
              | Inr attach \<Rightarrow>
                 (case dma_buf_pin env attach of
                    Some e \<Rightarrow> (Inl e, [Dma_buf_get dmabuf, Pci_get gpu_dev,
                                      Dma_buf_attach dmabuf attach, Dma_buf_detach dmabuf attach,
                                      Pci_dev_put gpu_dev, Dma_buf_put dmabuf])
                  | None \<Rightarrow>
                     (case dma_buf_map_attachment env attach of
                        Inl e \<Rightarrow> (Inl e, [Dma_buf_get dmabuf, Pci_get gpu_dev,
                                  Dma_buf_attach dmabuf attach, Dma_buf_pin attach,
                                  Dma_buf_unpin attach, Dma_buf_detach dmabuf attach,
                                  Pci_dev_put gpu_dev, Dma_buf_put dmabuf])
                      | Inr sgt \<Rightarrow>
                         (map_sum id (\<lambda>gpa. (gpa, dmabuf_size env dmabuf))
                            (bar_gpa_of_sgt env gpu_dev dmabuf sgt),
                          [Dma_buf_get dmabuf, Pci_get gpu_dev, Dma_buf_attach dmabuf attach,
                           Dma_buf_pin attach, Dma_buf_map attach sgt,
                           Dma_buf_unmap attach sgt, Dma_buf_unpin attach,
                           Dma_buf_detach dmabuf attach, Pci_dev_put gpu_dev,
                           Dma_buf_put dmabuf]))))))"

subsection \<open>The bus address of a buffer for an NVMe device\<close>

definition pci_dev_to_bdf :: "kenv \<Rightarrow> ptr \<Rightarrow> u32" where
  "pci_dev_to_bdf env pdev =
     (if pdev = NULL then 0
      else push_bit 16 (pci_domain_nr env pdev) OR push_bit 8 (pci_bus_number env pdev)
           OR pci_devfn env pdev)"

definition pci_lookup :: "kenv \<Rightarrow> u32 \<Rightarrow> ptr" where
  "pci_lookup env bdf =
     pci_get_domain_bus_and_slot env (bdf_domain bdf) (bdf_bus bdf) (bdf_devfn bdf)"

text \<open>What a successful call leaves for the caller to keep alive.\<close>

record p2p_mapping =
  pm_phys_addr :: u64
  pm_size :: u64
  pm_dmabuf :: ptr
  pm_attach :: ptr
  pm_sgt :: ptr
  pm_pdev :: ptr

definition get_dmabuf_phys_addr :: "kenv \<Rightarrow> int \<Rightarrow> u32 \<Rightarrow> p2p_mapping kres \<times> kcall list" where
  "get_dmabuf_phys_addr env dmabuf_fd nvme_bdf =
     (let pdev = pci_lookup env nvme_bdf
      in if pdev = NULL then (Inl ENODEV, [])
         else (case dma_buf_get env dmabuf_fd of
            Inl e \<Rightarrow> (Inl e, [Pci_get pdev, Pci_dev_put pdev])
          | Inr dmabuf \<Rightarrow>
             (case dma_buf_dynamic_attach env dmabuf pdev of
                Inl e \<Rightarrow> (Inl e, [Pci_get pdev, Dma_buf_get dmabuf, Dma_buf_put dmabuf,
                                 Pci_dev_put pdev])
              | Inr attach \<Rightarrow>
                 (case dma_buf_pin env attach of
                    Some e \<Rightarrow> (Inl e, [Pci_get pdev, Dma_buf_get dmabuf,
                                      Dma_buf_attach dmabuf attach, Dma_buf_detach dmabuf attach,
                                      Dma_buf_put dmabuf, Pci_dev_put pdev])
                  | None \<Rightarrow>
                     (case dma_buf_map_attachment env attach of
                        Inl e \<Rightarrow> (Inl e, [Pci_get pdev, Dma_buf_get dmabuf,
                                  Dma_buf_attach dmabuf attach, Dma_buf_pin attach,
                                  Dma_buf_unpin attach, Dma_buf_detach dmabuf attach,
                                  Dma_buf_put dmabuf, Pci_dev_put pdev])
                      | Inr sgt \<Rightarrow>
                         (let acquired = [Pci_get pdev, Dma_buf_get dmabuf,
                                Dma_buf_attach dmabuf attach, Dma_buf_pin attach,
                                Dma_buf_map attach sgt];
                              err_unmap = [Dma_buf_unmap attach sgt, Dma_buf_unpin attach,
                                Dma_buf_detach dmabuf attach, Dma_buf_put dmabuf,
                                Pci_dev_put pdev]
                          in case sgt_entries env sgt of
                               [] \<Rightarrow> (Inl EINVAL, acquired @ err_unmap)
                             | [sg] \<Rightarrow> (Inr \<lparr>pm_phys_addr = sg_dma_address sg,
                                            pm_size = dmabuf_size env dmabuf, pm_dmabuf = dmabuf,
                                            pm_attach = attach, pm_sgt = sgt, pm_pdev = pdev\<rparr>,
                                       acquired)
                             | _ \<Rightarrow> (Inl EOPNOTSUPP, acquired @ err_unmap)))))))"

subsection \<open>Device queries\<close>

definition get_nvme_device_info ::
    "kenv \<Rightarrow> u32 \<Rightarrow> rocm_xio_device_info \<Rightarrow> rocm_xio_device_info kres \<times> kcall list" where
  "get_nvme_device_info env bdf info =
     (let nvme_dev = pci_lookup env bdf
      in if nvme_dev = NULL then (Inl ENODEV, [])
         else (Inr (info\<lparr>di_bdf := bdf, di_bar0_addr := pci_resource_start env nvme_dev 0,
                    di_bar0_size := pci_resource_len env nvme_dev 0, di_doorbell_stride := 4,
                    di_max_queues := 65535\<rparr>),
               [Pci_get nvme_dev, Pci_dev_put nvme_dev]))"

definition get_mmio_bridge_shadow_buffer ::
    "kenv \<Rightarrow> u32 \<Rightarrow> rocm_xio_mmio_bridge_shadow_req \<Rightarrow>
     rocm_xio_mmio_bridge_shadow_req kres \<times> kcall list" where
  "get_mmio_bridge_shadow_buffer env bridge_bdf req =
     (let bridge_dev = pci_lookup env bridge_bdf
      in if bridge_dev = NULL then (Inl ENODEV, [])
         else (let gpa_low = pci_read_config_dword env bridge_dev 0x40;
                   gpa_high = pci_read_config_dword env bridge_dev 0x44;
                   shadow_gpa = push_bit 32 (ucast gpa_high :: u64) OR ucast gpa_low
               in if shadow_gpa = 0 then (Inl EINVAL, [Pci_get bridge_dev, Pci_dev_put bridge_dev])
                  else (Inr (req\<lparr>ms_bridge_bdf := bridge_bdf, ms_shadow_gpa := shadow_gpa,
                             ms_shadow_size := 8192\<rparr>),
                        [Pci_get bridge_dev, Pci_dev_put bridge_dev])))"

text \<open>What a mapping keeps taken, the last first.\<close>

definition mapping_res :: "p2p_mapping \<Rightarrow> res list" where
  "mapping_res m = [RMap (pm_attach m) (pm_sgt m), RPin (pm_attach m),
     RAttach (pm_dmabuf m) (pm_attach m), RDmabuf (pm_dmabuf m), RPci (pm_pdev m)]"

subsection \<open>Lemmas\<close>

lemmas env_splits = sum.splits option.splits list.splits if_splits

lemma get_dmabuf_bar_gpa_unwind:
  "unwind [] (snd (get_dmabuf_bar_gpa env fd)) = Some []"
  by (simp add: get_dmabuf_bar_gpa_def Let_def split: sum.split option.split)

lemma get_dmabuf_bar_gpa_held: "held (snd (get_dmabuf_bar_gpa env fd)) r = 0"
  using unwind_held [OF get_dmabuf_bar_gpa_unwind] by simp

lemma get_dmabuf_phys_addr_unwind:
  "unwind [] (snd (get_dmabuf_phys_addr env fd bdf)) =
     Some (case fst (get_dmabuf_phys_addr env fd bdf) of Inl _ \<Rightarrow> [] | Inr m \<Rightarrow> mapping_res m)"
  by (simp add: get_dmabuf_phys_addr_def mapping_res_def Let_def split: sum.split option.split list.split)

lemma get_dmabuf_phys_addr_held:
  "held (snd (get_dmabuf_phys_addr env fd bdf)) r =
     (case fst (get_dmabuf_phys_addr env fd bdf) of Inl _ \<Rightarrow> 0
      | Inr m \<Rightarrow> res_counts (mapping_res m) r)"
  using unwind_held [OF get_dmabuf_phys_addr_unwind [of env fd bdf], where r = r] by (simp split: sum.split)

lemma query_held:
  "held (snd (get_nvme_device_info env bdf info)) r = 0"
  "held (snd (get_mmio_bridge_shadow_buffer env bdf req)) r = 0"
  by (simp_all add: get_nvme_device_info_def get_mmio_bridge_shadow_buffer_def Let_def)

lemma get_dmabuf_phys_addr_InrD:
  assumes "fst (get_dmabuf_phys_addr env fd bdf) = Inr m"
  shows "pm_pdev m = pci_lookup env bdf \<and> pm_pdev m \<noteq> NULL \<and>
    dma_buf_get env fd = Inr (pm_dmabuf m) \<and>
    dma_buf_dynamic_attach env (pm_dmabuf m) (pm_pdev m) = Inr (pm_attach m) \<and>
    dma_buf_map_attachment env (pm_attach m) = Inr (pm_sgt m) \<and>
    pm_size m = dmabuf_size env (pm_dmabuf m) \<and>
    (\<exists>sg. sgt_entries env (pm_sgt m) = [sg] \<and> pm_phys_addr m = sg_dma_address sg)"
  using assms by (auto simp: get_dmabuf_phys_addr_def Let_def split: env_splits)

lemma find_vram_bar_0:
  assumes "pci_resource_flags env g 0 AND IORESOURCE_MEM \<noteq> 0"
    and "pci_resource_flags env g 0 AND IORESOURCE_PREFETCH \<noteq> 0"
  shows "find_vram_bar env g [0..<6] = Some 0"
  using assms by (simp add: upt_rec)

lemma extract_vram_offset_from_sg_found:
  assumes "List.find (in_bar bar_start bar_size) sgt = Some sg"
  shows "extract_vram_offset_from_sg env sgt bar_start bar_size d off = (None, sg_phys sg - bar_start)"
proof -
  from assms obtain sg0 rest where "sgt = sg0 # rest" by (cases sgt) simp_all
  then show ?thesis
    using assms unfolding extract_vram_offset_from_sg_def by (simp del: List.find.simps)
qed

subsection \<open>Properties\<close>

text \<open>Resolving a DMA-BUF to a guest-physical address gives back, on every path, all that
  it took and in the reverse order of taking it.\<close>

theorem get_dmabuf_bar_gpa_balanced:
  "unwind [] (snd (get_dmabuf_bar_gpa env fd)) = Some [] \<and>
   held (snd (get_dmabuf_bar_gpa env fd)) r = 0"
  by (simp add: get_dmabuf_bar_gpa_unwind get_dmabuf_bar_gpa_held)

text \<open>When the GPU has a prefetchable memory BAR 0, the buffer can be attached, pinned and
  mapped, and some segment lies in the BAR, the address returned is the physical address of
  the first such segment, with the size of the DMA-BUF.\<close>

theorem get_dmabuf_bar_gpa_address:
  assumes "dma_buf_get env fd = Inr d" and "pci_get_amd_device env = g" and "g \<noteq> NULL"
    and "dma_buf_dynamic_attach env d g = Inr a" and "dma_buf_pin env a = None"
    and "dma_buf_map_attachment env a = Inr s"
    and "pci_resource_flags env g 0 AND IORESOURCE_MEM \<noteq> 0"
    and "pci_resource_flags env g 0 AND IORESOURCE_PREFETCH \<noteq> 0"
    and "List.find (in_bar (pci_resource_start env g 0) (pci_resource_len env g 0))
           (sgt_entries env s) = Some sg"
  shows "fst (get_dmabuf_bar_gpa env fd) = Inr (sg_phys sg, dmabuf_size env d)"
proof -
  from assms have "bar_gpa_of_sgt env g d s = Inr (sg_phys sg)"
    by (simp add: bar_gpa_of_sgt_def find_vram_bar_0 extract_vram_offset_from_sg_found)
  with assms show ?thesis by (simp add: get_dmabuf_bar_gpa_def)
qed

theorem get_dmabuf_bar_gpa_address_witness:
  "fst (get_dmabuf_bar_gpa sample_env 5) = Inr (0x800040000, 0x10000)"
  using get_dmabuf_bar_gpa_address [of sample_env 5 "0x300" "0x200" "0x400" "0x500"
      "\<lparr>sg_phys = 0x800040000, sg_dma_address = 0x9000, sg_length = 0x10000\<rparr>"]
  by (simp add: IORESOURCE_MEM_def IORESOURCE_PREFETCH_def in_bar_def)

text \<open>C32. Resolving a DMA-BUF for an NVMe device either fails having given back all it took, or
  succeeds for a mapping of exactly one segment, returns that segment's bus address and keeps
  the device, the buffer, the attachment, the pin and the mapping for the caller.\<close>

theorem get_dmabuf_phys_addr_contract:
  "case get_dmabuf_phys_addr env fd bdf of
     (Inl e, cs) \<Rightarrow> unwind [] cs = Some []
   | (Inr m, cs) \<Rightarrow> unwind [] cs = Some (mapping_res m) \<and> pm_pdev m = pci_lookup env bdf \<and>
       pm_pdev m \<noteq> NULL \<and>
       (\<exists>sg. sgt_entries env (pm_sgt m) = [sg] \<and> pm_phys_addr m = sg_dma_address sg)"
proof (cases "get_dmabuf_phys_addr env fd bdf")
  case (Pair r cs)
  then show ?thesis
    using get_dmabuf_phys_addr_unwind [of env fd bdf] get_dmabuf_phys_addr_InrD [of env fd bdf]
    by (auto split: sum.splits)
qed

end
