(* ===== verification/Kernel_Registry.thy ===== *)
theory Kernel_Registry
  imports Kernel_Dmabuf
begin

text \<open>
  The two registration tables of the kernel module (\<^verbatim>\<open>kernel/rocm-xio/rocm-xio.c\<close>): queue
  addresses, which the kprobe injects into CREATE_SQ and CREATE_CQ, and data buffers, which it
  injects into I/O commands. \<^verbatim>\<open>queue_addrs\<close> and \<^verbatim>\<open>vram_buffers\<close> are lists in the order of
  \<^verbatim>\<open>list_add\<close>, newest first. Here are the four lookups, the four registration ioctls, and
  what the release and exit paths do with the tables. The locale \<open>address_table\<close> is what the
  kprobe relies on: a lookup answers from the newest entry that covers the address.
\<close>

subsection \<open>State\<close>

record queue_addr_entry =
  qa_virt_addr :: u64
  qa_phys_addr :: u64
  qa_size :: u64
  qa_queue_type :: u8
  qa_nvme_bdf :: u32
  qa_prp2 :: u64
  qa_owner :: ptr

record vram_buffer_entry =
  vb_virt_addr :: u64
  vb_phys_addr :: u64
  vb_size :: u64
  vb_owner :: ptr
  vb_dmabuf :: ptr
  vb_attach :: ptr
  vb_sgt :: ptr
  vb_nvme_pdev :: ptr
  vb_is_passthrough :: bool

record registry =
  queue_addrs :: "queue_addr_entry list"
  vram_buffers :: "vram_buffer_entry list"

definition empty_registry :: registry where
  "empty_registry = \<lparr>queue_addrs = [], vram_buffers = []\<rparr>"

subsection \<open>Lookups\<close>

text \<open>The range test of every lookup; the end of the range wraps like the source's \<^verbatim>\<open>__u64\<close>.\<close>

definition qa_covers :: "queue_addr_entry \<Rightarrow> u64 \<Rightarrow> bool" where
  "qa_covers e v \<longleftrightarrow> v \<ge> qa_virt_addr e \<and> v < qa_virt_addr e + qa_size e"

definition vb_covers :: "vram_buffer_entry \<Rightarrow> u64 \<Rightarrow> bool" where
  "vb_covers e v \<longleftrightarrow> v \<ge> vb_virt_addr e \<and> v < vb_virt_addr e + vb_size e"

definition lookup_queue_phys_addr :: "queue_addr_entry list \<Rightarrow> u64 \<Rightarrow> u64" where
  "lookup_queue_phys_addr qs v =
     (case List.find (\<lambda>e. qa_covers e v) qs of
        None \<Rightarrow> 0
      | Some e \<Rightarrow> qa_phys_addr e + (v - qa_virt_addr e))"

definition lookup_queue_bdf :: "queue_addr_entry list \<Rightarrow> u64 \<Rightarrow> u32" where
  "lookup_queue_bdf qs v =
     (case List.find (\<lambda>e. qa_covers e v) qs of None \<Rightarrow> 0 | Some e \<Rightarrow> qa_nvme_bdf e)"

definition lookup_queue_prp2 :: "queue_addr_entry list \<Rightarrow> u64 \<Rightarrow> u64" where
  "lookup_queue_prp2 qs v =
     (case List.find (\<lambda>e. qa_covers e v) qs of None \<Rightarrow> 0 | Some e \<Rightarrow> qa_prp2 e)"

definition lookup_buffer_phys_addr :: "kenv \<Rightarrow> vram_buffer_entry list \<Rightarrow> u64 \<Rightarrow> u64" where
  "lookup_buffer_phys_addr env bs v =
     (let phys_addr = (case List.find (\<lambda>e. vb_covers e v) bs of
                         None \<Rightarrow> 0
                       | Some e \<Rightarrow> vb_phys_addr e + (v - vb_virt_addr e))
      in if phys_addr \<noteq> 0 then phys_addr
         else if virt_addr_valid env v then virt_to_phys env v
         else 0)"

subsection \<open>Registration of queue addresses\<close>

text \<open>
  ROCM_XIO_REGISTER_QUEUE_ADDR. The handler assigns six of the seven fields; the owner keeps
  whatever the fresh object held.
\<close>

definition new_queue_addr_entry ::
    "kenv \<Rightarrow> rocm_xio_register_queue_addr_req \<Rightarrow> queue_addr_entry" where
  "new_queue_addr_entry env req =
     \<lparr>qa_virt_addr = rq_virt_addr req, qa_phys_addr = rq_phys_addr req, qa_size = rq_size req,
      qa_queue_type = rq_queue_type req, qa_nvme_bdf = rq_nvme_bdf req, qa_prp2 = rq_prp2 req,
      qa_owner = kmalloc_stale env\<rparr>"

definition ioctl_register_queue_addr ::
    "kenv \<Rightarrow> ptr \<Rightarrow> rocm_xio_register_queue_addr_req \<Rightarrow> registry \<Rightarrow>
     unit kres \<times> registry \<times> kcall list" where
  "ioctl_register_queue_addr env file req st =
     (if \<not> copy_from_user_ok env then (Inl EFAULT, st, [])
      else if \<not> kmalloc_ok env then (Inl ENOMEM, st, [])
      else (Inr (), st\<lparr>queue_addrs := new_queue_addr_entry env req # queue_addrs st\<rparr>,
            [Kmalloc Obj_queue_addr]))"

text \<open>ROCM_XIO_UNREGISTER_QUEUE_ADDR.\<close>

definition ioctl_unregister_queue_addr ::
    "kenv \<Rightarrow> ptr \<Rightarrow> u64 \<Rightarrow> registry \<Rightarrow> unit kres \<times> registry \<times> kcall list" where
  "ioctl_unregister_queue_addr env file virt_addr st =
     (if \<not> copy_from_user_ok env then (Inl EFAULT, st, [])
      else (case unlink_first (\<lambda>e. qa_virt_addr e = virt_addr \<and> qa_owner e = file) (queue_addrs st) of
              None \<Rightarrow> (Inl ENOENT, st, [])
            | Some (e, qs) \<Rightarrow> (Inr (), st\<lparr>queue_addrs := qs\<rparr>, [Kfree Obj_queue_addr])))"

subsection \<open>Registration of data buffers\<close>

text \<open>The guarded cleanup that four places of the source repeat.\<close>

definition put_attachment :: "vram_buffer_entry \<Rightarrow> kcall list" where
  "put_attachment e =
     (if vb_is_passthrough e \<and> vb_sgt e \<noteq> NULL \<and> vb_attach e \<noteq> NULL \<and> vb_dmabuf e \<noteq> NULL
      then [Dma_buf_unmap (vb_attach e) (vb_sgt e), Dma_buf_unpin (vb_attach e),
            Dma_buf_detach (vb_dmabuf e) (vb_attach e), Dma_buf_put (vb_dmabuf e)] @
           (if vb_nvme_pdev e \<noteq> NULL then [Pci_dev_put (vb_nvme_pdev e)] else [])
      else [])"

text \<open>
  ROCM_XIO_REGISTER_BUFFER: the address is resolved first, then the entry is allocated and
  linked, then the reply is copied out; a failed copy unlinks the entry again. On success the
  reply carries the address and the size of the DMA-BUF.
\<close>

definition resolve_buffer ::
    "kenv \<Rightarrow> rocm_xio_register_buffer_req \<Rightarrow> bool \<Rightarrow> p2p_mapping kres \<times> kcall list" where
  "resolve_buffer env req is_emulated =
     (if is_emulated
      then (case get_dmabuf_bar_gpa env (rb_dmabuf_fd req) of
              (Inl e, cs) \<Rightarrow> (Inl e, cs)
            | (Inr (gpa, len), cs) \<Rightarrow>
                (Inr \<lparr>pm_phys_addr = gpa, pm_size = len, pm_dmabuf = NULL, pm_attach = NULL,
                      pm_sgt = NULL, pm_pdev = NULL\<rparr>, cs))
      else get_dmabuf_phys_addr env (rb_dmabuf_fd req) (rb_nvme_bdf req))"

definition new_vram_buffer_entry ::
    "ptr \<Rightarrow> rocm_xio_register_buffer_req \<Rightarrow> bool \<Rightarrow> p2p_mapping \<Rightarrow> vram_buffer_entry" where
  "new_vram_buffer_entry file req is_emulated m =
     \<lparr>vb_virt_addr = rb_virt_addr req, vb_phys_addr = pm_phys_addr m, vb_size = pm_size m,
      vb_owner = file,
      vb_dmabuf = (if is_emulated then NULL else pm_dmabuf m),
      vb_attach = (if is_emulated then NULL else pm_attach m),
      vb_sgt = (if is_emulated then NULL else pm_sgt m),
      vb_nvme_pdev = (if is_emulated then NULL else pm_pdev m),
      vb_is_passthrough = (\<not> is_emulated)\<rparr>"

definition ioctl_register_buffer ::
    "kenv \<Rightarrow> ptr \<Rightarrow> rocm_xio_register_buffer_req \<Rightarrow> registry \<Rightarrow>
     rocm_xio_register_buffer_req kres \<times> registry \<times> kcall list" where
  "ioctl_register_buffer env file req st =
     (if \<not> copy_from_user_ok env then (Inl EFAULT, st, [])
      else (let is_emulated = (rb_flags req AND ROCM_XIO_FLAG_EMULATED \<noteq> 0)
            in case resolve_buffer env req is_emulated of
                 (Inl e, cs) \<Rightarrow> (Inl e, st, cs)
               | (Inr m, cs) \<Rightarrow>
                  (let entry = new_vram_buffer_entry file req is_emulated m
                   in if \<not> kmalloc_ok env then (Inl ENOMEM, st, cs @ put_attachment entry)
                      else if \<not> copy_to_user_ok env
                      then (Inl EFAULT, st,
                            cs @ [Kmalloc Obj_vram_buffer] @ put_attachment entry @
                            [Kfree Obj_vram_buffer])
                      else (Inr (req\<lparr>rb_phys_addr := pm_phys_addr m, rb_size := pm_size m\<rparr>),
                            st\<lparr>vram_buffers := entry # vram_buffers st\<rparr>,
                            cs @ [Kmalloc Obj_vram_buffer]))))"

text \<open>ROCM_XIO_UNREGISTER_BUFFER.\<close>

definition ioctl_unregister_buffer ::
    "kenv \<Rightarrow> ptr \<Rightarrow> u64 \<Rightarrow> registry \<Rightarrow> unit kres \<times> registry \<times> kcall list" where
  "ioctl_unregister_buffer env file virt_addr st =
     (if \<not> copy_from_user_ok env then (Inl EFAULT, st, [])
      else (case unlink_first (\<lambda>e. vb_virt_addr e = virt_addr \<and> vb_owner e = file) (vram_buffers st) of
              None \<Rightarrow> (Inl ENOENT, st, [])
            | Some (e, bs) \<Rightarrow> (Inr (), st\<lparr>vram_buffers := bs\<rparr>,
                               put_attachment e @ [Kfree Obj_vram_buffer])))"

subsection \<open>Release and exit\<close>

text \<open>
  Closing a file: its entries are unlinked under the lock, which reverses them, then freed.
\<close>

definition release_queue_addrs :: "ptr \<Rightarrow> registry \<Rightarrow> registry \<times> kcall list" where
  "release_queue_addrs file st =
     (st\<lparr>queue_addrs := filter (\<lambda>e. qa_owner e \<noteq> file) (queue_addrs st)\<rparr>,
      map (\<lambda>e. Kfree Obj_queue_addr) (rev (filter (\<lambda>e. qa_owner e = file) (queue_addrs st))))"

definition release_buffers :: "ptr \<Rightarrow> registry \<Rightarrow> registry \<times> kcall list" where
  "release_buffers file st =
     (st\<lparr>vram_buffers := filter (\<lambda>e. vb_owner e \<noteq> file) (vram_buffers st)\<rparr>,
      concat (map (\<lambda>e. put_attachment e @ [Kfree Obj_vram_buffer])
        (rev (filter (\<lambda>e. vb_owner e = file) (vram_buffers st)))))"

definition release_registry :: "ptr \<Rightarrow> registry \<Rightarrow> registry \<times> kcall list" where
  "release_registry file st =
     (case release_queue_addrs file st of
        (st', cs) \<Rightarrow> (case release_buffers file st' of (st'', ds) \<Rightarrow> (st'', cs @ ds)))"

definition exit_registry :: "registry \<Rightarrow> registry \<times> kcall list" where
  "exit_registry st =
     (empty_registry,
      map (\<lambda>e. Kfree Obj_queue_addr) (queue_addrs st) @
      concat (map (\<lambda>e. put_attachment e @ [Kfree Obj_vram_buffer]) (vram_buffers st)))"

subsection \<open>What the tables own\<close>

definition attachment_res :: "vram_buffer_entry \<Rightarrow> res list" where
  "attachment_res e =
     (if vb_is_passthrough e \<and> vb_sgt e \<noteq> NULL \<and> vb_attach e \<noteq> NULL \<and> vb_dmabuf e \<noteq> NULL
      then [RMap (vb_attach e) (vb_sgt e), RPin (vb_attach e), RAttach (vb_dmabuf e) (vb_attach e),
            RDmabuf (vb_dmabuf e)] @ (if vb_nvme_pdev e \<noteq> NULL then [RPci (vb_nvme_pdev e)] else [])
      else [])"

definition registry_owned :: "registry \<Rightarrow> res \<Rightarrow> int" where
  "registry_owned st r =
     sum_list (map (\<lambda>e. res_count (RMem Obj_queue_addr) r) (queue_addrs st)) +
     sum_list (map (\<lambda>e. res_counts (attachment_res e) r + res_count (RMem Obj_vram_buffer) r)
       (vram_buffers st))"

text \<open>
  The kernel's documented promise about pointers: a DMA-BUF function that does not return an
  error returns an object, not the null pointer.
\<close>

definition dmabuf_ptrs_valid :: "kenv \<Rightarrow> bool" where
  "dmabuf_ptrs_valid env \<longleftrightarrow>
     (\<forall>fd d. dma_buf_get env fd = Inr d \<longrightarrow> d \<noteq> NULL) \<and>
     (\<forall>d p a. dma_buf_dynamic_attach env d p = Inr a \<longrightarrow> a \<noteq> NULL) \<and>
     (\<forall>a s. dma_buf_map_attachment env a = Inr s \<longrightarrow> s \<noteq> NULL)"

inductive registry_step :: "registry \<Rightarrow> kcall list \<Rightarrow> registry \<Rightarrow> bool" where
  reg_queue: "ioctl_register_queue_addr env file qreq st = (ret, st', cs) \<Longrightarrow> registry_step st cs st'"
| unreg_queue: "ioctl_unregister_queue_addr env file v st = (ret, st', cs) \<Longrightarrow> registry_step st cs st'"
| reg_buffer: "dmabuf_ptrs_valid env \<Longrightarrow> ioctl_register_buffer env file breq st = (bret, st', cs) \<Longrightarrow>
    registry_step st cs st'"
| unreg_buffer: "ioctl_unregister_buffer env file v st = (ret, st', cs) \<Longrightarrow> registry_step st cs st'"
| close_file: "release_registry file st = (st', cs) \<Longrightarrow> registry_step st cs st'"
| unload: "exit_registry st = (st', cs) \<Longrightarrow> registry_step st cs st'"

subsection \<open>The interface of a table\<close>

locale address_table =
  fixes lookup :: "'t \<Rightarrow> u64 \<Rightarrow> 'v::zero"
    and add_entry :: "'e \<Rightarrow> 't \<Rightarrow> 't"
    and covers :: "'e \<Rightarrow> u64 \<Rightarrow> bool"
    and answer :: "'e \<Rightarrow> u64 \<Rightarrow> 'v"
  assumes lookup_hit: "covers e v \<Longrightarrow> answer e v \<noteq> 0 \<Longrightarrow> lookup (add_entry e t) v = answer e v"
    and lookup_miss: "\<not> covers e v \<Longrightarrow> lookup (add_entry e t) v = lookup t v"
begin

text \<open>Entries registered later that do not cover an address do not change its answer.\<close>

lemma lookup_inserts_miss:
  "\<forall>e\<in>set es. \<not> covers e v \<Longrightarrow> lookup (foldr add_entry es t) v = lookup t v"
  by (induction es) (simp_all add: lookup_miss)

text \<open>The newest entry that covers an address answers for it.\<close>

lemma lookup_newest:
  assumes "covers e v" and "answer e v \<noteq> 0" and "\<forall>d\<in>set newer. \<not> covers d v"
  shows "lookup (foldr add_entry newer (add_entry e t)) v = answer e v"
  using assms by (simp add: lookup_inserts_miss lookup_hit)

text \<open>
  With a single entry covering an address the order of registration does not matter.
\<close>

lemma lookup_unique:
  "e \<in> set es \<Longrightarrow> covers e v \<Longrightarrow> answer e v \<noteq> 0 \<Longrightarrow>
     list_all (\<lambda>d. d = e \<or> \<not> covers d v) es \<Longrightarrow> lookup (foldr add_entry es t) v = answer e v"
proof (induction es)
  case Nil
  then show ?case by simp
next
  case (Cons a es)
  show ?case
  proof (cases "a = e")
    case True
    with Cons.prems(2,3) show ?thesis by (simp add: lookup_hit)
  next
    case False
    with Cons.prems(1,4) have "e \<in> set es" "\<not> covers a v" "list_all (\<lambda>d. d = e \<or> \<not> covers d v) es"
      by simp_all
    with Cons.IH Cons.prems(2,3) show ?thesis by (simp add: lookup_miss)
  qed
qed

end

interpretation qphys: address_table lookup_queue_phys_addr Cons qa_covers
  "\<lambda>e v. qa_phys_addr e + (v - qa_virt_addr e)"
  by unfold_locales (simp_all add: lookup_queue_phys_addr_def)

interpretation qbdf: address_table lookup_queue_bdf Cons qa_covers "\<lambda>e v. qa_nvme_bdf e"
  by unfold_locales (simp_all add: lookup_queue_bdf_def)

interpretation qprp2: address_table lookup_queue_prp2 Cons qa_covers "\<lambda>e v. qa_prp2 e"
  by unfold_locales (simp_all add: lookup_queue_prp2_def)

interpretation bphys: address_table "lookup_buffer_phys_addr env" Cons vb_covers
  "\<lambda>e v. vb_phys_addr e + (v - vb_virt_addr e)" for env
  by unfold_locales (simp_all add: lookup_buffer_phys_addr_def)

lemma foldr_Cons_id [simp]: "foldr (#) xs ys = xs @ ys"
  by (induction xs) simp_all

subsection \<open>Accounting\<close>

lemma put_attachment_held: "held (put_attachment e) r = - res_counts (attachment_res e) r"
  by (simp add: put_attachment_def attachment_res_def)

lemma held_kfree_map:
  "held (map (\<lambda>e. Kfree k) xs) r = - sum_list (map (\<lambda>e. res_count (RMem k) r) xs)"
  by (induction xs) simp_all

lemma held_put_buffers:
  "held (concat (map (\<lambda>e. put_attachment e @ [Kfree Obj_vram_buffer]) bs)) r =
     - sum_list (map (\<lambda>e. res_counts (attachment_res e) r + res_count (RMem Obj_vram_buffer) r) bs)"
  by (induction bs) (simp_all add: put_attachment_held)

lemma resolve_buffer_held:
  assumes "resolve_buffer env req em = (ret, cs)" and "dmabuf_ptrs_valid env"
  shows "held cs r = (case ret of Inl _ \<Rightarrow> 0
     | Inr m \<Rightarrow> res_counts (attachment_res (new_vram_buffer_entry f req em m)) r)"
proof (cases em)
  case True
  with assms(1) get_dmabuf_bar_gpa_held [of env "rb_dmabuf_fd req" r] show ?thesis
    by (auto simp: resolve_buffer_def attachment_res_def new_vram_buffer_entry_def
        split: prod.splits sum.splits)
next
  case False
  with assms(1) have eq: "get_dmabuf_phys_addr env (rb_dmabuf_fd req) (rb_nvme_bdf req) = (ret, cs)"
    by (simp add: resolve_buffer_def)
  show ?thesis
  proof (cases ret)
    case (Inl e)
    with eq get_dmabuf_phys_addr_held [of env "rb_dmabuf_fd req" "rb_nvme_bdf req" r]
    show ?thesis by simp
  next
    case (Inr m)
    with eq get_dmabuf_phys_addr_InrD [of env "rb_dmabuf_fd req" "rb_nvme_bdf req" m] assms(2)
    have "pm_dmabuf m \<noteq> NULL" "pm_attach m \<noteq> NULL" "pm_sgt m \<noteq> NULL" "pm_pdev m \<noteq> NULL"
      unfolding dmabuf_ptrs_valid_def by (metis fst_conv)+
    with False Inr eq get_dmabuf_phys_addr_held [of env "rb_dmabuf_fd req" "rb_nvme_bdf req" r]
    show ?thesis by (simp add: mapping_res_def attachment_res_def new_vram_buffer_entry_def)
  qed
qed

lemma release_registry_simps:
  "release_registry file st =
     (st\<lparr>queue_addrs := filter (\<lambda>e. qa_owner e \<noteq> file) (queue_addrs st),
         vram_buffers := filter (\<lambda>e. vb_owner e \<noteq> file) (vram_buffers st)\<rparr>,
      map (\<lambda>e. Kfree Obj_queue_addr) (rev (filter (\<lambda>e. qa_owner e = file) (queue_addrs st))) @
      concat (map (\<lambda>e. put_attachment e @ [Kfree Obj_vram_buffer])
        (rev (filter (\<lambda>e. vb_owner e = file) (vram_buffers st)))))"
  by (simp add: release_registry_def release_queue_addrs_def release_buffers_def)

lemma registry_owned_empty [simp]: "registry_owned empty_registry r = 0"
  by (simp add: registry_owned_def empty_registry_def)

lemma register_queue_addr_held:
  "ioctl_register_queue_addr env file req st = (ret, st', cs) \<Longrightarrow>
     held cs r = registry_owned st' r - registry_owned st r"
  by (auto simp: ioctl_register_queue_addr_def registry_owned_def split: if_splits)

lemma unregister_queue_addr_held:
  "ioctl_unregister_queue_addr env file v st = (ret, st', cs) \<Longrightarrow>
     held cs r = registry_owned st' r - registry_owned st r"
  by (auto simp: ioctl_unregister_queue_addr_def registry_owned_def
      dest!: unlink_first_sum_list [where f = "\<lambda>e. res_count (RMem Obj_queue_addr) r"]
      split: if_splits option.splits)

lemma register_buffer_held:
  assumes "ioctl_register_buffer env file req st = (ret, st', cs)" and "dmabuf_ptrs_valid env"
  shows "held cs r = registry_owned st' r - registry_owned st r"
proof -
  define em where "em \<longleftrightarrow> rb_flags req AND ROCM_XIO_FLAG_EMULATED \<noteq> 0"
  obtain res ds where eq: "resolve_buffer env req em = (res, ds)" by fastforce
  note h = resolve_buffer_held [OF eq assms(2), where r = r and f = "file"]
  show ?thesis
    using assms(1) eq h
    by (cases res) (auto simp: ioctl_register_buffer_def em_def [symmetric] registry_owned_def Let_def
        put_attachment_held split: if_splits)
qed

lemma unregister_buffer_held:
  "ioctl_unregister_buffer env file v st = (ret, st', cs) \<Longrightarrow>
     held cs r = registry_owned st' r - registry_owned st r"
  by (auto simp: ioctl_unregister_buffer_def registry_owned_def put_attachment_held
      dest!: unlink_first_sum_list [where f =
        "\<lambda>e. res_counts (attachment_res e) r + res_count (RMem Obj_vram_buffer) r"]
      split: if_splits option.splits)

lemma release_registry_held:
  assumes "release_registry file st = (st', cs)"
  shows "held cs r = registry_owned st' r - registry_owned st r"
proof -
  note part = sum_list_filter_partition [where f = "\<lambda>e. res_count (RMem Obj_queue_addr) r" and
      P = "\<lambda>e. qa_owner e = file" and xs = "queue_addrs st"]
    sum_list_filter_partition [where f =
      "\<lambda>e. res_counts (attachment_res e) r + res_count (RMem Obj_vram_buffer) r" and
      P = "\<lambda>e. vb_owner e = file" and xs = "vram_buffers st"]
  from assms part show ?thesis
    by (auto simp: release_registry_simps registry_owned_def held_kfree_map held_put_buffers
        sum_list_map_rev simp del: map_replicate_const)
qed

lemma exit_registry_held:
  "exit_registry st = (st', cs) \<Longrightarrow> held cs r = registry_owned st' r - registry_owned st r"
  by (auto simp: exit_registry_def held_kfree_map held_put_buffers registry_owned_def
      empty_registry_def)

lemmas registry_held = register_queue_addr_held unregister_queue_addr_held register_buffer_held
  unregister_buffer_held release_registry_held exit_registry_held

interpretation reg: resource_accounting registry_step "\<lambda>_. True" registry_owned
  by unfold_locales (auto elim!: registry_step.cases intro: registry_held)

subsection \<open>Properties\<close>

text \<open>C29. A queue registration that succeeds answers at once for every address of its range:
  the kprobe then sees the registered physical address plus the offset, the registered PRP2
  and the registered device, whatever was registered before; and no other address changes its
  answer.\<close>

theorem register_queue_addr_lookup:
  assumes "ioctl_register_queue_addr env file req st = (Inr (), st', cs)"
  shows "if rq_virt_addr req \<le> v \<and> v < rq_virt_addr req + rq_size req
    then lookup_queue_phys_addr (queue_addrs st') v = rq_phys_addr req + (v - rq_virt_addr req) \<and>
         lookup_queue_prp2 (queue_addrs st') v = rq_prp2 req \<and>
         lookup_queue_bdf (queue_addrs st') v = rq_nvme_bdf req
    else lookup_queue_phys_addr (queue_addrs st') v = lookup_queue_phys_addr (queue_addrs st) v \<and>
         lookup_queue_prp2 (queue_addrs st') v = lookup_queue_prp2 (queue_addrs st) v \<and>
         lookup_queue_bdf (queue_addrs st') v = lookup_queue_bdf (queue_addrs st) v"
  using assms
  by (auto simp: ioctl_register_queue_addr_def new_queue_addr_entry_def lookup_queue_phys_addr_def
      lookup_queue_prp2_def lookup_queue_bdf_def qa_covers_def split: if_splits)

theorem register_queue_addr_lookup_witness:
  "lookup_queue_phys_addr
     (queue_addrs (fst (snd (ioctl_register_queue_addr sample_env 0x50
        \<lparr>rq_virt_addr = 0x7000, rq_phys_addr = 0x9000, rq_size = 0x1000, rq_prp2 = 0xC000,
         rq_nvme_bdf = 0x8500, rq_queue_type = 0\<rparr> empty_registry)))) 0x7010 = 0x9010"
  using register_queue_addr_lookup [of sample_env "0x50"
      "\<lparr>rq_virt_addr = 0x7000, rq_phys_addr = 0x9000, rq_size = 0x1000, rq_prp2 = 0xC000,
        rq_nvme_bdf = 0x8500, rq_queue_type = 0\<rparr>" empty_registry _ _ "0x7010"]
  by (simp add: ioctl_register_queue_addr_def)

text \<open>A buffer registration that succeeds reports the address and the size that the lookup
  of the kprobe uses from then on, and links one entry owned by the calling file.\<close>

theorem register_buffer_lookup:
  assumes "ioctl_register_buffer env file req st = (Inr rep, st', cs)"
  shows "(\<exists>e. vram_buffers st' = e # vram_buffers st \<and> vb_owner e = file) \<and>
    queue_addrs st' = queue_addrs st \<and>
    (\<forall>v env'. rb_virt_addr req \<le> v \<longrightarrow> v < rb_virt_addr req + rb_size rep \<longrightarrow>
      rb_phys_addr rep + (v - rb_virt_addr req) \<noteq> 0 \<longrightarrow>
      lookup_buffer_phys_addr env' (vram_buffers st') v = rb_phys_addr rep + (v - rb_virt_addr req))"
proof -
  define em where "em \<longleftrightarrow> rb_flags req AND ROCM_XIO_FLAG_EMULATED \<noteq> 0"
  from assms obtain m ds where "resolve_buffer env req em = (Inr m, ds)"
    and rep: "rep = req\<lparr>rb_phys_addr := pm_phys_addr m, rb_size := pm_size m\<rparr>"
    and st': "st' = st\<lparr>vram_buffers := new_vram_buffer_entry file req em m # vram_buffers st\<rparr>"
    by (auto simp: ioctl_register_buffer_def em_def [symmetric] Let_def split: if_splits sum.splits
        prod.splits)
  let ?e = "new_vram_buffer_entry file req em m"
  have "lookup_buffer_phys_addr env' (?e # vram_buffers st) v =
      vb_phys_addr ?e + (v - vb_virt_addr ?e)"
    if "rb_virt_addr req \<le> v" "v < rb_virt_addr req + rb_size rep"
      "rb_phys_addr rep + (v - rb_virt_addr req) \<noteq> 0" for v env'
    using that rep by (intro bphys.lookup_hit) (simp_all add: vb_covers_def new_vram_buffer_entry_def)
  with rep st' show ?thesis by (simp add: new_vram_buffer_entry_def)
qed

text \<open>Unregistering a buffer removes exactly the newest entry with that address that the
  calling file registered, giving back its attachment, and fails with \<open>ENOENT\<close> without any
  effect when the file has no such entry, whatever other files have registered.\<close>

theorem unregister_buffer_exact:
  assumes "copy_from_user_ok env"
  shows "case List.find (\<lambda>e. vb_virt_addr e = v \<and> vb_owner e = file) (vram_buffers st) of
      None \<Rightarrow> ioctl_unregister_buffer env file v st = (Inl ENOENT, st, [])
    | Some e \<Rightarrow> (\<exists>us vs. vram_buffers st = us @ e # vs \<and>
        (\<forall>u\<in>set us. \<not> (vb_virt_addr u = v \<and> vb_owner u = file)) \<and>
        ioctl_unregister_buffer env file v st =
          (Inr (), st\<lparr>vram_buffers := us @ vs\<rparr>, put_attachment e @ [Kfree Obj_vram_buffer]))"
proof (cases "unlink_first (\<lambda>e. vb_virt_addr e = v \<and> vb_owner e = file) (vram_buffers st)")
  case None
  then have none: "List.find (\<lambda>e. vb_virt_addr e = v \<and> vb_owner e = file) (vram_buffers st) = None"
    by (simp add: unlink_first_None_iff)
  from None assms show ?thesis unfolding none by (simp add: ioctl_unregister_buffer_def)
next
  case (Some p)
  obtain e bs where p: "p = (e, bs)" by fastforce
  note un = Some [unfolded p]
  from unlink_first_Some [OF un] obtain us vs where
    "vram_buffers st = us @ e # vs" "bs = us @ vs"
    "\<forall>u\<in>set us. \<not> (vb_virt_addr u = v \<and> vb_owner u = file)" by blast
  moreover have "List.find (\<lambda>e. vb_virt_addr e = v \<and> vb_owner e = file) (vram_buffers st) = Some e"
    by (rule unlink_first_find [OF un])
  ultimately show ?thesis
    using un assms unfolding ioctl_unregister_buffer_def by fastforce
qed

text \<open>The registration of a queue address does not record its owner. Unless the fresh object
  happens to hold the address of the calling file, the file cannot unregister what it has just
  registered, closing the file leaves the entry in the table, and the kprobe keeps answering
  from it.\<close>

theorem register_queue_addr_owner_unset:
  assumes "ioctl_register_queue_addr env file req empty_registry = (Inr (), st, cs)"
    and "kmalloc_stale env \<noteq> file"
  shows "fst (ioctl_unregister_queue_addr env file (rq_virt_addr req) st) = Inl ENOENT \<and>
    queue_addrs (fst (release_registry file st)) = queue_addrs st \<and>
    (\<forall>v. rq_virt_addr req \<le> v \<longrightarrow> v < rq_virt_addr req + rq_size req \<longrightarrow>
       lookup_queue_phys_addr (queue_addrs (fst (release_registry file st))) v =
         rq_phys_addr req + (v - rq_virt_addr req))"
  using assms
  by (auto simp: ioctl_register_queue_addr_def ioctl_unregister_queue_addr_def
      release_registry_simps empty_registry_def new_queue_addr_entry_def lookup_queue_phys_addr_def
      qa_covers_def split: if_splits)

theorem register_queue_addr_owner_unset_witness:
  "fst (ioctl_unregister_queue_addr sample_env 0x50 0x7000
     (fst (snd (ioctl_register_queue_addr sample_env 0x50
        \<lparr>rq_virt_addr = 0x7000, rq_phys_addr = 0x9000, rq_size = 0x1000, rq_prp2 = 0,
         rq_nvme_bdf = 0x8500, rq_queue_type = 0\<rparr> empty_registry)))) = Inl ENOENT"
  using register_queue_addr_owner_unset [of sample_env "0x50"
      "\<lparr>rq_virt_addr = 0x7000, rq_phys_addr = 0x9000, rq_size = 0x1000, rq_prp2 = 0,
        rq_nvme_bdf = 0x8500, rq_queue_type = 0\<rparr>"]
  by (simp add: ioctl_register_queue_addr_def)

theorem unregister_buffer_exact_witness:
  "ioctl_unregister_buffer sample_env 0x50 0x7000
     (empty_registry\<lparr>vram_buffers := [\<lparr>vb_virt_addr = 0x7000, vb_phys_addr = 0x9000, vb_size = 0x1000,
        vb_owner = 0x60, vb_dmabuf = NULL, vb_attach = NULL, vb_sgt = NULL, vb_nvme_pdev = NULL,
        vb_is_passthrough = False\<rparr>]\<rparr>) =
   (Inl ENOENT,
     empty_registry\<lparr>vram_buffers := [\<lparr>vb_virt_addr = 0x7000, vb_phys_addr = 0x9000, vb_size = 0x1000,
        vb_owner = 0x60, vb_dmabuf = NULL, vb_attach = NULL, vb_sgt = NULL, vb_nvme_pdev = NULL,
        vb_is_passthrough = False\<rparr>]\<rparr>, [])"
  using unregister_buffer_exact [of sample_env "0x50" "0x7000"
      "empty_registry\<lparr>vram_buffers := [\<lparr>vb_virt_addr = 0x7000, vb_phys_addr = 0x9000, vb_size = 0x1000,
        vb_owner = 0x60, vb_dmabuf = NULL, vb_attach = NULL, vb_sgt = NULL, vb_nvme_pdev = NULL,
        vb_is_passthrough = False\<rparr>]\<rparr>"]
  by simp

theorem register_buffer_lookup_witness:
  "lookup_buffer_phys_addr sample_env
     (vram_buffers (fst (snd (ioctl_register_buffer sample_env 0x50
        \<lparr>rb_dmabuf_fd = 5, rb_virt_addr = 0x7000, rb_phys_addr = 0, rb_size = 0,
         rb_nvme_bdf = 0x8500, rb_flags = 2\<rparr> empty_registry)))) 0x7010 = 0x9010"
  using register_buffer_lookup [of sample_env "0x50"
      "\<lparr>rb_dmabuf_fd = 5, rb_virt_addr = 0x7000, rb_phys_addr = 0, rb_size = 0,
         rb_nvme_bdf = 0x8500, rb_flags = 2\<rparr>" empty_registry
      "\<lparr>rb_dmabuf_fd = 5, rb_virt_addr = 0x7000, rb_phys_addr = 0x9000, rb_size = 0x10000,
         rb_nvme_bdf = 0x8500, rb_flags = 2\<rparr>"]
  by (simp add: ioctl_register_buffer_def resolve_buffer_def get_dmabuf_phys_addr_def
      pci_lookup_def ROCM_XIO_FLAG_EMULATED_def)

end
