(* ===== verification/Kernel_Snapshot.thy ===== *)
theory Kernel_Snapshot
  imports Kernel_Env
begin

text \<open>
  Snapshots of the kernel's NVMe queues (\<^verbatim>\<open>kernel/rocm-xio/rocm-xio.c\<close>): the two kretprobes read
  a queue when the NVMe driver has allocated or created it and leave a pending capture; a worker
  resolves the PCI device and stores the snapshot, which the resurrection looks up later by
  device and queue id. The locale \<open>keyed_store\<close> is what the worker and the resurrection rely on.
\<close>

subsection \<open>The NVMe driver's objects\<close>

text \<open>
  The fields the module reads or writes of the driver's private queue, as mirrored by
  \<^verbatim>\<open>struct rocm_xio_nvmeq_layout\<close>. Locks, descriptor pools and the doorbell pointer are not read.
\<close>

record nvmeq_layout =
  nq_dev :: ptr
  nq_cqes :: ptr
  nq_sq_dma_addr :: u64
  nq_cq_dma_addr :: u64
  nq_q_depth :: u32
  nq_cq_vector :: u16
  nq_sq_tail :: u16
  nq_last_sq_tail :: u16
  nq_cq_head :: u16
  nq_qid :: u16
  nq_cq_phase :: u8
  nq_flags :: u64

text \<open>
  The memory of the NVMe driver: the queue array of a device, its admin request queue (read at
  a fixed offset), the queue object at an address, and the bytes of a completion ring.
  \<open>verified_layout\<close> is the compile-time test for a kernel in the verified version range and
  \<open>config_x86_64\<close> the one for the architecture; \<open>sizeof_nvmeq_layout\<close> is the size of the mirror.
\<close>

record nvme_host =
  nh_queues :: "ptr \<Rightarrow> ptr"
  nh_admin_q :: "ptr \<Rightarrow> ptr"
  nh_nvmeq :: "ptr \<Rightarrow> nvmeq_layout"
  nh_cqe_mem :: "ptr \<Rightarrow> nat \<Rightarrow> u8"
  verified_layout :: bool
  config_x86_64 :: bool
  sizeof_nvmeq_layout :: u64

definition ROCM_XIO_NVMEQ_POLLED :: nat where
  "ROCM_XIO_NVMEQ_POLLED = 3"

subsection \<open>State\<close>

record nvme_queue_snapshot =
  sn_pdev :: ptr
  sn_qid :: u16
  sn_sq_dma_addr :: u64
  sn_cq_dma_addr :: u64
  sn_q_depth :: u32
  sn_cq_vector :: u16
  sn_polled :: bool
  sn_admin_q :: ptr
  sn_dev :: ptr

record pending_snapshot_entry =
  ps_nvme_dev :: ptr
  ps_qid :: u16
  ps_sq_dma_addr :: u64
  ps_cq_dma_addr :: u64
  ps_q_depth :: u32
  ps_cq_vector :: u16
  ps_polled :: bool
  ps_admin_q :: ptr

record alloc_queue_ctx =
  cx_nvme_dev :: ptr
  cx_nvmeq :: ptr
  cx_qid :: int

record snapshot_state =
  nvme_queue_snapshots :: "nvme_queue_snapshot list"
  pending_snapshots :: "pending_snapshot_entry list"

definition snapshot_init :: snapshot_state where
  "snapshot_init = \<lparr>nvme_queue_snapshots = [], pending_snapshots = []\<rparr>"

subsection \<open>The snapshot table\<close>

definition snapshot_key :: "nvme_queue_snapshot \<Rightarrow> ptr \<times> u16" where
  "snapshot_key s = (sn_pdev s, sn_qid s)"

text \<open>
  Storing: the new object is filled and takes its device reference before the lock; an existing
  entry is updated in place and the new object is dropped again.
\<close>

definition snapshot_put :: "nvme_queue_snapshot \<Rightarrow> nvme_queue_snapshot list \<Rightarrow> nvme_queue_snapshot list" where
  "snapshot_put snap ss =
     (case update_first (\<lambda>s. snapshot_key s = snapshot_key snap)
        (\<lambda>s. s\<lparr>sn_sq_dma_addr := sn_sq_dma_addr snap, sn_cq_dma_addr := sn_cq_dma_addr snap,
              sn_q_depth := sn_q_depth snap, sn_cq_vector := sn_cq_vector snap,
              sn_polled := sn_polled snap, sn_admin_q := sn_admin_q snap, sn_dev := sn_dev snap\<rparr>) ss of
        (ss', True) \<Rightarrow> ss'
      | (_, False) \<Rightarrow> snap # ss)"

definition nvme_queue_snapshot_store ::
    "bool \<Rightarrow> nvme_queue_snapshot \<Rightarrow> nvme_queue_snapshot list \<Rightarrow> nvme_queue_snapshot list \<times> kcall list" where
  "nvme_queue_snapshot_store kmalloc_succeeds snap ss =
     (if \<not> kmalloc_succeeds then (ss, [])
      else if \<exists>s\<in>set ss. snapshot_key s = snapshot_key snap
      then (snapshot_put snap ss,
            [Kmalloc Obj_snapshot, Pci_get (sn_pdev snap), Pci_dev_put (sn_pdev snap),
             Kfree Obj_snapshot])
      else (snapshot_put snap ss, [Kmalloc Obj_snapshot, Pci_get (sn_pdev snap)]))"

definition nvme_queue_snapshot_lookup ::
    "nvme_queue_snapshot list \<Rightarrow> ptr \<Rightarrow> u16 \<Rightarrow> nvme_queue_snapshot option" where
  "nvme_queue_snapshot_lookup ss pdev qid = List.find (\<lambda>s. sn_pdev s = pdev \<and> sn_qid s = qid) ss"

definition nvme_queue_snapshots_free_all ::
    "nvme_queue_snapshot list \<Rightarrow> nvme_queue_snapshot list \<times> kcall list" where
  "nvme_queue_snapshots_free_all ss =
     ([], concat (map (\<lambda>s. [Pci_dev_put (sn_pdev s), Kfree Obj_snapshot]) (rev ss)))"

subsection \<open>The kretprobes\<close>

text \<open>The entry handlers keep the first two argument registers; the second is cut to an \<^verbatim>\<open>int\<close>.\<close>

definition nvme_alloc_queue_entry_handler :: "nvme_host \<Rightarrow> u64 \<Rightarrow> u64 \<Rightarrow> alloc_queue_ctx" where
  "nvme_alloc_queue_entry_handler host di si =
     (if config_x86_64 host
      then \<lparr>cx_nvme_dev = di, cx_nvmeq = NULL, cx_qid = sint (ucast si :: u32)\<rparr>
      else \<lparr>cx_nvme_dev = NULL, cx_nvmeq = NULL, cx_qid = - 1\<rparr>)"

definition nvme_create_queue_entry_handler :: "nvme_host \<Rightarrow> u64 \<Rightarrow> u64 \<Rightarrow> alloc_queue_ctx" where
  "nvme_create_queue_entry_handler host di si =
     (if config_x86_64 host
      then \<lparr>cx_nvme_dev = NULL, cx_nvmeq = di, cx_qid = sint (ucast si :: u32)\<rparr>
      else \<lparr>cx_nvme_dev = NULL, cx_nvmeq = NULL, cx_qid = - 1\<rparr>)"

definition nvmeq_stride :: "nvme_host \<Rightarrow> u64" where
  "nvmeq_stride host = (if verified_layout host then 192 else sizeof_nvmeq_layout host)"

definition capture :: "nvme_host \<Rightarrow> ptr \<Rightarrow> int \<Rightarrow> nvmeq_layout \<Rightarrow> pending_snapshot_entry" where
  "capture host nvme_dev qid nvmeq =
     \<lparr>ps_nvme_dev = nvme_dev, ps_qid = word_of_int qid, ps_sq_dma_addr = nq_sq_dma_addr nvmeq,
      ps_cq_dma_addr = nq_cq_dma_addr nvmeq, ps_q_depth = nq_q_depth nvmeq,
      ps_cq_vector = nq_cq_vector nvmeq, ps_polled = bit (nq_flags nvmeq) ROCM_XIO_NVMEQ_POLLED,
      ps_admin_q = (if verified_layout host then nh_admin_q host nvme_dev else NULL)\<rparr>"

definition nvme_alloc_queue_ret_handler ::
    "kenv \<Rightarrow> nvme_host \<Rightarrow> alloc_queue_ctx \<Rightarrow> u64 \<Rightarrow> snapshot_state \<Rightarrow> snapshot_state \<times> kcall list" where
  "nvme_alloc_queue_ret_handler env host ctx retval st =
     (if \<not> config_x86_64 host \<or> retval \<noteq> 0 then (st, [])
      else if cx_nvme_dev ctx = NULL \<or> cx_qid ctx < 0 then (st, [])
      else if nh_queues host (cx_nvme_dev ctx) = NULL then (st, [])
      else let nvmeq = nh_nvmeq host (nh_queues host (cx_nvme_dev ctx) +
                         word_of_int (cx_qid ctx) * nvmeq_stride host) in
      if \<not> kmalloc_ok env then (st, [])
      else (st\<lparr>pending_snapshots :=
                 capture host (cx_nvme_dev ctx) (cx_qid ctx) nvmeq # pending_snapshots st\<rparr>,
            [Kmalloc Obj_pending, Schedule_work_snapshot]))"

definition nvme_create_queue_ret_handler ::
    "kenv \<Rightarrow> nvme_host \<Rightarrow> alloc_queue_ctx \<Rightarrow> u64 \<Rightarrow> snapshot_state \<Rightarrow> snapshot_state \<times> kcall list" where
  "nvme_create_queue_ret_handler env host ctx retval st =
     (if \<not> config_x86_64 host \<or> retval \<noteq> 0 then (st, [])
      else if cx_nvmeq ctx = NULL \<or> cx_qid ctx < 0 then (st, [])
      else let nvmeq = nh_nvmeq host (cx_nvmeq ctx) in
      if \<not> kmalloc_ok env then (st, [])
      else (st\<lparr>pending_snapshots :=
                 capture host (nq_dev nvmeq) (cx_qid ctx) nvmeq # pending_snapshots st\<rparr>,
            [Kmalloc Obj_pending, Schedule_work_snapshot]))"

subsection \<open>The worker\<close>

text \<open>
  \<^verbatim>\<open>for_each_pci_dev\<close>: each device is referenced while it is looked at; the matching one keeps
  its reference.
\<close>

fun pci_bus_walk :: "kenv \<Rightarrow> ptr \<Rightarrow> ptr list \<Rightarrow> ptr option \<times> kcall list" where
  "pci_bus_walk env nvme_dev [] = (None, [])"
| "pci_bus_walk env nvme_dev (p # ps) =
     (if pci_has_driver env p \<and> pci_get_drvdata env p = nvme_dev then (Some p, [Pci_get p])
      else case pci_bus_walk env nvme_dev ps of (r, cs) \<Rightarrow> (r, Pci_get p # Pci_dev_put p # cs))"

definition snapshot_of :: "ptr \<Rightarrow> pending_snapshot_entry \<Rightarrow> nvme_queue_snapshot" where
  "snapshot_of pdev e =
     \<lparr>sn_pdev = pdev, sn_qid = ps_qid e, sn_sq_dma_addr = ps_sq_dma_addr e,
      sn_cq_dma_addr = ps_cq_dma_addr e, sn_q_depth = ps_q_depth e, sn_cq_vector = ps_cq_vector e,
      sn_polled = ps_polled e, sn_admin_q = ps_admin_q e, sn_dev = ps_nvme_dev e\<rparr>"

text \<open>One turn of the loop of the worker; \<open>ok\<close> says whether its allocation succeeds.\<close>

definition snapshot_drain_one ::
    "kenv \<Rightarrow> bool \<Rightarrow> pending_snapshot_entry \<Rightarrow> nvme_queue_snapshot list \<Rightarrow>
     nvme_queue_snapshot list \<times> kcall list" where
  "snapshot_drain_one env ok e ss =
     (case pci_bus_walk env (ps_nvme_dev e) (pci_devices env) of
        (None, cs) \<Rightarrow> (ss, cs @ [Kfree Obj_pending])
      | (Some pdev, cs) \<Rightarrow>
         (case nvme_queue_snapshot_store ok (snapshot_of pdev e) ss of
            (ss', ds) \<Rightarrow> (ss', cs @ ds @ [Pci_dev_put pdev, Kfree Obj_pending])))"

fun snapshot_drain ::
    "kenv \<Rightarrow> bool list \<Rightarrow> pending_snapshot_entry list \<Rightarrow> nvme_queue_snapshot list \<Rightarrow>
     nvme_queue_snapshot list \<times> kcall list" where
  "snapshot_drain env oks [] ss = (ss, [])"
| "snapshot_drain env oks (e # es) ss =
     (case snapshot_drain_one env (oks \<noteq> [] \<and> hd oks) e ss of
        (ss', cs) \<Rightarrow> (case snapshot_drain env (tl oks) es ss' of (ss'', ds) \<Rightarrow> (ss'', cs @ ds)))"

definition rocm_xio_snapshot_work_fn ::
    "kenv \<Rightarrow> bool list \<Rightarrow> snapshot_state \<Rightarrow> snapshot_state \<times> kcall list" where
  "rocm_xio_snapshot_work_fn env oks st =
     (case snapshot_drain env oks (pending_snapshots st) (nvme_queue_snapshots st) of
        (ss, cs) \<Rightarrow> (\<lparr>nvme_queue_snapshots = ss, pending_snapshots = []\<rparr>, cs))"

definition exit_snapshots :: "snapshot_state \<Rightarrow> snapshot_state \<times> kcall list" where
  "exit_snapshots st =
     (case nvme_queue_snapshots_free_all (nvme_queue_snapshots st) of
        (ss, cs) \<Rightarrow> (\<lparr>nvme_queue_snapshots = ss, pending_snapshots = []\<rparr>,
                     map (\<lambda>e. Kfree Obj_pending) (pending_snapshots st) @ cs))"

subsection \<open>The interface of the table\<close>

locale keyed_store =
  fixes get :: "'t \<Rightarrow> 'k \<Rightarrow> 'v option"
    and put :: "'v \<Rightarrow> 't \<Rightarrow> 't"
    and key :: "'v \<Rightarrow> 'k"
  assumes get_put_same: "get (put v t) (key v) = Some v"
    and get_put_other: "k \<noteq> key v \<Longrightarrow> get (put v t) k = get t k"
begin

text \<open>Of several stores under one key the last one counts.\<close>

lemma get_fold:
  "get (fold put vs t) k =
     (case List.find (\<lambda>v. key v = k) (rev vs) of None \<Rightarrow> get t k | Some v \<Rightarrow> Some v)"
proof (induction vs rule: rev_induct)
  case Nil
  then show ?case by simp
next
  case (snoc v vs)
  then show ?case
    by (cases "key v = k") (auto simp: get_put_same get_put_other)
qed

end

lemma snapshot_put_cases:
  "snapshot_put snap ss =
     (if \<exists>s\<in>set ss. snapshot_key s = snapshot_key snap
      then fst (update_first (\<lambda>s. snapshot_key s = snapshot_key snap) (\<lambda>s. snap) ss)
      else snap # ss)"
proof -
  let ?P = "\<lambda>s. snapshot_key s = snapshot_key snap"
  let ?f = "\<lambda>s. s\<lparr>sn_sq_dma_addr := sn_sq_dma_addr snap, sn_cq_dma_addr := sn_cq_dma_addr snap,
    sn_q_depth := sn_q_depth snap, sn_cq_vector := sn_cq_vector snap, sn_polled := sn_polled snap,
    sn_admin_q := sn_admin_q snap, sn_dev := sn_dev snap\<rparr>"
  have "?f s = snap" if "?P s" for s using that by (cases s; cases snap) (simp add: snapshot_key_def)
  then have "update_first ?P ?f ss = update_first ?P (\<lambda>s. snap) ss"
    by (induction ss) (simp_all add: case_prod_beta)
  moreover have "snd (update_first ?P (\<lambda>s. snap) ss) \<longleftrightarrow> (\<exists>s\<in>set ss. ?P s)"
    by (rule update_first_found)
  ultimately show ?thesis
    unfolding snapshot_put_def by (cases "update_first ?P (\<lambda>s. snap) ss") (auto split: bool.splits)
qed

definition snapshot_get :: "nvme_queue_snapshot list \<Rightarrow> ptr \<times> u16 \<Rightarrow> nvme_queue_snapshot option" where
  "snapshot_get ss k = nvme_queue_snapshot_lookup ss (fst k) (snd k)"

lemma snapshot_get_find: "snapshot_get ss k = List.find (\<lambda>s. snapshot_key s = k) ss"
  by (cases k) (simp add: snapshot_get_def nvme_queue_snapshot_lookup_def snapshot_key_def)

interpretation snaps: keyed_store snapshot_get snapshot_put snapshot_key
proof
  fix v t
  show "snapshot_get (snapshot_put v t) (snapshot_key v) = Some v"
  proof (cases "\<exists>s\<in>set t. snapshot_key s = snapshot_key v")
    case True
    then obtain s where "List.find (\<lambda>s. snapshot_key s = snapshot_key v) t = Some s"
      by (metis (mono_tags, lifting) find_None_conv not_Some_eq)
    with True show ?thesis
      by (simp add: snapshot_put_cases snapshot_get_find find_update_first_same)
  qed (simp add: snapshot_put_cases snapshot_get_find)
next
  fix k v t
  assume "k \<noteq> snapshot_key v"
  then show "snapshot_get (snapshot_put v t) k = snapshot_get t k"
    by (auto simp: snapshot_put_cases snapshot_get_find intro!: find_update_first_other)
qed

subsection \<open>Accounting\<close>

definition snapshot_owned :: "snapshot_state \<Rightarrow> res \<Rightarrow> int" where
  "snapshot_owned st r =
     sum_list (map (\<lambda>s. res_count (RPci (sn_pdev s)) r + res_count (RMem Obj_snapshot) r)
       (nvme_queue_snapshots st)) +
     sum_list (map (\<lambda>e. res_count (RMem Obj_pending) r) (pending_snapshots st))"

inductive snapshot_step :: "snapshot_state \<Rightarrow> kcall list \<Rightarrow> snapshot_state \<Rightarrow> bool" where
  ss_alloc: "nvme_alloc_queue_ret_handler env host ctx retval st = (st', cs) \<Longrightarrow> snapshot_step st cs st'"
| ss_create: "nvme_create_queue_ret_handler env host ctx retval st = (st', cs) \<Longrightarrow> snapshot_step st cs st'"
| ss_work: "rocm_xio_snapshot_work_fn env oks st = (st', cs) \<Longrightarrow> snapshot_step st cs st'"
| ss_exit: "exit_snapshots st = (st', cs) \<Longrightarrow> snapshot_step st cs st'"

lemma update_first_sum:
  fixes g :: "'a \<Rightarrow> int"
  assumes "\<And>x. P x \<Longrightarrow> g (f x) = g x"
  shows "sum_list (map g (fst (update_first P f xs))) = sum_list (map g xs)"
  by (simp only: update_first_map [of P g f, OF assms])

lemma snapshot_store_held:
  assumes "nvme_queue_snapshot_store ok snap ss = (ss', cs)"
  shows "held cs r =
    sum_list (map (\<lambda>s. res_count (RPci (sn_pdev s)) r + res_count (RMem Obj_snapshot) r) ss') -
    sum_list (map (\<lambda>s. res_count (RPci (sn_pdev s)) r + res_count (RMem Obj_snapshot) r) ss)"
proof (cases "ok \<and> (\<exists>s\<in>set ss. snapshot_key s = snapshot_key snap)")
  case True
  then have "sum_list (map (\<lambda>s. res_count (RPci (sn_pdev s)) r + res_count (RMem Obj_snapshot) r)
      (snapshot_put snap ss)) =
    sum_list (map (\<lambda>s. res_count (RPci (sn_pdev s)) r + res_count (RMem Obj_snapshot) r) ss)"
    unfolding snapshot_put_cases
    by (subst if_P) (auto intro!: update_first_sum simp: snapshot_key_def)
  with True assms show ?thesis by (auto simp: nvme_queue_snapshot_store_def)
next
  case False
  with assms show ?thesis
    by (auto simp: nvme_queue_snapshot_store_def snapshot_put_cases split: if_splits)
qed

lemma pci_bus_walk_result:
  "fst (pci_bus_walk env d ps) = List.find (\<lambda>p. pci_has_driver env p \<and> pci_get_drvdata env p = d) ps"
  by (induction ps) (auto split: prod.splits)

lemma pci_bus_walk_held:
  "held (snd (pci_bus_walk env d ps)) r =
     (case fst (pci_bus_walk env d ps) of None \<Rightarrow> 0 | Some p \<Rightarrow> res_count (RPci p) r)"
  by (induction ps) (auto split: prod.splits)

lemma snapshot_drain_one_held:
  assumes "snapshot_drain_one env ok e ss = (ss', cs)"
  shows "held cs r =
    sum_list (map (\<lambda>s. res_count (RPci (sn_pdev s)) r + res_count (RMem Obj_snapshot) r) ss') -
    sum_list (map (\<lambda>s. res_count (RPci (sn_pdev s)) r + res_count (RMem Obj_snapshot) r) ss) -
    res_count (RMem Obj_pending) r"
  using assms pci_bus_walk_held [of env "ps_nvme_dev e" "pci_devices env" r]
  by (auto simp: snapshot_drain_one_def dest!: snapshot_store_held [where r = r]
      split: prod.splits option.splits)

lemma snapshot_drain_held:
  "snapshot_drain env oks es ss = (ss', cs) \<Longrightarrow> held cs r =
    sum_list (map (\<lambda>s. res_count (RPci (sn_pdev s)) r + res_count (RMem Obj_snapshot) r) ss') -
    sum_list (map (\<lambda>s. res_count (RPci (sn_pdev s)) r + res_count (RMem Obj_snapshot) r) ss) -
    sum_list (map (\<lambda>e. res_count (RMem Obj_pending) r) es)"
  by (induction env oks es ss arbitrary: ss' cs rule: snapshot_drain.induct)
    (fastforce dest!: snapshot_drain_one_held [where r = r] split: prod.splits)+

lemma free_all_held:
  "held (concat (map (\<lambda>s. [Pci_dev_put (sn_pdev s), Kfree Obj_snapshot]) ss)) r =
     - sum_list (map (\<lambda>s. res_count (RPci (sn_pdev s)) r + res_count (RMem Obj_snapshot) r) ss)"
  by (induction ss) simp_all

lemma kfree_pending_held:
  "held (map (\<lambda>e. Kfree Obj_pending) es) r = - sum_list (map (\<lambda>e. res_count (RMem Obj_pending) r) es)"
  by (induction es) simp_all

lemma snapshot_step_held:
  assumes "snapshot_step st cs st'"
  shows "held cs r = snapshot_owned st' r - snapshot_owned st r"
  using assms
proof cases
  case ss_alloc
  then show ?thesis
    by (auto simp: nvme_alloc_queue_ret_handler_def snapshot_owned_def Let_def split: if_splits)
next
  case ss_create
  then show ?thesis
    by (auto simp: nvme_create_queue_ret_handler_def snapshot_owned_def Let_def split: if_splits)
next
  case ss_work
  then show ?thesis
    by (auto simp: rocm_xio_snapshot_work_fn_def snapshot_owned_def
        dest!: snapshot_drain_held [where r = r] split: prod.splits)
next
  case ss_exit
  then show ?thesis
    by (auto simp: exit_snapshots_def nvme_queue_snapshots_free_all_def snapshot_owned_def
        free_all_held kfree_pending_held sum_list_map_rev simp del: map_replicate_const)
qed

interpretation snp: resource_accounting snapshot_step "\<lambda>_. True" snapshot_owned
  by unfold_locales (simp_all add: snapshot_step_held)

subsection \<open>Properties\<close>

text \<open>The snapshots that the worker makes of the pending captures it can resolve, in list order.\<close>

definition resolve_pdev :: "kenv \<Rightarrow> ptr \<Rightarrow> ptr option" where
  "resolve_pdev env d =
     List.find (\<lambda>p. pci_has_driver env p \<and> pci_get_drvdata env p = d) (pci_devices env)"

fun captured_snapshots :: "kenv \<Rightarrow> pending_snapshot_entry list \<Rightarrow> nvme_queue_snapshot list" where
  "captured_snapshots env [] = []"
| "captured_snapshots env (e # es) =
     (case resolve_pdev env (ps_nvme_dev e) of
        None \<Rightarrow> captured_snapshots env es
      | Some pdev \<Rightarrow> snapshot_of pdev e # captured_snapshots env es)"

lemma snapshot_store_put: "fst (nvme_queue_snapshot_store True snap ss) = snapshot_put snap ss"
  by (simp add: nvme_queue_snapshot_store_def)

lemma snapshot_drain_fold:
  "length oks = length es \<Longrightarrow> list_all (\<lambda>b. b) oks \<Longrightarrow>
     fst (snapshot_drain env oks es ss) = fold snapshot_put (captured_snapshots env es) ss"
proof (induction env oks es ss rule: snapshot_drain.induct)
  case (1 env oks ss)
  then show ?case by simp
next
  case (2 env oks e es ss)
  then obtain b bs where oks: "oks = b # bs" by (cases oks) auto
  with "2.prems" have b: "b" by simp
  let ?d = "snapshot_drain_one env True e ss"
  have "fst ?d = (case resolve_pdev env (ps_nvme_dev e) of None \<Rightarrow> ss | Some pdev \<Rightarrow> snapshot_put (snapshot_of pdev e) ss)"
    unfolding snapshot_drain_one_def resolve_pdev_def pci_bus_walk_result [symmetric]
    by (auto simp: snapshot_store_put [symmetric] split: prod.splits option.splits)
  moreover have "fst (snapshot_drain env bs es (fst ?d)) =
      fold snapshot_put (captured_snapshots env es) (fst ?d)"
    using 2 oks b by (cases ?d) simp
  ultimately show ?case
    using oks b by (auto split: prod.splits option.splits)
qed

text \<open>When the allocations of the worker succeed, every later lookup is answered by the last
  capture in the pending list that belongs to that device and queue, and by the older snapshot
  if there is none.\<close>

theorem snapshot_work_lookup:
  assumes "length oks = length (pending_snapshots st)" and "list_all (\<lambda>b. b) oks"
  shows "nvme_queue_snapshot_lookup
      (nvme_queue_snapshots (fst (rocm_xio_snapshot_work_fn env oks st))) pdev qid =
    (case List.find (\<lambda>s. snapshot_key s = (pdev, qid))
       (rev (captured_snapshots env (pending_snapshots st))) of
       None \<Rightarrow> nvme_queue_snapshot_lookup (nvme_queue_snapshots st) pdev qid
     | Some s \<Rightarrow> Some s)"
  using snaps.get_fold [of "captured_snapshots env (pending_snapshots st)" "nvme_queue_snapshots st" "(pdev, qid)",
      unfolded snapshot_get_def fst_conv snd_conv]
    snapshot_drain_fold [OF assms, of env "nvme_queue_snapshots st"]
  by (simp add: snapshot_get_def rocm_xio_snapshot_work_fn_def case_prod_beta cong: option.case_cong)

text \<open>
  A queue at address 0x2000 of the device object 0x108, before and after a controller reset that
  moved its rings.
\<close>

definition sample_nvmeq :: "u64 \<Rightarrow> nvmeq_layout" where
  "sample_nvmeq sq = \<lparr>nq_dev = 0x108, nq_cqes = 0x3000, nq_sq_dma_addr = sq, nq_cq_dma_addr = sq + 0x1000,
     nq_q_depth = 64, nq_cq_vector = 1, nq_sq_tail = 5, nq_last_sq_tail = 5, nq_cq_head = 5, nq_qid = 1,
     nq_cq_phase = 0, nq_flags = 1\<rparr>"

definition sample_host :: "u64 \<Rightarrow> nvme_host" where
  "sample_host sq = \<lparr>nh_queues = (\<lambda>d. 0x2000), nh_admin_q = (\<lambda>d. 0x4000), nh_nvmeq = (\<lambda>a. sample_nvmeq sq),
     nh_cqe_mem = (\<lambda>a i. 1), verified_layout = True, config_x86_64 = True, sizeof_nvmeq_layout = 192\<rparr>"

theorem snapshot_work_lookup_witness:
  "nvme_queue_snapshot_lookup (nvme_queue_snapshots (fst (rocm_xio_snapshot_work_fn sample_env [True]
     (snapshot_init\<lparr>pending_snapshots := [capture (sample_host 0x9000) 0x108 1 (sample_nvmeq 0x9000)]\<rparr>)))) 0x100 1 =
   Some (snapshot_of 0x100 (capture (sample_host 0x9000) 0x108 1 (sample_nvmeq 0x9000)))"
  using snapshot_work_lookup [of "[True]" "snapshot_init\<lparr>pending_snapshots :=
      [capture (sample_host 0x9000) 0x108 1 (sample_nvmeq 0x9000)]\<rparr>" sample_env "0x100" 1]
  by (simp add: resolve_pdev_def snapshot_of_def capture_def snapshot_key_def)

text \<open>Two captures of the same queue that wait for the worker together end with the older one:
  the probes put a capture in front of the pending list, and the worker takes the list from the
  front, so the capture made first is stored last. After a second controller reset the snapshot
  then has the addresses of the queue before that reset.\<close>

theorem snapshot_work_keeps_oldest:
  assumes "nvme_create_queue_ret_handler env host1 ctx 0 (st\<lparr>pending_snapshots := []\<rparr>) =
      (st1, [Kmalloc Obj_pending, Schedule_work_snapshot])"
    and "nvme_create_queue_ret_handler env host2 ctx 0 st1 =
      (st2, [Kmalloc Obj_pending, Schedule_work_snapshot])"
    and "nq_dev (nh_nvmeq host2 (cx_nvmeq ctx)) = nq_dev (nh_nvmeq host1 (cx_nvmeq ctx))"
    and "resolve_pdev env (nq_dev (nh_nvmeq host1 (cx_nvmeq ctx))) = Some pdev"
  shows "nvme_queue_snapshot_lookup
      (nvme_queue_snapshots (fst (rocm_xio_snapshot_work_fn env [True, True] st2))) pdev
      (word_of_int (cx_qid ctx)) =
    Some (snapshot_of pdev (capture host1 (nq_dev (nh_nvmeq host1 (cx_nvmeq ctx))) (cx_qid ctx)
      (nh_nvmeq host1 (cx_nvmeq ctx))))"
proof -
  let ?old = "capture host1 (nq_dev (nh_nvmeq host1 (cx_nvmeq ctx))) (cx_qid ctx) (nh_nvmeq host1 (cx_nvmeq ctx))"
  let ?new = "capture host2 (nq_dev (nh_nvmeq host1 (cx_nvmeq ctx))) (cx_qid ctx) (nh_nvmeq host2 (cx_nvmeq ctx))"
  have pend: "pending_snapshots st2 = [?new, ?old]"
    using assms(1-3) by (auto simp: nvme_create_queue_ret_handler_def Let_def split: if_splits)
  have "captured_snapshots env [?new, ?old] = [snapshot_of pdev ?new, snapshot_of pdev ?old]"
    using assms(4) by (simp add: capture_def)
  moreover have "snapshot_key (snapshot_of pdev ?old) = (pdev, word_of_int (cx_qid ctx))"
    by (simp add: snapshot_key_def snapshot_of_def capture_def)
  moreover have "fst (rocm_xio_snapshot_work_fn env [True, True] st2) =
      \<lparr>nvme_queue_snapshots = fold snapshot_put (captured_snapshots env [?new, ?old])
         (nvme_queue_snapshots st2), pending_snapshots = []\<rparr>"
    using snapshot_drain_fold [of "[True, True]" "[?new, ?old]" env "nvme_queue_snapshots st2"]
    by (simp add: rocm_xio_snapshot_work_fn_def pend case_prod_beta)
  ultimately show ?thesis
    using snaps.get_put_same [of "snapshot_of pdev ?old"] by (simp add: snapshot_get_def)
qed

theorem snapshot_work_keeps_oldest_witness:
  "map_option sn_sq_dma_addr (nvme_queue_snapshot_lookup
     (nvme_queue_snapshots (fst (rocm_xio_snapshot_work_fn sample_env [True, True]
        (fst (nvme_create_queue_ret_handler sample_env (sample_host 0xF000)
          \<lparr>cx_nvme_dev = NULL, cx_nvmeq = 0x2000, cx_qid = 1\<rparr> 0
          (fst (nvme_create_queue_ret_handler sample_env (sample_host 0x9000)
            \<lparr>cx_nvme_dev = NULL, cx_nvmeq = 0x2000, cx_qid = 1\<rparr> 0 snapshot_init))))))) 0x100 1) = Some 0x9000"
  using snapshot_work_keeps_oldest [of sample_env "sample_host 0x9000"
      "\<lparr>cx_nvme_dev = NULL, cx_nvmeq = 0x2000, cx_qid = 1\<rparr>" snapshot_init _ "sample_host 0xF000" _ "0x100"]
  by (simp add: nvme_create_queue_ret_handler_def sample_host_def sample_nvmeq_def snapshot_init_def
      snapshot_of_def capture_def resolve_pdev_def)

end
