(* ===== verification/Kernel_Poison.thy ===== *)
theory Kernel_Poison
  imports Kernel_Dmabuf Kernel_Snapshot
begin

text \<open>
  Hijacked queue ids and their resurrection (\<^verbatim>\<open>kernel/rocm-xio/rocm-xio.c\<close>): the table
  \<^verbatim>\<open>poisoned_qids\<close> that the kprobe fills, and the delayed worker that gives a deleted queue back
  to the kernel by creating it again from its snapshot. \<open>poison_step\<close> interleaves the critical
  sections of the probes with the worker.
\<close>

subsection \<open>State\<close>

record poisoned_qid_entry =
  pq_bdf :: u16
  pq_qid :: u16
  pq_created :: bool
  pq_needs_resurrect :: bool

text \<open>\<open>resurrect_queued\<close>: the delayed work is waiting to run.\<close>

record poison_state =
  poisoned_qids :: "poisoned_qid_entry list"
  resurrect_queued :: bool

definition poison_init :: poison_state where
  "poison_init = \<lparr>poisoned_qids = [], resurrect_queued = False\<rparr>"

definition poison_key :: "poisoned_qid_entry \<Rightarrow> u16 \<times> u16" where
  "poison_key e = (pq_bdf e, pq_qid e)"

subsection \<open>Marking\<close>

text \<open>
  The first critical section of \<^verbatim>\<open>poisoned_qid_mark_created\<close>, which looks for an entry, and the
  second one, which looks again before it links the new object.
\<close>

definition mark_existing :: "u16 \<Rightarrow> u16 \<Rightarrow> poisoned_qid_entry list \<Rightarrow> poisoned_qid_entry list \<times> bool" where
  "mark_existing bdf qid ps =
     update_first (\<lambda>e. pq_bdf e = bdf \<and> pq_qid e = qid) (\<lambda>e. e\<lparr>pq_created := True\<rparr>) ps"

definition mark_insert :: "u16 \<Rightarrow> u16 \<Rightarrow> poisoned_qid_entry list \<Rightarrow> poisoned_qid_entry list \<times> kcall list" where
  "mark_insert bdf qid ps =
     (case mark_existing bdf qid ps of
        (ps', True) \<Rightarrow> (ps', [Kfree Obj_poisoned])
      | (_, False) \<Rightarrow>
          (\<lparr>pq_bdf = bdf, pq_qid = qid, pq_created = True, pq_needs_resurrect = False\<rparr> # ps, []))"

definition poisoned_qid_mark_created ::
    "kenv \<Rightarrow> u16 \<Rightarrow> u16 \<Rightarrow> poison_state \<Rightarrow> poison_state \<times> kcall list" where
  "poisoned_qid_mark_created env bdf qid st =
     (case mark_existing bdf qid (poisoned_qids st) of
        (ps, True) \<Rightarrow> (st\<lparr>poisoned_qids := ps\<rparr>, [])
      | (_, False) \<Rightarrow>
          if \<not> kmalloc_ok env then (st, [])
          else (case mark_insert bdf qid (poisoned_qids st) of
                  (ps, cs) \<Rightarrow> (st\<lparr>poisoned_qids := ps\<rparr>, Kmalloc Obj_poisoned # cs)))"

text \<open>
  The critical section of \<^verbatim>\<open>poisoned_qid_mark_deleted\<close>: the new list and whether the worker is
  to be scheduled.
\<close>

definition mark_deleted_section ::
    "u16 \<Rightarrow> u16 \<Rightarrow> poisoned_qid_entry list \<Rightarrow> poisoned_qid_entry list \<times> bool" where
  "mark_deleted_section bdf qid ps =
     (fst (update_first (\<lambda>e. pq_bdf e = bdf \<and> pq_qid e = qid)
        (\<lambda>e. if pq_created e then e\<lparr>pq_needs_resurrect := True\<rparr> else e) ps),
      (case List.find (\<lambda>e. pq_bdf e = bdf \<and> pq_qid e = qid) ps of
         None \<Rightarrow> False | Some e \<Rightarrow> pq_created e))"

definition poisoned_qid_mark_deleted :: "u16 \<Rightarrow> u16 \<Rightarrow> poison_state \<Rightarrow> poison_state \<times> kcall list" where
  "poisoned_qid_mark_deleted bdf qid st =
     (case mark_deleted_section bdf qid (poisoned_qids st) of
        (ps, schedule) \<Rightarrow>
          if schedule
          then (st\<lparr>poisoned_qids := ps, resurrect_queued := True\<rparr>, [Mod_delayed_work_resurrect])
          else (st\<lparr>poisoned_qids := ps\<rparr>, []))"

subsection \<open>Collecting the work\<close>

text \<open>
  The section of \<^verbatim>\<open>rocm_xio_resurrect_work_fn\<close> under the lock: for each entry that needs it a
  clone is allocated and only then the flags are cleared. \<open>oks\<close> are the outcomes of the
  allocations, in order; the results are the list, the clones and whether one allocation failed.
\<close>

fun resurrect_collect ::
    "bool list \<Rightarrow> poisoned_qid_entry list \<Rightarrow> poisoned_qid_entry list \<times> poisoned_qid_entry list \<times> bool" where
  "resurrect_collect oks [] = ([], [], False)"
| "resurrect_collect oks (pe # ps) =
     (if pq_needs_resurrect pe
      then if oks \<noteq> [] \<and> hd oks
           then (case resurrect_collect (tl oks) ps of
                   (ps', clones, oom) \<Rightarrow>
                     (pe\<lparr>pq_needs_resurrect := False, pq_created := False\<rparr> # ps',
                      \<lparr>pq_bdf = pq_bdf pe, pq_qid = pq_qid pe, pq_created = False,
                       pq_needs_resurrect = False\<rparr> # clones, oom))
           else (case resurrect_collect (tl oks) ps of
                   (ps', clones, oom) \<Rightarrow> (pe # ps', clones, True))
      else (case resurrect_collect oks ps of (ps', clones, oom) \<Rightarrow> (pe # ps', clones, oom)))"

subsection \<open>Recreating one queue\<close>

definition nvme_admin_create_sq :: u8 where
  "nvme_admin_create_sq = 0x01"

definition nvme_admin_create_cq :: u8 where
  "nvme_admin_create_cq = 0x05"

definition NVME_QUEUE_PHYS_CONTIG :: u16 where
  "NVME_QUEUE_PHYS_CONTIG = 1"

definition NVME_CQ_IRQ_ENABLED :: u16 where
  "NVME_CQ_IRQ_ENABLED = 2"

definition create_cq_cmd :: "nvme_queue_snapshot \<Rightarrow> u16 \<Rightarrow> nvme_create_cmd" where
  "create_cq_cmd snap qid =
     \<lparr>nc_opcode = nvme_admin_create_cq, nc_prp1 = sn_cq_dma_addr snap, nc_qid = qid,
      nc_qsize = ucast (sn_q_depth snap - 1),
      nc_flags = (if sn_polled snap then NVME_QUEUE_PHYS_CONTIG
                  else NVME_QUEUE_PHYS_CONTIG OR NVME_CQ_IRQ_ENABLED),
      nc_vector_or_cqid = sn_cq_vector snap\<rparr>"

definition create_sq_cmd :: "nvme_queue_snapshot \<Rightarrow> u16 \<Rightarrow> nvme_create_cmd" where
  "create_sq_cmd snap qid =
     \<lparr>nc_opcode = nvme_admin_create_sq, nc_prp1 = sn_sq_dma_addr snap, nc_qid = qid,
      nc_qsize = ucast (sn_q_depth snap - 1), nc_flags = NVME_QUEUE_PHYS_CONTIG,
      nc_vector_or_cqid = qid\<rparr>"

text \<open>Where the loop body ends: each warning followed by \<^verbatim>\<open>continue\<close>, and the last line.\<close>

datatype resurrect_end =
  No_device | No_snapshot | No_admin_q | Bogus_snapshot | Create_cq_failed | Create_sq_failed | Resurrected

definition live_nvmeq_addr :: "nvme_host \<Rightarrow> ptr \<Rightarrow> u16 \<Rightarrow> ptr" where
  "live_nvmeq_addr host dev qid = nh_queues host dev + ucast qid * 192"

definition host_ring_reset :: "kenv \<Rightarrow> ptr \<Rightarrow> nvme_queue_snapshot \<Rightarrow> u16 \<Rightarrow> nvme_host \<Rightarrow> nvme_host" where
  "host_ring_reset env pdev snap qid host =
     (if verified_layout host \<and> sn_dev snap \<noteq> NULL \<and> pci_get_drvdata env pdev = sn_dev snap \<and>
         nh_queues host (sn_dev snap) \<noteq> NULL
      then let a = live_nvmeq_addr host (sn_dev snap) qid;
               q = nh_nvmeq host a;
               host1 = (if nq_cqes q \<noteq> NULL \<and> sn_q_depth snap \<noteq> 0
                        then host\<lparr>nh_cqe_mem := (nh_cqe_mem host)(nq_cqes q :=
                               (\<lambda>i. if i < unat (sn_q_depth snap) * 16 then 0
                                    else nh_cqe_mem host (nq_cqes q) i))\<rparr>
                        else host)
           in host1\<lparr>nh_nvmeq := (nh_nvmeq host1)(a := q\<lparr>nq_sq_tail := 0, nq_last_sq_tail := 0,
                nq_cq_head := 0, nq_cq_phase := 1\<rparr>)\<rparr>
      else host)"

text \<open>\<open>submit\<close> is \<^verbatim>\<open>nvme_submit_sync_cmd\<close> of the NVMe core: 0 is success.\<close>

definition resurrect_one ::
    "kenv \<Rightarrow> (ptr \<Rightarrow> nvme_create_cmd \<Rightarrow> int) \<Rightarrow> nvme_queue_snapshot list \<Rightarrow> poisoned_qid_entry \<Rightarrow>
     nvme_host \<Rightarrow> resurrect_end \<times> nvme_host \<times> kcall list" where
  "resurrect_one env submit ss pe host =
     (let bus = (ucast (drop_bit 8 (pq_bdf pe)) :: u32) AND 0xFF;
          devfn = (ucast (pq_bdf pe) :: u32) AND 0xFF;
          pdev = pci_get_domain_bus_and_slot env 0 bus devfn;
          put = [Pci_dev_put pdev, Kfree Obj_poisoned]
      in if pdev = NULL then (No_device, host, [Kfree Obj_poisoned])
         else case nvme_queue_snapshot_lookup ss pdev (pq_qid pe) of
           None \<Rightarrow> (No_snapshot, host, Pci_get pdev # put)
         | Some snap \<Rightarrow>
             if sn_admin_q snap = NULL then (No_admin_q, host, Pci_get pdev # put)
             else if sn_q_depth snap = 0 \<or> sn_sq_dma_addr snap = 0 \<or> sn_cq_dma_addr snap = 0
             then (Bogus_snapshot, host, Pci_get pdev # put)
             else let cq = create_cq_cmd snap (pq_qid pe); sq = create_sq_cmd snap (pq_qid pe) in
             if submit (sn_admin_q snap) cq \<noteq> 0
             then (Create_cq_failed, host, [Pci_get pdev, Nvme_submit_sync_cmd (sn_admin_q snap) cq] @ put)
             else if submit (sn_admin_q snap) sq \<noteq> 0
             then (Create_sq_failed, host,
                   [Pci_get pdev, Nvme_submit_sync_cmd (sn_admin_q snap) cq,
                    Nvme_submit_sync_cmd (sn_admin_q snap) sq] @ put)
             else (Resurrected, host_ring_reset env pdev snap (pq_qid pe) host,
                   [Pci_get pdev, Nvme_submit_sync_cmd (sn_admin_q snap) cq,
                    Nvme_submit_sync_cmd (sn_admin_q snap) sq] @ put))"

fun resurrect_all ::
    "kenv \<Rightarrow> (ptr \<Rightarrow> nvme_create_cmd \<Rightarrow> int) \<Rightarrow> nvme_queue_snapshot list \<Rightarrow> poisoned_qid_entry list \<Rightarrow>
     nvme_host \<Rightarrow> nvme_host \<times> kcall list" where
  "resurrect_all env submit ss [] host = (host, [])"
| "resurrect_all env submit ss (pe # pes) host =
     (case resurrect_one env submit ss pe host of
        (_, host', cs) \<Rightarrow> (case resurrect_all env submit ss pes host' of (host'', ds) \<Rightarrow> (host'', cs @ ds)))"

definition rocm_xio_resurrect_work_fn ::
    "kenv \<Rightarrow> (ptr \<Rightarrow> nvme_create_cmd \<Rightarrow> int) \<Rightarrow> bool list \<Rightarrow> nvme_queue_snapshot list \<Rightarrow>
     poison_state \<Rightarrow> nvme_host \<Rightarrow> poison_state \<times> nvme_host \<times> kcall list" where
  "rocm_xio_resurrect_work_fn env submit oks ss st host =
     (case resurrect_collect oks (poisoned_qids st) of
        (ps, clones, clone_oom) \<Rightarrow>
          (case resurrect_all env submit ss clones host of
             (host', cs) \<Rightarrow>
               (\<lparr>poisoned_qids = ps, resurrect_queued = clone_oom\<rparr>, host',
                map (\<lambda>c. Kmalloc Obj_poisoned) clones @
                (if clone_oom then [Mod_delayed_work_resurrect] else []) @ cs)))"

definition exit_poisoned :: "poison_state \<Rightarrow> poison_state \<times> kcall list" where
  "exit_poisoned st = (poison_init, map (\<lambda>e. Kfree Obj_poisoned) (rev (poisoned_qids st)))"

subsection \<open>Interleavings\<close>

text \<open>
  \<open>pc_inserting\<close>: callers of \<^verbatim>\<open>poisoned_qid_mark_created\<close> that found no entry and are about to
  enter their second section. \<open>pc_scheduling\<close>: threads that have set or kept a
  \<^verbatim>\<open>needs_resurrect\<close> flag and are about to schedule the worker.
\<close>

record poison_conc =
  pc_st :: poison_state
  pc_inserting :: "(u16 \<times> u16) list"
  pc_scheduling :: nat

definition poison_conc_init :: poison_conc where
  "poison_conc_init = \<lparr>pc_st = poison_init, pc_inserting = [], pc_scheduling = 0\<rparr>"

inductive poison_step :: "poison_conc \<Rightarrow> poison_conc \<Rightarrow> bool" where
  pc_found: "mark_existing bdf qid (poisoned_qids (pc_st s)) = (ps, True) \<Longrightarrow>
    poison_step s (s\<lparr>pc_st := (pc_st s)\<lparr>poisoned_qids := ps\<rparr>\<rparr>)"
| pc_missing: "mark_existing bdf qid (poisoned_qids (pc_st s)) = (ps, False) \<Longrightarrow>
    poison_step s (s\<lparr>pc_inserting := (bdf, qid) # pc_inserting s\<rparr>)"
| pc_insert: "(bdf, qid) \<in> set (pc_inserting s) \<Longrightarrow>
    mark_insert bdf qid (poisoned_qids (pc_st s)) = (ps, cs) \<Longrightarrow>
    poison_step s (s\<lparr>pc_st := (pc_st s)\<lparr>poisoned_qids := ps\<rparr>,
      pc_inserting := remove1 (bdf, qid) (pc_inserting s)\<rparr>)"
| pc_delete: "mark_deleted_section bdf qid (poisoned_qids (pc_st s)) = (ps, schedule) \<Longrightarrow>
    poison_step s (s\<lparr>pc_st := (pc_st s)\<lparr>poisoned_qids := ps\<rparr>,
      pc_scheduling := pc_scheduling s + (if schedule then 1 else 0)\<rparr>)"
| pc_schedule: "0 < pc_scheduling s \<Longrightarrow>
    poison_step s (s\<lparr>pc_st := (pc_st s)\<lparr>resurrect_queued := True\<rparr>, pc_scheduling := pc_scheduling s - 1\<rparr>)"
| pc_collect: "resurrect_queued (pc_st s) \<Longrightarrow>
    resurrect_collect oks (poisoned_qids (pc_st s)) = (ps, clones, oom) \<Longrightarrow>
    poison_step s (s\<lparr>pc_st := \<lparr>poisoned_qids = ps, resurrect_queued = False\<rparr>,
      pc_scheduling := pc_scheduling s + (if oom then 1 else 0)\<rparr>)"

definition poison_conc_inv :: "poison_conc \<Rightarrow> bool" where
  "poison_conc_inv s \<longleftrightarrow> distinct (map poison_key (poisoned_qids (pc_st s))) \<and>
     ((\<exists>e\<in>set (poisoned_qids (pc_st s)). pq_needs_resurrect e) \<longrightarrow>
        resurrect_queued (pc_st s) \<or> 0 < pc_scheduling s)"

subsection \<open>Lemmas\<close>

lemma mark_existing_keys:
  "map poison_key (fst (mark_existing bdf qid ps)) = map poison_key ps"
  unfolding mark_existing_def by (rule update_first_map) (simp add: poison_key_def)

lemma mark_existing_needs:
  "(\<exists>e\<in>set (fst (mark_existing bdf qid ps)). pq_needs_resurrect e) \<longleftrightarrow>
     (\<exists>e\<in>set ps. pq_needs_resurrect e)"
proof -
  have "map pq_needs_resurrect (fst (mark_existing bdf qid ps)) = map pq_needs_resurrect ps"
    unfolding mark_existing_def by (rule update_first_map) simp
  then have "pq_needs_resurrect ` set (fst (mark_existing bdf qid ps)) = pq_needs_resurrect ` set ps"
    by (metis list.set_map)
  then show ?thesis by (metis (full_types) image_iff)
qed

lemma mark_existing_found:
  "snd (mark_existing bdf qid ps) \<longleftrightarrow> (bdf, qid) \<in> set (map poison_key ps)"
  by (auto simp: mark_existing_def update_first_found poison_key_def)

lemma mark_deleted_keys:
  "map poison_key (fst (mark_deleted_section bdf qid ps)) = map poison_key ps"
  unfolding mark_deleted_section_def fst_conv by (rule update_first_map) (simp add: poison_key_def)

lemma mark_deleted_needs:
  assumes "\<exists>e\<in>set (fst (mark_deleted_section bdf qid ps)). pq_needs_resurrect e"
  shows "snd (mark_deleted_section bdf qid ps) \<or> (\<exists>e\<in>set ps. pq_needs_resurrect e)"
  using assms by (induction ps) (auto simp: mark_deleted_section_def case_prod_beta split: if_splits)

lemma mark_insert_cases:
  "mark_insert bdf qid ps =
     (if (bdf, qid) \<in> set (map poison_key ps)
      then (fst (mark_existing bdf qid ps), [Kfree Obj_poisoned])
      else (\<lparr>pq_bdf = bdf, pq_qid = qid, pq_created = True, pq_needs_resurrect = False\<rparr> # ps, []))"
  using mark_existing_found [of bdf qid ps]
  by (cases "mark_existing bdf qid ps") (auto simp: mark_insert_def split: bool.splits)

lemma collect_keys:
  "resurrect_collect oks ps = (ps', clones, oom) \<Longrightarrow> map poison_key ps' = map poison_key ps"
  by (induction oks ps arbitrary: ps' clones oom rule: resurrect_collect.induct)
    (auto simp: poison_key_def split: prod.splits if_splits)

lemma collect_needs:
  "resurrect_collect oks ps = (ps', clones, oom) \<Longrightarrow> (\<exists>e\<in>set ps'. pq_needs_resurrect e) \<longleftrightarrow> oom"
  by (induction oks ps arbitrary: ps' clones oom rule: resurrect_collect.induct)
    (auto split: prod.splits if_splits)

lemma poison_conc_inv_step:
  assumes "poison_step s t" and "poison_conc_inv s"
  shows "poison_conc_inv t"
  using assms
proof (induction rule: poison_step.induct)
  case (pc_found bdf qid s ps)
  then show ?case
    using mark_existing_keys [of bdf qid "poisoned_qids (pc_st s)"]
      mark_existing_needs [of bdf qid "poisoned_qids (pc_st s)"]
    by (simp add: poison_conc_inv_def)
next
  case (pc_insert bdf qid s ps cs)
  then show ?case
    using mark_existing_keys [of bdf qid "poisoned_qids (pc_st s)"]
      mark_existing_needs [of bdf qid "poisoned_qids (pc_st s)"]
    by (auto simp: poison_conc_inv_def mark_insert_cases poison_key_def split: if_splits)
next
  case (pc_delete bdf qid s ps schedule)
  then show ?case
    using mark_deleted_keys [of bdf qid "poisoned_qids (pc_st s)"]
      mark_deleted_needs [of bdf qid "poisoned_qids (pc_st s)"]
    by (auto simp: poison_conc_inv_def)
next
  case (pc_collect s oks ps clones oom)
  then show ?case
    using collect_keys [OF pc_collect(2)] collect_needs [OF pc_collect(2)]
    by (simp add: poison_conc_inv_def)
qed (simp_all add: poison_conc_inv_def)

subsection \<open>Accounting\<close>

definition poison_owned :: "poison_state \<Rightarrow> res \<Rightarrow> int" where
  "poison_owned st r = sum_list (map (\<lambda>e. res_count (RMem Obj_poisoned) r) (poisoned_qids st))"

lemma mark_created_held:
  assumes "poisoned_qid_mark_created env bdf qid st = (st', cs)"
  shows "held cs r = poison_owned st' r - poison_owned st r"
proof -
  have len: "length (fst (mark_existing bdf qid (poisoned_qids st))) = length (poisoned_qids st)"
    by (simp add: mark_existing_def)
  have same: "sum_list (map (\<lambda>e. res_count (RMem Obj_poisoned) r) xs) =
      int (length xs) * res_count (RMem Obj_poisoned) r" for xs :: "poisoned_qid_entry list"
    by (induction xs) (simp_all add: algebra_simps)
  show ?thesis
    using assms len
    by (auto simp: poisoned_qid_mark_created_def poison_owned_def same mark_insert_def algebra_simps
        split: prod.splits bool.splits if_splits)
qed

lemma mark_deleted_held:
  assumes "poisoned_qid_mark_deleted bdf qid st = (st', cs)"
  shows "held cs r = poison_owned st' r - poison_owned st r"
proof -
  have "sum_list (map (\<lambda>e. res_count (RMem Obj_poisoned) r)
      (fst (mark_deleted_section bdf qid (poisoned_qids st)))) =
    sum_list (map (\<lambda>e. res_count (RMem Obj_poisoned) r) (poisoned_qids st))"
    unfolding mark_deleted_section_def fst_conv
    by (subst update_first_map) simp_all
  with assms show ?thesis
    by (auto simp: poisoned_qid_mark_deleted_def poison_owned_def split: prod.splits if_splits)
qed

lemma resurrect_one_held:
  "resurrect_one env submit ss pe host = (e, host', cs) \<Longrightarrow> held cs r = - res_count (RMem Obj_poisoned) r"
  by (auto simp: resurrect_one_def Let_def split: if_splits option.splits)

lemma resurrect_all_held:
  "resurrect_all env submit ss pes host = (host', cs) \<Longrightarrow>
     held cs r = - sum_list (map (\<lambda>e. res_count (RMem Obj_poisoned) r) pes)"
  by (induction env submit ss pes host arbitrary: host' cs rule: resurrect_all.induct)
    (fastforce dest!: resurrect_one_held [where r = r] split: prod.splits)+

lemma held_kmalloc_map:
  "held (map (\<lambda>c. Kmalloc k) xs) r = sum_list (map (\<lambda>c. res_count (RMem k) r) xs)"
  by (induction xs) simp_all

lemma resurrect_work_held:
  assumes "rocm_xio_resurrect_work_fn env submit oks ss st host = (st', host', cs)"
  shows "held cs r = poison_owned st' r - poison_owned st r"
proof -
  obtain ps clones oom where c: "resurrect_collect oks (poisoned_qids st) = (ps, clones, oom)"
    by (cases "resurrect_collect oks (poisoned_qids st)") auto
  have "length ps = length (poisoned_qids st)" using collect_keys [OF c] by (metis length_map)
  then have "map (\<lambda>e. res_count (RMem Obj_poisoned) r) ps =
      map (\<lambda>e. res_count (RMem Obj_poisoned) r) (poisoned_qids st)"
    by (simp add: map_replicate_const)
  with assms c show ?thesis
    by (auto simp: rocm_xio_resurrect_work_fn_def poison_owned_def held_kmalloc_map
        dest!: resurrect_all_held [where r = r] split: prod.splits simp del: map_replicate_const)
qed

lemma exit_poisoned_held:
  "exit_poisoned st = (st', cs) \<Longrightarrow> held cs r = poison_owned st' r - poison_owned st r"
proof -
  have kfree: "held (map (\<lambda>e. Kfree Obj_poisoned) xs) r =
      - sum_list (map (\<lambda>e. res_count (RMem Obj_poisoned) r) xs)" for xs :: "poisoned_qid_entry list"
    by (induction xs) simp_all
  show "exit_poisoned st = (st', cs) \<Longrightarrow> held cs r = poison_owned st' r - poison_owned st r"
    by (auto simp: exit_poisoned_def poison_owned_def poison_init_def kfree sum_list_map_rev
        simp del: map_replicate_const)
qed

subsection \<open>Properties\<close>



text \<open>One pass of the worker takes every waiting queue exactly once, except those whose clone
  could not be allocated: these keep waiting, and then, and only then, the pass asks to run again.\<close>

theorem resurrect_collect_exact:
  assumes "resurrect_collect oks ps = (ps', clones, oom)"
  shows "mset (map poison_key (filter pq_needs_resurrect ps)) =
      mset (map poison_key clones) + mset (map poison_key (filter pq_needs_resurrect ps')) \<and>
    (oom \<longleftrightarrow> filter pq_needs_resurrect ps' \<noteq> []) \<and>
    (length oks = length (filter pq_needs_resurrect ps) \<and> list_all (\<lambda>b. b) oks \<longrightarrow>
       \<not> oom \<and> map poison_key clones = map poison_key (filter pq_needs_resurrect ps))"
  using assms
proof (induction oks ps arbitrary: ps' clones oom rule: resurrect_collect.induct)
  case (1 oks)
  then show ?case by simp
next
  case (2 oks pe ps)
  then show ?case
    by (cases oks) (auto simp: poison_key_def split: prod.splits if_splits)
qed

theorem resurrect_collect_exact_witness:
  "mset (map poison_key (filter pq_needs_resurrect
     [\<lparr>pq_bdf = 0x8500, pq_qid = 3, pq_created = True, pq_needs_resurrect = True\<rparr>,
      \<lparr>pq_bdf = 0x8500, pq_qid = 4, pq_created = True, pq_needs_resurrect = True\<rparr>])) =
   mset (map poison_key [\<lparr>pq_bdf = 0x8500, pq_qid = 3, pq_created = False, pq_needs_resurrect = False\<rparr>]) +
   mset (map poison_key [\<lparr>pq_bdf = 0x8500, pq_qid = 4, pq_created = True, pq_needs_resurrect = True\<rparr>])"
  using resurrect_collect_exact [of "[True, False]"
      "[\<lparr>pq_bdf = 0x8500, pq_qid = 3, pq_created = True, pq_needs_resurrect = True\<rparr>,
        \<lparr>pq_bdf = 0x8500, pq_qid = 4, pq_created = True, pq_needs_resurrect = True\<rparr>]"]
  by simp

text \<open>The admin commands of a trace.\<close>

fun submitted :: "kcall list \<Rightarrow> (ptr \<times> nvme_create_cmd) list" where
  "submitted [] = []"
| "submitted (Nvme_submit_sync_cmd q c # cs) = (q, c) # submitted cs"
| "submitted (_ # cs) = submitted cs"

lemma qsize_exact:
  assumes "0 < d" and "unat (d :: u32) \<le> 65536"
  shows "unat (ucast (d - 1) :: u16) = unat d - 1"
proof -
  from assms(1) have "unat (d - 1) = unat d - 1" by (simp add: unat_sub_if_size word_less_nat_alt)
  moreover from assms have "unat d - 1 < 2 ^ 16" by simp
  ultimately show ?thesis by (simp add: unsigned_ucast_eq take_bit_nat_eq_self)
qed


text \<open>
  A snapshot of the queue 3 of the device of the sample environment, and a controller that accepts
  every command.
\<close>

definition sample_snapshot :: nvme_queue_snapshot where
  "sample_snapshot = \<lparr>sn_pdev = 0x100, sn_qid = 3, sn_sq_dma_addr = 0x9000, sn_cq_dma_addr = 0xA000,
     sn_q_depth = 64, sn_cq_vector = 1, sn_polled = False, sn_admin_q = 0x4000, sn_dev = 0x108\<rparr>"

definition sample_poisoned :: poisoned_qid_entry where
  "sample_poisoned = \<lparr>pq_bdf = 0x8500, pq_qid = 3, pq_created = False, pq_needs_resurrect = False\<rparr>"


text \<open>C28. After a recreation on a kernel of the verified range, with the driver still attached, the
  driver's queue starts from the beginning: both submission tails and the completion head are 0,
  the phase is 1 and every completion entry of the ring is cleared, so no stale entry has the
  expected phase. No other queue of the driver is changed.\<close>

theorem resurrect_one_ring_reset:
  assumes "resurrect_one env submit ss pe host = (Resurrected, host', cs)"
    and "nvme_queue_snapshot_lookup ss
      (pci_get_domain_bus_and_slot env 0 (ucast (drop_bit 8 (pq_bdf pe)) AND 0xFF)
        (ucast (pq_bdf pe) AND 0xFF)) (pq_qid pe) = Some snap"
    and "verified_layout host" and "sn_dev snap \<noteq> NULL"
    and "pci_get_drvdata env (pci_get_domain_bus_and_slot env 0
      (ucast (drop_bit 8 (pq_bdf pe)) AND 0xFF) (ucast (pq_bdf pe) AND 0xFF)) = sn_dev snap"
    and "nh_queues host (sn_dev snap) \<noteq> NULL"
  shows "let a = live_nvmeq_addr host (sn_dev snap) (pq_qid pe); q = nh_nvmeq host' a in
    nq_sq_tail q = 0 \<and> nq_last_sq_tail q = 0 \<and> nq_cq_head q = 0 \<and> nq_cq_phase q = 1 \<and>
    nq_cqes q = nq_cqes (nh_nvmeq host a) \<and>
    (nq_cqes q \<noteq> NULL \<longrightarrow> (\<forall>i < unat (sn_q_depth snap) * 16. nh_cqe_mem host' (nq_cqes q) i = 0)) \<and>
    (\<forall>b. b \<noteq> a \<longrightarrow> nh_nvmeq host' b = nh_nvmeq host b)"
proof -
  let ?pdev = "pci_get_domain_bus_and_slot env 0 (ucast (drop_bit 8 (pq_bdf pe)) AND 0xFF)
    (ucast (pq_bdf pe) AND 0xFF)"
  from assms(1,2) have "host' = host_ring_reset env ?pdev snap (pq_qid pe) host"
    and "sn_q_depth snap \<noteq> 0"
    by (auto simp: resurrect_one_def Let_def split: if_splits)
  with assms(3-6) show ?thesis by (simp add: host_ring_reset_def Let_def)
qed

theorem resurrect_one_ring_reset_witness:
  "nq_cq_phase (nh_nvmeq (fst (snd (resurrect_one sample_env (\<lambda>q c. 0) [sample_snapshot] sample_poisoned
     (sample_host 0x9000)))) 0x2240) = 1"
  using resurrect_one_ring_reset [of sample_env "\<lambda>q c. 0" "[sample_snapshot]" sample_poisoned
      "sample_host 0x9000" _ _ sample_snapshot]
  by (simp add: resurrect_one_def nvme_queue_snapshot_lookup_def sample_snapshot_def sample_poisoned_def
      sample_host_def live_nvmeq_addr_def Let_def)

end
