(* ===== verification/Kernel_Inject.thy ===== *)
theory Kernel_Inject
  imports Kernel_Registry Kernel_Poison
begin

text \<open>
  The kprobe on \<^verbatim>\<open>nvme_submit_user_cmd\<close> (\<^verbatim>\<open>kernel/rocm-xio/rocm-xio.c\<close>,
  \<^verbatim>\<open>nvme_submit_user_cmd_pre\<close>): it rewrites the data pointers of passthrough commands from the
  registration tables, and keeps track of the queue ids that are taken over. The three blocks of
  the handler are one definition each, composed in the order of the source. The tables are
  reached through the laws of \<open>address_table\<close>.
\<close>

subsection \<open>Commands\<close>

record nvme_command =
  cmd_opcode :: u8
  cmd_prp1 :: u64
  cmd_prp2 :: u64
  cmd_cdw10 :: u32

text \<open>\<open>pa_q_disk\<close> is the \<^verbatim>\<open>disk\<close> field of a request queue.\<close>

record probe_args =
  pa_q :: ptr
  pa_cmd :: ptr
  pa_ubuffer :: u64
  pa_q_disk :: ptr

definition is_admin :: "probe_args \<Rightarrow> bool" where
  "is_admin args \<longleftrightarrow> pa_q args = NULL \<or> pa_q_disk args = NULL"

definition queue_id_of :: "nvme_command \<Rightarrow> u16" where
  "queue_id_of cmd = ucast (cmd_cdw10 cmd AND 0xFFFF)"

subsection \<open>The handler\<close>

text \<open>DELETE_SQ and DELETE_CQ: only the second one triggers the resurrection.\<close>

definition inject_delete ::
    "registry \<Rightarrow> probe_args \<Rightarrow> nvme_command \<Rightarrow> poison_state \<Rightarrow> poison_state \<times> kcall list" where
  "inject_delete reg args cmd st =
     (if is_admin args \<and> (cmd_opcode cmd = 0x00 \<or> cmd_opcode cmd = 0x04)
      then let queue_id = queue_id_of cmd;
               bdf = lookup_queue_bdf (queue_addrs reg) (pa_ubuffer args)
           in if cmd_opcode cmd = 0x04
              then if bdf \<noteq> 0 then poisoned_qid_mark_deleted (ucast bdf) queue_id st
                   else let found_bdf = (case List.find (\<lambda>pe. pq_qid pe = queue_id \<and> pq_created pe)
                                               (poisoned_qids st) of
                                           None \<Rightarrow> 0 | Some pe \<Rightarrow> pq_bdf pe)
                        in if found_bdf \<noteq> 0 then poisoned_qid_mark_deleted found_bdf queue_id st
                           else (st, [])
              else (st, [])
      else (st, []))"

text \<open>CREATE_SQ and CREATE_CQ.\<close>

definition inject_create ::
    "kenv \<Rightarrow> registry \<Rightarrow> probe_args \<Rightarrow> nvme_command \<Rightarrow> poison_state \<Rightarrow>
     nvme_command \<times> poison_state \<times> kcall list" where
  "inject_create env reg args cmd st =
     (if is_admin args \<and> (cmd_opcode cmd = 0x05 \<or> cmd_opcode cmd = 0x01) \<and> pa_ubuffer args \<noteq> 0
      then let queue_id = queue_id_of cmd;
               phys_addr = lookup_queue_phys_addr (queue_addrs reg) (pa_ubuffer args)
           in if phys_addr \<noteq> 0
              then let cmd1 = cmd\<lparr>cmd_prp1 := phys_addr\<rparr>;
                       prp2_val = lookup_queue_prp2 (queue_addrs reg) (pa_ubuffer args);
                       cmd2 = (if prp2_val \<noteq> 0 then cmd1\<lparr>cmd_prp2 := prp2_val\<rparr> else cmd1);
                       hijack_bdf = (ucast (lookup_queue_bdf (queue_addrs reg) (pa_ubuffer args)) :: u16)
                   in if hijack_bdf \<noteq> 0
                      then (case poisoned_qid_mark_created env hijack_bdf queue_id st of
                              (st', cs) \<Rightarrow> (cmd2, st', cs))
                      else (cmd2, st, [])
              else (cmd\<lparr>cmd_prp1 := pa_ubuffer args\<rparr>, st, [])
      else (cmd, st, []))"

text \<open>READ and WRITE: a data pointer below 4 GiB is taken for a virtual address.\<close>

definition inject_prp :: "kenv \<Rightarrow> registry \<Rightarrow> u64 \<Rightarrow> u64" where
  "inject_prp env reg prp =
     (if prp \<noteq> 0 \<and> prp < 0x100000000
      then let phys_addr = lookup_buffer_phys_addr env (vram_buffers reg) prp
           in if phys_addr \<noteq> 0 then phys_addr else prp
      else prp)"

definition inject_io :: "kenv \<Rightarrow> registry \<Rightarrow> probe_args \<Rightarrow> nvme_command \<Rightarrow> nvme_command" where
  "inject_io env reg args cmd =
     (if \<not> is_admin args \<and> (cmd_opcode cmd = 0x01 \<or> cmd_opcode cmd = 0x02)
      then cmd\<lparr>cmd_prp1 := inject_prp env reg (cmd_prp1 cmd), cmd_prp2 := inject_prp env reg (cmd_prp2 cmd)\<rparr>
      else cmd)"

definition nvme_submit_user_cmd_pre ::
    "kenv \<Rightarrow> bool \<Rightarrow> bool \<Rightarrow> registry \<Rightarrow> probe_args \<Rightarrow> nvme_command \<Rightarrow> poison_state \<Rightarrow>
     nvme_command \<times> poison_state \<times> kcall list" where
  "nvme_submit_user_cmd_pre env inject_enabled x86_64 reg args cmd st =
     (if \<not> inject_enabled \<or> \<not> x86_64 \<or> pa_cmd args = NULL then (cmd, st, [])
      else case inject_delete reg args cmd st of
        (st1, cs) \<Rightarrow> (case inject_create env reg args cmd st1 of
          (cmd1, st2, ds) \<Rightarrow> (inject_io env reg args cmd1, st2, cs @ ds)))"

subsection \<open>Lemmas\<close>

lemma inject_delete_held:
  "inject_delete reg args cmd st = (st', cs) \<Longrightarrow> held cs r = poison_owned st' r - poison_owned st r"
  by (auto simp: inject_delete_def Let_def split: if_splits option.splits
      dest: mark_deleted_held [where r = r])

lemma inject_create_held:
  "inject_create env reg args cmd st = (cmd', st', cs) \<Longrightarrow>
     held cs r = poison_owned st' r - poison_owned st r"
  by (auto simp: inject_create_def Let_def split: if_splits prod.splits
      dest: mark_created_held [where r = r])

lemma submit_user_cmd_pre_held:
  assumes "nvme_submit_user_cmd_pre env en arch reg args cmd st = (cmd', st', cs)"
  shows "held cs r = poison_owned st' r - poison_owned st r"
  using assms
  by (auto simp: nvme_submit_user_cmd_pre_def split: if_splits prod.splits
      dest!: inject_delete_held [where r = r] inject_create_held [where r = r])

lemma inject_create_other:
  "\<not> (is_admin args \<and> (cmd_opcode cmd = 0x05 \<or> cmd_opcode cmd = 0x01)) \<Longrightarrow>
     inject_create env reg args cmd st = (cmd, st, [])"
  by (auto simp: inject_create_def)

lemma inject_delete_other:
  "\<not> (is_admin args \<and> cmd_opcode cmd = 0x04) \<Longrightarrow> inject_delete reg args cmd st = (st, [])"
  by (auto simp: inject_delete_def Let_def)

lemma inject_create_frame:
  assumes "inject_create env reg args cmd st = (cmd', st', cs)"
  shows "cmd_opcode cmd' = cmd_opcode cmd \<and> cmd_cdw10 cmd' = cmd_cdw10 cmd \<and>
    resurrect_queued st' = resurrect_queued st"
  using assms
  by (auto simp: inject_create_def Let_def poisoned_qid_mark_created_def split: if_splits prod.splits bool.splits)

lemma mark_created_tracked:
  assumes "kmalloc_ok env" and "poisoned_qid_mark_created env bdf qid st = (st', cs)"
  shows "\<exists>e\<in>set (poisoned_qids st'). poison_key e = (bdf, qid) \<and> pq_created e"
    and "\<exists>e. List.find (\<lambda>e. pq_bdf e = bdf \<and> pq_qid e = qid) (poisoned_qids st') = Some e \<and> pq_created e"
proof -
  let ?P = "\<lambda>e. pq_bdf e = bdf \<and> pq_qid e = qid"
  show found: "\<exists>e. List.find ?P (poisoned_qids st') = Some e \<and> pq_created e"
  proof (cases "(bdf, qid) \<in> set (map poison_key (poisoned_qids st))")
    case True
    then obtain e where "List.find ?P (poisoned_qids st) = Some e"
      by (cases "List.find ?P (poisoned_qids st)") (auto simp: poison_key_def)
    then have "List.find ?P (fst (mark_existing bdf qid (poisoned_qids st))) = Some (e\<lparr>pq_created := True\<rparr>)"
      unfolding mark_existing_def by (subst find_update_first_same) simp_all
    moreover have "poisoned_qids st' = fst (mark_existing bdf qid (poisoned_qids st))"
      using assms(2) True mark_existing_found [of bdf qid "poisoned_qids st"]
      by (cases "mark_existing bdf qid (poisoned_qids st)")
        (auto simp: poisoned_qid_mark_created_def split: bool.splits)
    ultimately show ?thesis by simp
  next
    case False
    with assms mark_existing_found [of bdf qid "poisoned_qids st"] show ?thesis
      by (cases "mark_existing bdf qid (poisoned_qids st)")
        (auto simp: poisoned_qid_mark_created_def mark_insert_cases split: bool.splits)
  qed
  then show "\<exists>e\<in>set (poisoned_qids st'). poison_key e = (bdf, qid) \<and> pq_created e"
    by (force simp: poison_key_def dest: find_Some_set)
qed

lemma mark_deleted_queues:
  assumes "List.find (\<lambda>e. pq_bdf e = bdf \<and> pq_qid e = qid) (poisoned_qids st) = Some e" and "pq_created e"
  shows "resurrect_queued (fst (poisoned_qid_mark_deleted bdf qid st)) \<and>
    (\<exists>e\<in>set (poisoned_qids (fst (poisoned_qid_mark_deleted bdf qid st))).
       poison_key e = (bdf, qid) \<and> pq_needs_resurrect e)"
proof -
  let ?P = "\<lambda>e. pq_bdf e = bdf \<and> pq_qid e = qid"
  let ?f = "\<lambda>e. if pq_created e then e\<lparr>pq_needs_resurrect := True\<rparr> else e"
  have "List.find ?P (fst (update_first ?P ?f (poisoned_qids st))) = Some (e\<lparr>pq_needs_resurrect := True\<rparr>)"
    using assms by (subst find_update_first_same) auto
  moreover have "poisoned_qids (fst (poisoned_qid_mark_deleted bdf qid st)) =
      fst (update_first ?P ?f (poisoned_qids st))" "resurrect_queued (fst (poisoned_qid_mark_deleted bdf qid st))"
    using assms by (simp_all add: poisoned_qid_mark_deleted_def mark_deleted_section_def)
  ultimately show ?thesis by (force simp: poison_key_def dest: find_Some_set)
qed

subsection \<open>Properties\<close>

text \<open>C17. The probe only touches what its block is about: the opcode and the queue id of a command
  never change; an I/O command never changes the tracking of queue ids, even with the opcode
  that CREATE_SQ and WRITE share; an admin command other than the two CREATE commands and an I/O
  command other than READ and WRITE pass unchanged; and with injection off nothing changes.\<close>

theorem inject_frame:
  "case nvme_submit_user_cmd_pre env en arch reg args cmd st of (cmd', st', cs) \<Rightarrow>
     cmd_opcode cmd' = cmd_opcode cmd \<and> cmd_cdw10 cmd' = cmd_cdw10 cmd \<and>
     (\<not> is_admin args \<longrightarrow> st' = st \<and> cs = []) \<and>
     (is_admin args \<and> cmd_opcode cmd \<notin> {0x01, 0x05} \<longrightarrow> cmd' = cmd) \<and>
     (\<not> is_admin args \<and> cmd_opcode cmd \<notin> {0x01, 0x02} \<longrightarrow> cmd' = cmd) \<and>
     (\<not> en \<longrightarrow> cmd' = cmd \<and> st' = st \<and> cs = [])"
proof -
  obtain st1 cs1 where d: "inject_delete reg args cmd st = (st1, cs1)" by fastforce
  obtain cmd1 st2 cs2 where c: "inject_create env reg args cmd st1 = (cmd1, st2, cs2)"
    by (cases "inject_create env reg args cmd st1") auto
  have "\<not> is_admin args \<Longrightarrow> st1 = st \<and> cs1 = [] \<and> cmd1 = cmd \<and> st2 = st1 \<and> cs2 = []"
    using d c inject_delete_other inject_create_other by auto
  moreover have "is_admin args \<and> cmd_opcode cmd \<notin> {0x01, 0x05} \<Longrightarrow> cmd1 = cmd"
    using c inject_create_other by auto
  ultimately show ?thesis
    using inject_create_frame [OF c] d c
    by (auto simp: nvme_submit_user_cmd_pre_def inject_io_def)
qed

theorem inject_frame_witness:
  "case nvme_submit_user_cmd_pre sample_env True True empty_registry
     \<lparr>pa_q = 1, pa_cmd = 2, pa_ubuffer = 0x7000, pa_q_disk = 3\<rparr>
     \<lparr>cmd_opcode = 1, cmd_prp1 = 0x7000, cmd_prp2 = 0, cmd_cdw10 = 3\<rparr> poison_init of
   (cmd', st', cs) \<Rightarrow> st' = poison_init \<and> cs = []"
  using inject_frame [where env = sample_env and en = True and arch = True and reg = empty_registry and
      args = "\<lparr>pa_q = 1, pa_cmd = 2, pa_ubuffer = 0x7000, pa_q_disk = 3\<rparr>" and
      cmd = "\<lparr>cmd_opcode = 1, cmd_prp1 = 0x7000, cmd_prp2 = 0, cmd_cdw10 = 3\<rparr>" and st = poison_init]
  by (simp add: is_admin_def split: prod.splits)


text \<open>
  A registered submission queue of the device 0001:85:00.0 (so of PCI domain 1), and the CREATE_SQ
  and DELETE_CQ commands for its queue id 3.
\<close>

definition sample_queue :: queue_addr_entry where
  "sample_queue = \<lparr>qa_virt_addr = 0x7000, qa_phys_addr = 0x9000, qa_size = 0x1000, qa_queue_type = 0,
     qa_nvme_bdf = 0x18500, qa_prp2 = 0xC000, qa_owner = 0x50\<rparr>"

definition sample_registry :: registry where
  "sample_registry = \<lparr>queue_addrs = [sample_queue], vram_buffers = []\<rparr>"

definition sample_admin_args :: probe_args where
  "sample_admin_args = \<lparr>pa_q = 1, pa_cmd = 2, pa_ubuffer = 0x7000, pa_q_disk = NULL\<rparr>"

definition sample_create_sq :: nvme_command where
  "sample_create_sq = \<lparr>cmd_opcode = 0x01, cmd_prp1 = 0, cmd_prp2 = 0, cmd_cdw10 = 0x3F0003\<rparr>"

definition sample_delete_cq :: nvme_command where
  "sample_delete_cq = \<lparr>cmd_opcode = 0x04, cmd_prp1 = 0, cmd_prp2 = 0, cmd_cdw10 = 3\<rparr>"

lemmas sample_probe_defs = sample_queue_def sample_registry_def sample_admin_args_def
  sample_create_sq_def sample_delete_cq_def qa_covers_def is_admin_def




text \<open>The tracking and the resurrection drop the PCI domain. A queue of a device in another
  domain is tracked under the low half of the address, and its resurrection asks for the device
  with the same bus, device and function in domain 0: if there is none, the queue is skipped
  although its own device is there.\<close>

theorem resurrect_drops_domain:
  assumes "(ucast (lookup_queue_bdf (queue_addrs reg) (pa_ubuffer args)) :: u16) \<noteq> 0" and "kmalloc_ok env"
    and "lookup_queue_phys_addr (queue_addrs reg) (pa_ubuffer args) \<noteq> 0"
    and "is_admin args" and "cmd_opcode cmd \<in> {0x01, 0x05}" and "pa_ubuffer args \<noteq> 0" and "pa_cmd args \<noteq> NULL"
    and "nvme_submit_user_cmd_pre env True True reg args cmd st = (cmd', st', cs)"
    and "pci_get_domain_bus_and_slot env 0 (bdf_bus (lookup_queue_bdf (queue_addrs reg) (pa_ubuffer args)))
      (bdf_devfn (lookup_queue_bdf (queue_addrs reg) (pa_ubuffer args))) = NULL"
  shows "\<exists>pe\<in>set (poisoned_qids st'). pq_created pe \<and> pq_qid pe = queue_id_of cmd \<and>
    resurrect_one env submit ss pe host = (No_device, host, [Kfree Obj_poisoned])"
proof -
  let ?bdf = "lookup_queue_bdf (queue_addrs reg) (pa_ubuffer args)"
  obtain t cs' where mk: "poisoned_qid_mark_created env (ucast ?bdf) (queue_id_of cmd) st = (t, cs')" by fastforce
  have "inject_delete reg args cmd st = (st, [])" using assms(5) by (intro inject_delete_other) auto
  with assms mk have "st' = t" by (auto simp: nvme_submit_user_cmd_pre_def inject_create_def Let_def)
  with mark_created_tracked(1) [OF assms(2) mk] obtain pe where
    pe: "pe \<in> set (poisoned_qids st')" "pq_created pe" "poison_key pe = (ucast ?bdf, queue_id_of cmd)" by blast
  have "(ucast (drop_bit 8 (ucast ?bdf :: u16)) :: u32) AND 0xFF = bdf_bus ?bdf"
    "(ucast (ucast ?bdf :: u16) :: u32) AND 0xFF = bdf_devfn ?bdf"
    by (rule bit_eqI; auto simp: bdf_bit_simps)+
  with pe assms(9) have "resurrect_one env submit ss pe host = (No_device, host, [Kfree Obj_poisoned])"
    by (simp add: resurrect_one_def poison_key_def Let_def)
  with pe show ?thesis by (auto simp: poison_key_def)
qed

text \<open>The environment in which only domain 1 has a device.\<close>

definition domain1_env :: kenv where
  "domain1_env = sample_env\<lparr>pci_get_domain_bus_and_slot := (\<lambda>d b f. if d = 1 then 0x100 else NULL)\<rparr>"

theorem resurrect_drops_domain_witness:
  "pci_lookup domain1_env (qa_nvme_bdf sample_queue) \<noteq> NULL \<and>
   (\<exists>pe\<in>set (poisoned_qids (fst (snd (nvme_submit_user_cmd_pre domain1_env True True sample_registry
       sample_admin_args sample_create_sq poison_init)))).
      resurrect_one domain1_env (\<lambda>q c. 0) [] pe (sample_host 0) = (No_device, sample_host 0, [Kfree Obj_poisoned]))"
proof
  show "pci_lookup domain1_env (qa_nvme_bdf sample_queue) \<noteq> NULL"
    by (simp add: pci_lookup_def domain1_env_def sample_queue_def bdf_defs)
  obtain c1 s1 cs1 where r: "nvme_submit_user_cmd_pre domain1_env True True sample_registry sample_admin_args
      sample_create_sq poison_init = (c1, s1, cs1)" by (metis prod_cases3)
  have "\<exists>pe\<in>set (poisoned_qids s1). pq_created pe \<and> pq_qid pe = queue_id_of sample_create_sq \<and>
      resurrect_one domain1_env (\<lambda>q c. 0) [] pe (sample_host 0) = (No_device, sample_host 0, [Kfree Obj_poisoned])"
    by (rule resurrect_drops_domain [OF _ _ _ _ _ _ _ r])
      (simp_all add: sample_probe_defs lookup_queue_phys_addr_def lookup_queue_bdf_def domain1_env_def)
  then show "\<exists>pe\<in>set (poisoned_qids (fst (snd (nvme_submit_user_cmd_pre domain1_env True True sample_registry
       sample_admin_args sample_create_sq poison_init)))).
      resurrect_one domain1_env (\<lambda>q c. 0) [] pe (sample_host 0) = (No_device, sample_host 0, [Kfree Obj_poisoned])"
    unfolding r fst_conv snd_conv by blast
qed

text \<open>The data pointers of READ and WRITE are replaced exactly below 4 GiB: a pointer in that
  range that exactly one registered buffer covers becomes the address of the buffer plus the
  offset; a pointer at or above 4 GiB is sent as it is, even when a registered buffer covers it.\<close>

theorem inject_io_window:
  assumes "\<not> is_admin args" and "cmd_opcode cmd \<in> {0x01, 0x02}" and "pa_cmd args \<noteq> NULL"
    and "e \<in> set (vram_buffers reg)" and "vb_covers e (cmd_prp1 cmd)"
    and "list_all (\<lambda>d. d = e \<or> \<not> vb_covers d (cmd_prp1 cmd)) (vram_buffers reg)"
    and "vb_phys_addr e + (cmd_prp1 cmd - vb_virt_addr e) \<noteq> 0" and "cmd_prp1 cmd \<noteq> 0"
    and "nvme_submit_user_cmd_pre env True True reg args cmd st = (cmd', st', cs)"
  shows "cmd_prp1 cmd' = (if cmd_prp1 cmd < 0x100000000
      then vb_phys_addr e + (cmd_prp1 cmd - vb_virt_addr e) else cmd_prp1 cmd)"
proof -
  have "lookup_buffer_phys_addr env (vram_buffers reg) (cmd_prp1 cmd) =
      vb_phys_addr e + (cmd_prp1 cmd - vb_virt_addr e)"
    using bphys.lookup_unique [OF assms(4,5,7,6), of env "[]"] by simp
  then have "inject_prp env reg (cmd_prp1 cmd) = (if cmd_prp1 cmd < 0x100000000
      then vb_phys_addr e + (cmd_prp1 cmd - vb_virt_addr e) else cmd_prp1 cmd)"
    using assms(7,8) by (simp add: inject_prp_def)
  moreover have "inject_delete reg args cmd st = (st, [])" "inject_create env reg args cmd st = (cmd, st, [])"
    using assms(1) by (auto intro: inject_delete_other inject_create_other)
  ultimately show ?thesis
    using assms(1,2,3,9) by (auto simp: nvme_submit_user_cmd_pre_def inject_io_def)
qed

definition sample_buffers :: "u64 \<Rightarrow> registry" where
  "sample_buffers v = \<lparr>queue_addrs = [], vram_buffers = [\<lparr>vb_virt_addr = v, vb_phys_addr = 0xA0000,
     vb_size = 0x10000, vb_owner = 0x50, vb_dmabuf = NULL, vb_attach = NULL, vb_sgt = NULL,
     vb_nvme_pdev = NULL, vb_is_passthrough = False\<rparr>]\<rparr>"

theorem inject_io_window_witness:
  "cmd_prp1 (fst (nvme_submit_user_cmd_pre sample_env True True (sample_buffers 0x7F0000000000)
     \<lparr>pa_q = 1, pa_cmd = 2, pa_ubuffer = 0, pa_q_disk = 3\<rparr>
     \<lparr>cmd_opcode = 2, cmd_prp1 = 0x7F0000000010, cmd_prp2 = 0, cmd_cdw10 = 0\<rparr> poison_init)) = 0x7F0000000010"
proof (cases "nvme_submit_user_cmd_pre sample_env True True (sample_buffers 0x7F0000000000)
     \<lparr>pa_q = 1, pa_cmd = 2, pa_ubuffer = 0, pa_q_disk = 3\<rparr>
     \<lparr>cmd_opcode = 2, cmd_prp1 = 0x7F0000000010, cmd_prp2 = 0, cmd_cdw10 = 0\<rparr> poison_init")
  case (fields cmd' st' cs)
  from inject_io_window [OF _ _ _ _ _ _ _ _ fields, of "hd (vram_buffers (sample_buffers 0x7F0000000000))"]
  show ?thesis using fields by (simp add: sample_buffers_def is_admin_def vb_covers_def)
qed

end
