(* ===== verification/Kernel_Contig.thy ===== *)
theory Kernel_Contig
  imports Kernel_Dmabuf
begin

text \<open>
  Physically contiguous queue memory (\<^verbatim>\<open>kernel/rocm-xio/rocm-xio.c\<close>): allocation, the mapping
  into user space, and the reference count that keeps the memory alive while it is listed or
  mapped. Objects live in a heap; an operation that reads an object that is not there is a use
  after free and has the value \<open>None\<close>. Every handler is composed of its critical sections, and
  the relation \<open>contig_step\<close> interleaves these sections as threads do.
\<close>

subsection \<open>State\<close>

record contig_alloc_entry =
  ca_cpu_addr :: u64
  ca_dma_addr :: u64
  ca_size :: u64
  ca_id :: u32
  ca_pdev :: ptr
  ca_owner :: ptr
  ca_ref :: nat

text \<open>\<open>contig_vmas\<close> lists, for each mapping in user space, its \<^verbatim>\<open>vm_private_data\<close>.\<close>

record contig_state =
  ca_heap :: "ptr \<rightharpoonup> contig_alloc_entry"
  contig_allocs :: "ptr list"
  contig_alloc_next_id :: u32
  contig_vmas :: "ptr list"

record vm_area =
  vm_start :: u64
  vm_end :: u64
  vm_pgoff :: u64
  vm_file :: ptr

definition contig_init :: contig_state where
  "contig_init = \<lparr>ca_heap = Map.empty, contig_allocs = [], contig_alloc_next_id = 1,
     contig_vmas = []\<rparr>"

subsection \<open>Reference counts\<close>

definition contig_alloc_release :: "ptr \<Rightarrow> contig_alloc_entry \<Rightarrow> contig_state \<Rightarrow> contig_state \<times> kcall list" where
  "contig_alloc_release p ca st =
     (st\<lparr>ca_heap := (ca_heap st)(p := None)\<rparr>,
      [Dma_free (ca_pdev ca) (ca_size ca) (ca_cpu_addr ca) (ca_dma_addr ca),
       Pci_dev_put (ca_pdev ca), Kfree Obj_contig])"

definition ca_kref_get :: "ptr \<Rightarrow> contig_state \<Rightarrow> contig_state option" where
  "ca_kref_get p st =
     (case ca_heap st p of
        None \<Rightarrow> None
      | Some ca \<Rightarrow> Some (st\<lparr>ca_heap := (ca_heap st)(p \<mapsto> ca\<lparr>ca_ref := ca_ref ca + 1\<rparr>)\<rparr>))"

definition ca_kref_put :: "ptr \<Rightarrow> contig_state \<Rightarrow> (contig_state \<times> kcall list) option" where
  "ca_kref_put p st =
     (case ca_heap st p of
        None \<Rightarrow> None
      | Some ca \<Rightarrow>
          if ca_ref ca \<le> 1 then Some (contig_alloc_release p ca st)
          else Some (st\<lparr>ca_heap := (ca_heap st)(p \<mapsto> ca\<lparr>ca_ref := ca_ref ca - 1\<rparr>)\<rparr>, []))"

fun ca_kref_puts :: "ptr list \<Rightarrow> contig_state \<Rightarrow> (contig_state \<times> kcall list) option" where
  "ca_kref_puts [] st = Some (st, [])"
| "ca_kref_puts (p # ps) st =
     (case ca_kref_put p st of
        None \<Rightarrow> None
      | Some (st', cs) \<Rightarrow>
         (case ca_kref_puts ps st' of
            None \<Rightarrow> None
          | Some (st'', ds) \<Rightarrow> Some (st'', cs @ ds)))"

text \<open>A walk over the list reads every object up to the first match.\<close>

fun ca_scan :: "(ptr \<rightharpoonup> contig_alloc_entry) \<Rightarrow> (contig_alloc_entry \<Rightarrow> bool) \<Rightarrow> ptr list \<Rightarrow> ptr option option" where
  "ca_scan h P [] = Some None"
| "ca_scan h P (p # ps) =
     (case h p of None \<Rightarrow> None | Some ca \<Rightarrow> if P ca then Some (Some p) else ca_scan h P ps)"

subsection \<open>ROCM_XIO_ALLOC_CONTIG_QUEUE\<close>

definition CONTIG_MAX :: u64 where
  "CONTIG_MAX = 16 * 1024 * 1024"

text \<open>The section under \<^verbatim>\<open>contig_allocs_lock\<close>: the object gets its id and is listed.\<close>

definition contig_alloc_link ::
    "ptr \<Rightarrow> u64 \<Rightarrow> u64 \<Rightarrow> u64 \<Rightarrow> ptr \<Rightarrow> ptr \<Rightarrow> contig_state \<Rightarrow> contig_state" where
  "contig_alloc_link p cpu_addr dma_addr len pdev file st =
     st\<lparr>ca_heap := (ca_heap st)(p \<mapsto>
          \<lparr>ca_cpu_addr = cpu_addr, ca_dma_addr = dma_addr, ca_size = len,
           ca_id = contig_alloc_next_id st, ca_pdev = pdev, ca_owner = file, ca_ref = 1\<rparr>),
        contig_alloc_next_id := contig_alloc_next_id st + 1,
        contig_allocs := p # contig_allocs st\<rparr>"

text \<open>The failed reply: the object is unlisted and freed without looking at its count.\<close>

definition contig_alloc_undo ::
    "ptr \<Rightarrow> u64 \<Rightarrow> u64 \<Rightarrow> u64 \<Rightarrow> ptr \<Rightarrow> contig_state \<Rightarrow> contig_state \<times> kcall list" where
  "contig_alloc_undo p cpu_addr dma_addr len pdev st =
     (st\<lparr>contig_allocs := remove1 p (contig_allocs st), ca_heap := (ca_heap st)(p := None)\<rparr>,
      [Dma_free pdev len cpu_addr dma_addr, Pci_dev_put pdev, Kfree Obj_contig])"

definition ioctl_alloc_contig ::
    "kenv \<Rightarrow> ptr \<Rightarrow> rocm_xio_alloc_contig_req \<Rightarrow> contig_state \<Rightarrow>
     rocm_xio_alloc_contig_req kres \<times> contig_state \<times> kcall list" where
  "ioctl_alloc_contig env file req st =
     (if \<not> copy_from_user_ok env then (Inl EFAULT, st, [])
      else if ac_size req = 0 \<or> ac_size req > CONTIG_MAX then (Inl EINVAL, st, [])
      else let pdev = pci_lookup env (ac_nvme_bdf req) in
      if pdev = NULL then (Inl ENODEV, st, [])
      else case dma_alloc_coherent env pdev (ac_size req) of
        None \<Rightarrow> (Inl ENOMEM, st, [Pci_get pdev, Pci_dev_put pdev])
      | Some (cpu_addr, dma_addr) \<Rightarrow>
         (let acquired = [Pci_get pdev, Dma_alloc pdev (ac_size req) cpu_addr dma_addr]
          in if \<not> kmalloc_ok env
             then (Inl ENOMEM, st, acquired @ [Dma_free pdev (ac_size req) cpu_addr dma_addr,
                                               Pci_dev_put pdev])
             else (let ca = kmalloc_ptr env;
                       st' = contig_alloc_link ca cpu_addr dma_addr (ac_size req) pdev file st
                   in if copy_to_user_ok env
                      then (Inr (req\<lparr>ac_phys_addr := dma_addr,
                                     ac_mmap_offset := contig_alloc_next_id st\<rparr>),
                            st', acquired @ [Kmalloc Obj_contig])
                      else (case contig_alloc_undo ca cpu_addr dma_addr (ac_size req) pdev st' of
                              (st'', cs) \<Rightarrow>
                                (Inl EFAULT, st'', acquired @ [Kmalloc Obj_contig] @ cs)))))"

subsection \<open>ROCM_XIO_FREE_CONTIG_QUEUE\<close>

text \<open>Unlisting under the lock: \<open>Some None\<close> when there is no such entry.\<close>

definition contig_unlink :: "ptr \<Rightarrow> u32 \<Rightarrow> contig_state \<Rightarrow> (ptr \<times> contig_state) option option" where
  "contig_unlink file i st =
     map_option (map_option (\<lambda>p. (p, st\<lparr>contig_allocs := remove1 p (contig_allocs st)\<rparr>)))
       (ca_scan (ca_heap st) (\<lambda>ca. ca_id ca = i \<and> ca_owner ca = file) (contig_allocs st))"

definition ioctl_free_contig ::
    "kenv \<Rightarrow> ptr \<Rightarrow> u32 \<Rightarrow> contig_state \<Rightarrow> (unit kres \<times> contig_state \<times> kcall list) option" where
  "ioctl_free_contig env file mmap_offset st =
     (if \<not> copy_from_user_ok env then Some (Inl EFAULT, st, [])
      else case contig_unlink file mmap_offset st of
        None \<Rightarrow> None
      | Some None \<Rightarrow> Some (Inl ENOENT, st, [])
      | Some (Some (p, st')) \<Rightarrow>
          map_option (\<lambda>(st'', cs). (Inr (), st'', cs)) (ca_kref_put p st'))"

subsection \<open>Mapping\<close>

text \<open>The search of \<^verbatim>\<open>rocm_xio_mmap\<close>, which takes a reference before it drops the lock.\<close>

definition contig_mmap_get :: "ptr \<Rightarrow> u32 \<Rightarrow> contig_state \<Rightarrow> (ptr \<times> contig_state) option option" where
  "contig_mmap_get file i st =
     (case ca_scan (ca_heap st) (\<lambda>ca. ca_id ca = i \<and> ca_owner ca = file) (contig_allocs st) of
        None \<Rightarrow> None
      | Some None \<Rightarrow> Some None
      | Some (Some p) \<Rightarrow> map_option (\<lambda>st'. Some (p, st')) (ca_kref_get p st))"

text \<open>The rest, without the lock: on failure the reference is dropped, on success the mapping has it.\<close>

definition contig_mmap_map ::
    "kenv \<Rightarrow> vm_area \<Rightarrow> ptr \<Rightarrow> contig_state \<Rightarrow> (unit kres \<times> contig_state \<times> kcall list) option" where
  "contig_mmap_map env vma p st =
     (case ca_heap st p of
        None \<Rightarrow> None
      | Some ca \<Rightarrow>
         (let len = vm_end vma - vm_start vma
          in if len > ca_size ca
             then map_option (\<lambda>(st', cs). (Inl EINVAL, st', cs)) (ca_kref_put p st)
             else let call = Dma_mmap_coherent (ca_pdev ca) len (ca_cpu_addr ca) (ca_dma_addr ca) in
             case dma_mmap_coherent env of
               Some e \<Rightarrow> map_option (\<lambda>(st', cs). (Inl e, st', call # cs)) (ca_kref_put p st)
             | None \<Rightarrow> Some (Inr (), st\<lparr>contig_vmas := p # contig_vmas st\<rparr>, [call])))"

definition contig_mmap ::
    "kenv \<Rightarrow> vm_area \<Rightarrow> contig_state \<Rightarrow> (unit kres \<times> contig_state \<times> kcall list) option" where
  "contig_mmap env vma st =
     (case contig_mmap_get (vm_file vma) (ucast (vm_pgoff vma)) st of
        None \<Rightarrow> None
      | Some None \<Rightarrow> Some (Inl ENOENT, st, [])
      | Some (Some (p, st')) \<Rightarrow> contig_mmap_map env vma p st')"

text \<open>Duplicating and closing a mapping; \<open>p\<close> is its \<^verbatim>\<open>vm_private_data\<close>.\<close>

definition contig_vma_open :: "ptr \<Rightarrow> contig_state \<Rightarrow> contig_state option" where
  "contig_vma_open p st =
     map_option (\<lambda>st'. st'\<lparr>contig_vmas := p # contig_vmas st'\<rparr>) (ca_kref_get p st)"

definition contig_vma_close :: "ptr \<Rightarrow> contig_state \<Rightarrow> (contig_state \<times> kcall list) option" where
  "contig_vma_close p st =
     ca_kref_put p (st\<lparr>contig_vmas := remove1 p (contig_vmas st)\<rparr>)"

subsection \<open>Release and exit\<close>

definition contig_owned_by :: "ptr \<Rightarrow> contig_state \<Rightarrow> ptr \<Rightarrow> bool" where
  "contig_owned_by file st p \<longleftrightarrow> (case ca_heap st p of None \<Rightarrow> False | Some ca \<Rightarrow> ca_owner ca = file)"

definition release_contigs :: "ptr \<Rightarrow> contig_state \<Rightarrow> (contig_state \<times> kcall list) option" where
  "release_contigs file st =
     (if list_all (\<lambda>p. ca_heap st p \<noteq> None) (contig_allocs st)
      then ca_kref_puts (rev (filter (contig_owned_by file st) (contig_allocs st)))
             (st\<lparr>contig_allocs := filter (\<lambda>p. \<not> contig_owned_by file st p) (contig_allocs st)\<rparr>)
      else None)"

definition exit_contigs :: "contig_state \<Rightarrow> (contig_state \<times> kcall list) option" where
  "exit_contigs st = ca_kref_puts (rev (contig_allocs st)) (st\<lparr>contig_allocs := []\<rparr>)"

subsection \<open>Interleavings\<close>

text \<open>
  \<open>cc_refs\<close> are the references that operations in progress hold between two of their critical
  sections; \<open>cc_fresh\<close> are the allocations that are listed while their ioctl has not replied
  yet, with the locals of that ioctl.
\<close>

record contig_conc =
  cc_st :: contig_state
  cc_refs :: "ptr list"
  cc_fresh :: "(ptr \<times> u64 \<times> u64 \<times> u64 \<times> ptr) list"

definition contig_conc_init :: contig_conc where
  "contig_conc_init = \<lparr>cc_st = contig_init, cc_refs = [], cc_fresh = []\<rparr>"

text \<open>
  One critical section at a time, of any thread. \<open>may_fail\<close> says whether the reply of an
  allocation can fail. \<^verbatim>\<open>kmalloc\<close> returns memory that is not in use.
\<close>

inductive contig_step :: "bool \<Rightarrow> contig_conc \<Rightarrow> kcall list \<Rightarrow> contig_conc \<Rightarrow> bool"
  for may_fail :: bool where
  cs_link: "ca_heap (cc_st s) p = None \<Longrightarrow>
    contig_step may_fail s [Pci_get pdev, Dma_alloc pdev n c d, Kmalloc Obj_contig]
      (s\<lparr>cc_st := contig_alloc_link p c d n pdev file (cc_st s),
         cc_fresh := (p, c, d, n, pdev) # cc_fresh s\<rparr>)"
| cs_reply: "x \<in> set (cc_fresh s) \<Longrightarrow>
    contig_step may_fail s [] (s\<lparr>cc_fresh := remove1 x (cc_fresh s)\<rparr>)"
| cs_undo: "may_fail \<Longrightarrow> (p, c, d, n, pdev) \<in> set (cc_fresh s) \<Longrightarrow>
    contig_alloc_undo p c d n pdev (cc_st s) = (st', cs) \<Longrightarrow>
    contig_step may_fail s cs
      (s\<lparr>cc_st := st', cc_fresh := remove1 (p, c, d, n, pdev) (cc_fresh s)\<rparr>)"
| cs_unlink: "contig_unlink file i (cc_st s) = Some (Some (p, st')) \<Longrightarrow>
    contig_step may_fail s [] (s\<lparr>cc_st := st', cc_refs := p # cc_refs s\<rparr>)"
| cs_close_file:
   "contig_step may_fail s []
      (s\<lparr>cc_st := (cc_st s)\<lparr>contig_allocs := filter (\<lambda>p. \<not> contig_owned_by file (cc_st s) p)
                               (contig_allocs (cc_st s))\<rparr>,
         cc_refs := rev (filter (contig_owned_by file (cc_st s)) (contig_allocs (cc_st s))) @ cc_refs s\<rparr>)"
| cs_put: "p \<in> set (cc_refs s) \<Longrightarrow> ca_kref_put p (cc_st s) = Some (st', cs) \<Longrightarrow>
    contig_step may_fail s cs (s\<lparr>cc_st := st', cc_refs := remove1 p (cc_refs s)\<rparr>)"
| cs_mmap_get: "contig_mmap_get file i (cc_st s) = Some (Some (p, st')) \<Longrightarrow>
    contig_step may_fail s [] (s\<lparr>cc_st := st', cc_refs := p # cc_refs s\<rparr>)"
| cs_mmap_map: "p \<in> set (cc_refs s) \<Longrightarrow> contig_mmap_map env vma p (cc_st s) = Some (ret, st', cs) \<Longrightarrow>
    contig_step may_fail s cs (s\<lparr>cc_st := st', cc_refs := remove1 p (cc_refs s)\<rparr>)"
| cs_vma_open: "p \<in> set (contig_vmas (cc_st s)) \<Longrightarrow> contig_vma_open p (cc_st s) = Some st' \<Longrightarrow>
    contig_step may_fail s [] (s\<lparr>cc_st := st'\<rparr>)"
| cs_vma_close: "p \<in> set (contig_vmas (cc_st s)) \<Longrightarrow> contig_vma_close p (cc_st s) = Some (st', cs) \<Longrightarrow>
    contig_step may_fail s cs (s\<lparr>cc_st := st'\<rparr>)"

subsection \<open>The reference-count invariant\<close>

primrec ref_of :: "contig_alloc_entry option \<Rightarrow> nat" where
  "ref_of None = 0"
| "ref_of (Some ca) = ca_ref ca"

definition refs_ok :: "ptr multiset \<Rightarrow> (ptr \<rightharpoonup> contig_alloc_entry) \<Rightarrow> bool" where
  "refs_ok H h \<longleftrightarrow> finite (dom h) \<and> (\<forall>p. count H p = ref_of (h p)) \<and>
     (\<forall>p ca. h p = Some ca \<longrightarrow> 0 < ca_ref ca)"

definition holders :: "contig_state \<Rightarrow> ptr multiset" where
  "holders st = mset (contig_allocs st) + mset (contig_vmas st)"

definition contig_inv :: "contig_state \<Rightarrow> bool" where
  "contig_inv st \<longleftrightarrow> refs_ok (holders st) (ca_heap st)"

definition contig_conc_inv :: "contig_conc \<Rightarrow> bool" where
  "contig_conc_inv s \<longleftrightarrow> refs_ok (holders (cc_st s) + mset (cc_refs s)) (ca_heap (cc_st s))"

text \<open>What a live object owns.\<close>

definition ca_res :: "contig_alloc_entry \<Rightarrow> res list" where
  "ca_res ca = [RMem Obj_contig, RCoherent (ca_pdev ca) (ca_size ca) (ca_cpu_addr ca) (ca_dma_addr ca),
     RPci (ca_pdev ca)]"

definition contig_owned :: "contig_state \<Rightarrow> res \<Rightarrow> int" where
  "contig_owned st r = (\<Sum>p\<in>dom (ca_heap st). res_counts (ca_res (the (ca_heap st p))) r)"

lemma refs_okD:
  assumes "refs_ok H h"
  shows "finite (dom h)" "count H p = ref_of (h p)" "h p = Some ca \<Longrightarrow> 0 < ca_ref ca"
  using assms by (auto simp: refs_ok_def)

lemma refs_ok_live:
  assumes "refs_ok H h" and "p \<in># H"
  shows "\<exists>ca. h p = Some ca \<and> ca_ref ca = count H p"
  using assms(2) refs_okD(2) [OF assms(1), of p] by (cases "h p") (simp_all add: not_in_iff [symmetric])

lemma refs_ok_upd:
  assumes "refs_ok H h" and "h p = Some ca"
  shows "refs_ok (add_mset p H) (h(p \<mapsto> ca\<lparr>ca_ref := Suc (ca_ref ca)\<rparr>))"
  using refs_okD [OF assms(1)] assms(2) by (simp add: refs_ok_def)

lemma refs_ok_dec:
  assumes "refs_ok (add_mset p H) h" and "h p = Some ca"
  shows "refs_ok H (if ca_ref ca \<le> 1 then h(p := None) else h(p \<mapsto> ca\<lparr>ca_ref := ca_ref ca - 1\<rparr>))"
proof -
  have ref: "ca_ref ca = Suc (count H p)"
    using refs_okD(2) [OF assms(1), of p] assms(2) by simp
  have "count H q = ref_of (h q)" if "q \<noteq> p" for q
    using refs_okD(2) [OF assms(1), of q] that by simp
  with ref show ?thesis
    using refs_okD(1,3) [OF assms(1)] by (simp add: refs_ok_def)
qed

lemma refs_ok_new:
  assumes "refs_ok H h" and "h p = None" and "ca_ref ca = 1"
  shows "refs_ok (add_mset p H) (h(p \<mapsto> ca))"
  using refs_okD [OF assms(1)] assms(2,3) by (simp add: refs_ok_def)

lemma owned_upd_same:
  assumes "finite (dom h)" and "h p = Some ca" and "ca_res ca' = ca_res ca"
  shows "(\<Sum>q\<in>dom (h(p \<mapsto> ca')). res_counts (ca_res (the ((h(p \<mapsto> ca')) q))) r) =
         (\<Sum>q\<in>dom h. res_counts (ca_res (the (h q))) r)"
proof -
  have "dom (h(p \<mapsto> ca')) = dom h" using assms(2) by auto
  then show ?thesis using assms(2,3) by (intro sum.cong) auto
qed

lemma owned_del:
  assumes "finite (dom h)" and "h p = Some ca"
  shows "(\<Sum>q\<in>dom h. res_counts (ca_res (the (h q))) r) =
         res_counts (ca_res ca) r + (\<Sum>q\<in>dom (h(p := None)). res_counts (ca_res (the ((h(p := None)) q))) r)"
proof -
  have "(\<Sum>q\<in>dom h - {p}. res_counts (ca_res (the (h q))) r) =
        (\<Sum>q\<in>dom (h(p := None)). res_counts (ca_res (the ((h(p := None)) q))) r)"
    by (intro sum.cong) auto
  moreover have "p \<in> dom h" using assms(2) by blast
  ultimately show ?thesis
    using sum.remove [OF assms(1), of p "\<lambda>q. res_counts (ca_res (the (h q))) r"] assms(2)
    by (simp only: option.sel)
qed

lemma kref_get_ok:
  assumes "refs_ok H (ca_heap st)" and "p \<in># H"
  shows "\<exists>ca. ca_heap st p = Some ca \<and> ca_kref_get p st =
      Some (st\<lparr>ca_heap := (ca_heap st)(p \<mapsto> ca\<lparr>ca_ref := Suc (ca_ref ca)\<rparr>)\<rparr>)"
  using refs_ok_live [OF assms] by (auto simp: ca_kref_get_def)

lemma kref_get_SomeD:
  assumes "ca_kref_get p st = Some st'" and "refs_ok H (ca_heap st)"
  shows "refs_ok (add_mset p H) (ca_heap st') \<and> contig_owned st' r = contig_owned st r \<and>
    contig_allocs st' = contig_allocs st \<and> contig_vmas st' = contig_vmas st \<and>
    contig_alloc_next_id st' = contig_alloc_next_id st"
proof -
  from assms(1) obtain ca where ca: "ca_heap st p = Some ca"
    and st': "st' = st\<lparr>ca_heap := (ca_heap st)(p \<mapsto> ca\<lparr>ca_ref := Suc (ca_ref ca)\<rparr>)\<rparr>"
    by (auto simp: ca_kref_get_def split: option.splits)
  moreover have "finite (dom (ca_heap st))" using assms(2) by (simp add: refs_ok_def)
  ultimately show ?thesis
    using refs_ok_upd [OF assms(2) ca]
      owned_upd_same [of "ca_heap st" p ca "ca\<lparr>ca_ref := Suc (ca_ref ca)\<rparr>" r]
    by (simp add: contig_owned_def ca_res_def)
qed

lemma kref_put_ok:
  "refs_ok H (ca_heap st) \<Longrightarrow> p \<in># H \<Longrightarrow> \<exists>st' cs. ca_kref_put p st = Some (st', cs)"
  using refs_ok_live [of H "ca_heap st" p]
  by (cases "ca_heap st p") (auto simp: ca_kref_put_def contig_alloc_release_def)

lemma kref_put_SomeD:
  assumes "ca_kref_put p st = Some (st', cs)" and "refs_ok (add_mset p H) (ca_heap st)"
  shows "refs_ok H (ca_heap st') \<and> held cs r = contig_owned st' r - contig_owned st r \<and>
    contig_allocs st' = contig_allocs st \<and> contig_vmas st' = contig_vmas st \<and>
    contig_alloc_next_id st' = contig_alloc_next_id st"
proof -
  from assms(1) obtain ca where ca: "ca_heap st p = Some ca"
    by (auto simp: ca_kref_put_def split: option.splits)
  have fin: "finite (dom (ca_heap st))" using assms(2) by (simp add: refs_ok_def)
  show ?thesis
  proof (cases "ca_ref ca \<le> 1")
    case True
    with assms(1) ca refs_ok_dec [OF assms(2) ca] owned_del [OF fin ca, of r] show ?thesis
      by (auto simp: ca_kref_put_def contig_alloc_release_def contig_owned_def ca_res_def)
  next
    case False
    with assms(1) ca refs_ok_dec [OF assms(2) ca]
      owned_upd_same [OF fin ca, of "ca\<lparr>ca_ref := ca_ref ca - 1\<rparr>" r] show ?thesis
      by (auto simp: ca_kref_put_def contig_owned_def ca_res_def)
  qed
qed

lemma link_ok:
  assumes "refs_ok H (ca_heap st)" and "ca_heap st p = None"
  shows "refs_ok (add_mset p H) (ca_heap (contig_alloc_link p c d n pdev file st)) \<and>
    contig_owned (contig_alloc_link p c d n pdev file st) r =
      contig_owned st r + held [Pci_get pdev, Dma_alloc pdev n c d, Kmalloc Obj_contig] r"
proof -
  define ca where "ca = \<lparr>ca_cpu_addr = c, ca_dma_addr = d, ca_size = n,
    ca_id = contig_alloc_next_id st, ca_pdev = pdev, ca_owner = file, ca_ref = 1\<rparr>"
  have heap: "ca_heap (contig_alloc_link p c d n pdev file st) = (ca_heap st)(p \<mapsto> ca)"
    by (simp add: contig_alloc_link_def ca_def)
  have "finite (dom ((ca_heap st)(p \<mapsto> ca)))" using assms(1) by (simp add: refs_ok_def)
  moreover have "((ca_heap st)(p \<mapsto> ca))(p := None) = ca_heap st" using assms(2) by auto
  ultimately have "contig_owned (contig_alloc_link p c d n pdev file st) r =
      res_counts (ca_res ca) r + contig_owned st r"
    using owned_del [of "(ca_heap st)(p \<mapsto> ca)" p ca r] by (simp add: contig_owned_def heap)
  with refs_ok_new [OF assms, of ca] heap show ?thesis by (simp add: ca_def ca_res_def)
qed

subsection \<open>Critical sections keep the invariant\<close>

lemma ca_scan_SomeD:
  "ca_scan h P ps = Some (Some p) \<Longrightarrow> p \<in> set ps \<and> (\<exists>ca. h p = Some ca \<and> P ca)"
  by (induction ps) (auto split: option.splits if_splits)

lemma ca_scan_live: "list_all (\<lambda>p. h p \<noteq> None) ps \<Longrightarrow> \<exists>x. ca_scan h P ps = Some x"
  by (induction ps) auto

lemma contig_unlink_SomeD:
  assumes "contig_unlink file i st = Some (Some (p, st'))" and "refs_ok (holders st + R) (ca_heap st)"
  shows "refs_ok (add_mset p (holders st' + R)) (ca_heap st') \<and> contig_owned st' r = contig_owned st r \<and>
    contig_vmas st' = contig_vmas st"
proof -
  from assms(1) have "p \<in> set (contig_allocs st)"
    and st': "st' = st\<lparr>contig_allocs := remove1 p (contig_allocs st)\<rparr>"
    using ca_scan_SomeD by (fastforce simp: contig_unlink_def)+
  then have "holders st + R = add_mset p (holders st' + R)" by (simp add: holders_def)
  with assms(2) have "refs_ok (add_mset p (holders st' + R)) (ca_heap st)" by (simp only:)
  then show ?thesis by (simp add: st' contig_owned_def)
qed

lemma contig_mmap_get_SomeD:
  assumes "contig_mmap_get file i st = Some (Some (p, st'))" and "refs_ok H (ca_heap st)"
  shows "refs_ok (add_mset p H) (ca_heap st') \<and> holders st' = holders st \<and>
    contig_owned st' r = contig_owned st r"
proof -
  from assms(1) have "ca_kref_get p st = Some st'"
    by (auto simp: contig_mmap_get_def split: option.splits)
  with kref_get_SomeD [OF this assms(2), of r] show ?thesis by (simp add: holders_def)
qed

lemma contig_mmap_map_SomeD:
  assumes "contig_mmap_map env vma p st = Some (ret, st', cs)"
    and "refs_ok (add_mset p (holders st + R)) (ca_heap st)"
  shows "refs_ok (holders st' + R) (ca_heap st') \<and> held cs r = contig_owned st' r - contig_owned st r"
proof -
  from assms(1) obtain ca where ca: "ca_heap st p = Some ca"
    by (auto simp: contig_mmap_map_def split: option.splits)
  consider ds where "ca_kref_put p st = Some (st', ds)" "held cs r = held ds r"
    | "st' = st\<lparr>contig_vmas := p # contig_vmas st\<rparr>" "held cs r = 0"
    using assms(1) ca by (auto simp: contig_mmap_map_def Let_def split: if_splits option.splits)
  then show ?thesis
  proof cases
    case 1
    with kref_put_SomeD [OF 1(1) assms(2), of r] show ?thesis by (simp add: holders_def)
  next
    case 2
    with assms(2) show ?thesis by (simp add: holders_def contig_owned_def)
  qed
qed

lemma contig_vma_open_SomeD:
  assumes "contig_vma_open p st = Some st'" and "refs_ok (holders st + R) (ca_heap st)"
  shows "refs_ok (holders st' + R) (ca_heap st') \<and> contig_owned st' r = contig_owned st r"
proof -
  from assms(1) obtain st1 where st1: "ca_kref_get p st = Some st1"
    and "st' = st1\<lparr>contig_vmas := p # contig_vmas st1\<rparr>"
    by (auto simp: contig_vma_open_def)
  with kref_get_SomeD [OF st1 assms(2), of r] show ?thesis
    by (simp add: holders_def contig_owned_def)
qed

lemma contig_vma_close_SomeD:
  assumes "contig_vma_close p st = Some (st', cs)" and "p \<in> set (contig_vmas st)"
    and "refs_ok (holders st + R) (ca_heap st)"
  shows "refs_ok (holders st' + R) (ca_heap st') \<and> held cs r = contig_owned st' r - contig_owned st r"
proof -
  let ?st = "st\<lparr>contig_vmas := remove1 p (contig_vmas st)\<rparr>"
  have "holders st = add_mset p (holders ?st)" using assms(2) by (simp add: holders_def)
  with assms(3) have "refs_ok (add_mset p (holders ?st + R)) (ca_heap ?st)" by simp
  from kref_put_SomeD [OF _ this, of st' cs r] assms(1) show ?thesis
    by (simp add: contig_vma_close_def holders_def contig_owned_def)
qed

lemma mset_rev_filter_partition:
  "mset xs = mset (filter (\<lambda>x. \<not> P x) xs) + mset (rev (filter P xs))"
  using mset_filter_partition [of P xs] by (simp add: add.commute)

lemma holders_partition:
  "holders st = holders (st\<lparr>contig_allocs := filter (\<lambda>p. \<not> P p) (contig_allocs st)\<rparr>) +
     mset (rev (filter P (contig_allocs st)))"
  unfolding holders_def
  by (subst mset_rev_filter_partition [of _ P]) (simp add: ac_simps)

lemma contig_conc_inv_init: "contig_conc_inv contig_conc_init"
  by (simp add: contig_conc_inv_def contig_conc_init_def contig_init_def holders_def refs_ok_def)

lemma contig_step_ok:
  assumes "contig_step False s cs t" and "contig_conc_inv s"
  shows "contig_conc_inv t \<and> held cs r = contig_owned (cc_st t) r - contig_owned (cc_st s) r"
  using assms
proof (induction rule: contig_step.induct)
  case (cs_link s p pdev n c d f)
  with link_ok [of _ "cc_st s" p c d n pdev f r] show ?case
    by (auto simp: contig_conc_inv_def holders_def contig_alloc_link_def)
next
  case (cs_unlink f i s p st')
  with contig_unlink_SomeD [OF cs_unlink(1), of _ r] show ?case
    by (simp add: contig_conc_inv_def)
next
  case (cs_close_file s f)
  let ?st = "(cc_st s)\<lparr>contig_allocs := filter (\<lambda>p. \<not> contig_owned_by f (cc_st s) p)
    (contig_allocs (cc_st s))\<rparr>"
  have "holders (cc_st s) + mset (cc_refs s) = holders ?st +
      mset (rev (filter (contig_owned_by f (cc_st s)) (contig_allocs (cc_st s))) @ cc_refs s)"
    by (subst holders_partition [of _ "contig_owned_by f (cc_st s)"]) simp
  with cs_close_file show ?case
    unfolding contig_conc_inv_def contig_owned_def by (simp only: contig_conc.simps contig_state.simps) simp
next
  case (cs_put p s st' cs)
  then have "refs_ok (add_mset p (holders (cc_st s) + mset (remove1 p (cc_refs s))))
      (ca_heap (cc_st s))" by (simp add: contig_conc_inv_def)
  from kref_put_SomeD [OF cs_put(2) this, of r] show ?case
    by (simp add: contig_conc_inv_def holders_def)
next
  case (cs_mmap_get f i s p st')
  with contig_mmap_get_SomeD [OF cs_mmap_get(1), of _ r] show ?case
    by (auto simp: contig_conc_inv_def)
next
  case (cs_mmap_map p s env vma ret st' cs)
  then have "refs_ok (add_mset p (holders (cc_st s) + mset (remove1 p (cc_refs s))))
      (ca_heap (cc_st s))" by (simp add: contig_conc_inv_def)
  from contig_mmap_map_SomeD [OF cs_mmap_map(2) this, of r] show ?case
    by (simp add: contig_conc_inv_def)
next
  case (cs_vma_open p s st')
  with contig_vma_open_SomeD [OF cs_vma_open(2), of _ r] show ?case
    by (simp add: contig_conc_inv_def)
next
  case (cs_vma_close p s st' cs)
  with contig_vma_close_SomeD [OF cs_vma_close(2,1), of _ r] show ?case
    by (simp add: contig_conc_inv_def)
qed (simp_all add: contig_conc_inv_def)

interpretation ccon: resource_accounting "contig_step False" contig_conc_inv "\<lambda>s. contig_owned (cc_st s)"
  by unfold_locales (rule contig_step_ok [THEN conjunct1] contig_step_ok [THEN conjunct2]; assumption)+

subsection \<open>Whole handlers keep the invariant and never touch freed memory\<close>

lemma contig_inv_iff: "contig_inv st \<longleftrightarrow> refs_ok (holders st + {#}) (ca_heap st)"
  by (simp add: contig_inv_def)

lemma contig_inv_live:
  assumes "contig_inv st"
  shows "list_all (\<lambda>p. ca_heap st p \<noteq> None) (contig_allocs st)"
  using refs_ok_live [of "holders st" "ca_heap st"] assms
  by (fastforce simp: contig_inv_def list_all_iff holders_def)

lemma kref_puts_ok:
  assumes "refs_ok (mset ps + H) (ca_heap st)"
  shows "\<exists>st' cs. ca_kref_puts ps st = Some (st', cs) \<and> refs_ok H (ca_heap st') \<and>
    contig_allocs st' = contig_allocs st \<and> contig_vmas st' = contig_vmas st \<and>
    (\<forall>r. held cs r = contig_owned st' r - contig_owned st r)"
  using assms
proof (induction ps arbitrary: st)
  case Nil
  then show ?case by simp
next
  case (Cons p ps)
  then have ok: "refs_ok (add_mset p (mset ps + H)) (ca_heap st)" by simp
  from kref_put_ok [OF ok, of p] obtain st1 cs where put: "ca_kref_put p st = Some (st1, cs)"
    by auto
  note d = kref_put_SomeD [OF put ok]
  from Cons.IH [of st1] d obtain st' ds where
    "ca_kref_puts ps st1 = Some (st', ds)" "refs_ok H (ca_heap st')"
    "contig_allocs st' = contig_allocs st1" "contig_vmas st' = contig_vmas st1"
    "\<forall>r. held ds r = contig_owned st' r - contig_owned st1 r" by blast
  with put d show ?case by simp
qed

text \<open>An allocation fails early, fails with the object linked and unlinked again, or links one object.\<close>

lemma alloc_contig_cases:
  assumes "ioctl_alloc_contig env f req st = (ret, st', cs)"
  defines "p \<equiv> kmalloc_ptr env"
  obtains (err) "st' = st" "\<And>r. held cs r = 0"
  | (undo) c d n v where "st' = fst (contig_alloc_undo p c d n v (contig_alloc_link p c d n v f st))"
      "\<And>r. held cs r = 0"
  | (linked) c d n v where "st' = contig_alloc_link p c d n v f st"
      "\<And>r. held cs r = held [Pci_get v, Dma_alloc v n c d, Kmalloc Obj_contig] r"
proof (cases "copy_from_user_ok env \<and> \<not> (ac_size req = 0 \<or> ac_size req > CONTIG_MAX) \<and>
    pci_lookup env (ac_nvme_bdf req) \<noteq> NULL")
  case False
  with assms show thesis
    by (intro err) (auto simp: ioctl_alloc_contig_def Let_def split: if_splits)
next
  case True
  let ?v = "pci_lookup env (ac_nvme_bdf req)"
  note eq = assms(1) [unfolded ioctl_alloc_contig_def Let_def]
  show thesis
  proof (cases "dma_alloc_coherent env ?v (ac_size req)")
    case None
    with True eq show thesis by (intro err) auto
  next
    case (Some cd)
    obtain c d where cd: "cd = (c, d)" by fastforce
    consider "\<not> kmalloc_ok env" | "kmalloc_ok env" "\<not> copy_to_user_ok env"
      | "kmalloc_ok env" "copy_to_user_ok env" by blast
    then show thesis
    proof cases
      case 1
      with True Some cd eq show thesis by (intro err) auto
    next
      case 2
      with True Some cd eq show thesis
        by (intro undo [of c d "ac_size req" ?v]) (auto simp: p_def contig_alloc_undo_def)
    next
      case 3
      with True Some cd eq show thesis
        by (intro linked [of c d "ac_size req" ?v]) (auto simp: p_def)
    qed
  qed
qed

lemma alloc_contig_ok:
  assumes "contig_inv st" and "ca_heap st (kmalloc_ptr env) = None"
    and "ioctl_alloc_contig env file req st = (ret, st', cs)"
  shows "contig_inv st' \<and> held cs r = contig_owned st' r - contig_owned st r \<and>
    contig_vmas st' = contig_vmas st"
proof -
  let ?p = "kmalloc_ptr env"
  have undo_simps: "ca_heap (fst (contig_alloc_undo ?p c d n v (contig_alloc_link ?p c d n v f st))) = ca_heap st"
    "contig_allocs (fst (contig_alloc_undo ?p c d n v (contig_alloc_link ?p c d n v f st))) = contig_allocs st"
    "contig_vmas (fst (contig_alloc_undo ?p c d n v (contig_alloc_link ?p c d n v f st))) = contig_vmas st"
    for c d n v f
    using assms(2) by (auto simp: contig_alloc_undo_def contig_alloc_link_def)
  have link: "contig_inv (contig_alloc_link ?p c d n v f st)" for c d n v f
    using link_ok [of "holders st" st ?p c d n v f] assms(1,2)
    by (simp add: contig_inv_def holders_def contig_alloc_link_def)
  from assms(3) show ?thesis
  proof (cases rule: alloc_contig_cases)
    case err
    with assms(1) show ?thesis by simp
  next
    case (undo c d n v)
    with undo_simps assms(1) show ?thesis by (simp add: contig_inv_def holders_def contig_owned_def)
  next
    case (linked c d n v)
    with link link_ok [of "holders st" st ?p c d n v "file" r] assms(1,2) show ?thesis
      by (simp add: contig_inv_def contig_alloc_link_def)
  qed
qed

lemma free_contig_ok:
  assumes "contig_inv st"
  shows "\<exists>ret st' cs. ioctl_free_contig env file i st = Some (ret, st', cs) \<and> contig_inv st' \<and>
    contig_vmas st' = contig_vmas st \<and> (\<forall>r. held cs r = contig_owned st' r - contig_owned st r)"
proof (cases "contig_unlink file i st")
  case None
  moreover obtain x where "ca_scan (ca_heap st) (\<lambda>ca. ca_id ca = i \<and> ca_owner ca = file)
      (contig_allocs st) = Some x"
    using ca_scan_live [OF contig_inv_live [OF assms]] by blast
  ultimately show ?thesis by (simp add: contig_unlink_def)
next
  case (Some x)
  show ?thesis
  proof (cases x)
    case None
    with Some assms show ?thesis by (simp add: ioctl_free_contig_def)
  next
    case (Some y)
    then obtain p st1 where x: "contig_unlink file i st = Some (Some (p, st1))"
      using \<open>contig_unlink file i st = Some x\<close> by (cases y) simp
    note u = contig_unlink_SomeD [OF x assms [unfolded contig_inv_iff]]
    then have ok: "refs_ok (add_mset p (holders st1)) (ca_heap st1)" by simp
    from kref_put_ok [OF ok, of p] obtain st' cs where put: "ca_kref_put p st1 = Some (st', cs)" by auto
    with x u kref_put_SomeD [OF put ok] assms show ?thesis
      by (simp add: ioctl_free_contig_def contig_inv_def holders_def contig_owned_def)
  qed
qed

lemma contig_mmap_map_total:
  assumes "refs_ok (add_mset p H) (ca_heap st)"
  shows "\<exists>ret st' cs. contig_mmap_map env vma p st = Some (ret, st', cs)"
proof -
  from refs_ok_live [OF assms, of p] obtain ca where ca: "ca_heap st p = Some ca" by auto
  from kref_put_ok [OF assms, of p] obtain st' cs where "ca_kref_put p st = Some (st', cs)" by auto
  with ca show ?thesis by (simp add: contig_mmap_map_def Let_def split: option.split)
qed

lemma contig_mmap_ok:
  assumes "contig_inv st"
  shows "\<exists>ret st' cs. contig_mmap env vma st = Some (ret, st', cs) \<and> contig_inv st' \<and>
    (\<forall>r. held cs r = contig_owned st' r - contig_owned st r)"
proof -
  let ?g = "contig_mmap_get (vm_file vma) (ucast (vm_pgoff vma)) st"
  obtain x where x: "ca_scan (ca_heap st)
      (\<lambda>ca. ca_id ca = ucast (vm_pgoff vma) \<and> ca_owner ca = vm_file vma) (contig_allocs st) = Some x"
    using ca_scan_live [OF contig_inv_live [OF assms]] by blast
  show ?thesis
  proof (cases x)
    case None
    with x assms show ?thesis by (simp add: contig_mmap_def contig_mmap_get_def)
  next
    case (Some p)
    with x have "p \<in># holders st" by (auto dest: ca_scan_SomeD simp: holders_def)
    with kref_get_ok [of "holders st" st p] assms obtain st1 where "ca_kref_get p st = Some st1"
      by (auto simp: contig_inv_def)
    with x Some have get: "?g = Some (Some (p, st1))" by (simp add: contig_mmap_get_def)
    note g = contig_mmap_get_SomeD [OF get, of "holders st"]
    then have ok: "refs_ok (add_mset p (holders st1 + {#})) (ca_heap st1)"
      using assms by (simp add: contig_inv_def)
    from contig_mmap_map_total [OF ok] obtain ret st' cs where
      m: "contig_mmap_map env vma p st1 = Some (ret, st', cs)" by blast
    with get g contig_mmap_map_SomeD [OF m ok] assms show ?thesis
      by (simp add: contig_mmap_def contig_inv_def)
  qed
qed

lemma contig_vma_open_ok:
  assumes "contig_inv st" and "p \<in> set (contig_vmas st)"
  shows "\<exists>st'. contig_vma_open p st = Some st' \<and> contig_inv st' \<and>
    (\<forall>r. contig_owned st' r = contig_owned st r)"
proof -
  from assms kref_get_ok [of "holders st" st p] obtain st' where o: "contig_vma_open p st = Some st'"
    by (auto simp: contig_inv_def holders_def contig_vma_open_def)
  with contig_vma_open_SomeD [OF o, of "{#}"] assms(1) show ?thesis by (simp add: contig_inv_def)
qed

lemma contig_vma_close_ok:
  assumes "contig_inv st" and "p \<in> set (contig_vmas st)"
  shows "\<exists>st' cs. contig_vma_close p st = Some (st', cs) \<and> contig_inv st' \<and>
    (\<forall>r. held cs r = contig_owned st' r - contig_owned st r)"
proof -
  from assms kref_put_ok [of "holders st" "st\<lparr>contig_vmas := remove1 p (contig_vmas st)\<rparr>" p]
  obtain st' cs where c: "contig_vma_close p st = Some (st', cs)"
    by (auto simp: contig_inv_def holders_def contig_vma_close_def)
  with contig_vma_close_SomeD [OF c assms(2), of "{#}"] assms(1) show ?thesis
    by (simp add: contig_inv_def)
qed

lemma release_contigs_ok:
  assumes "contig_inv st"
  shows "\<exists>st' cs. release_contigs file st = Some (st', cs) \<and> contig_inv st' \<and>
    contig_allocs st' = filter (\<lambda>p. \<not> contig_owned_by file st p) (contig_allocs st) \<and>
    contig_vmas st' = contig_vmas st \<and>
    (\<forall>r. held cs r = contig_owned st' r - contig_owned st r)"
proof -
  let ?ps = "rev (filter (contig_owned_by file st) (contig_allocs st))"
  let ?st = "st\<lparr>contig_allocs := filter (\<lambda>p. \<not> contig_owned_by file st p) (contig_allocs st)\<rparr>"
  from assms have "refs_ok (mset ?ps + holders ?st) (ca_heap st)"
    unfolding contig_inv_def by (subst (asm) holders_partition [of _ "contig_owned_by file st"])
      (simp only: add.commute)
  then have "refs_ok (mset ?ps + holders ?st) (ca_heap ?st)" by simp
  from kref_puts_ok [OF this] contig_inv_live [OF assms] show ?thesis
    by (auto simp: release_contigs_def contig_inv_def holders_def contig_owned_def)
qed

lemma exit_contigs_ok:
  assumes "contig_inv st"
  shows "\<exists>st' cs. exit_contigs st = Some (st', cs) \<and> contig_inv st' \<and> contig_allocs st' = [] \<and>
    contig_vmas st' = contig_vmas st \<and>
    (\<forall>r. held cs r = contig_owned st' r - contig_owned st r)"
proof -
  have "refs_ok (mset (rev (contig_allocs st)) + mset (contig_vmas st))
      (ca_heap (st\<lparr>contig_allocs := []\<rparr>))"
    using assms by (simp add: contig_inv_def holders_def)
  from kref_puts_ok [OF this] show ?thesis
    by (auto simp: exit_contigs_def contig_inv_def holders_def contig_owned_def)
qed

text \<open>With nothing listed and nothing mapped, nothing is owned.\<close>

lemma contig_owned_none:
  assumes "refs_ok {#} (ca_heap st)"
  shows "contig_owned st r = 0"
proof -
  have "ca_heap st p = None" for p
    using refs_okD(2) [OF assms, of p] refs_okD(3) [OF assms, of p] by (cases "ca_heap st p") auto
  then have "dom (ca_heap st) = {}" by (auto simp: dom_def)
  then show ?thesis by (simp add: contig_owned_def)
qed

subsection \<open>Properties\<close>

lemma count_holders:
  "count (holders st + mset R) p =
     count_list (contig_allocs st) p + count_list (contig_vmas st) p + count_list R p"
  by (simp add: holders_def count_mset)


text \<open>The state after one allocation by the file 0x50, used as a concrete starting point.\<close>

definition sample_conc :: contig_conc where
  "sample_conc = contig_conc_init\<lparr>
     cc_st := contig_alloc_link 0x1000 0xA000 0xB000 0x2000 0x100 0x50 contig_init,
     cc_fresh := [(0x1000, 0xA000, 0xB000, 0x2000, 0x100)]\<rparr>"

lemma sample_conc_run:
  "runs (contig_step b) contig_conc_init
     [Pci_get 0x100, Dma_alloc 0x100 0x2000 0xA000 0xB000, Kmalloc Obj_contig] sample_conc"
  using runs_step [OF runs_refl, of "contig_step b" contig_conc_init
      "[Pci_get 0x100, Dma_alloc 0x100 0x2000 0xA000 0xB000, Kmalloc Obj_contig]" sample_conc]
    cs_link [of contig_conc_init "0x1000" b "0x100" "0x2000" "0xA000" "0xB000" "0x50"]
  by (simp add: sample_conc_def contig_conc_init_def contig_init_def)


lemma alloc_freed_before_reply:
  "\<exists>cs s x. runs (contig_step False) contig_conc_init cs s \<and> x \<in> set (cc_fresh s) \<and>
     ca_heap (cc_st s) (fst x) = None"
proof -
  let ?x = "(0x1000, 0xA000, 0xB000, 0x2000, 0x100) :: ptr \<times> u64 \<times> u64 \<times> u64 \<times> ptr"
  let ?free = "[Dma_free 0x100 0x2000 0xA000 0xB000, Pci_dev_put 0x100, Kfree Obj_contig]"
  define s1 where "s1 = sample_conc\<lparr>cc_st := (cc_st sample_conc)\<lparr>contig_allocs := []\<rparr>, cc_refs := [0x1000]\<rparr>"
  define s2 where "s2 = s1\<lparr>cc_st := (cc_st s1)\<lparr>ca_heap := Map.empty\<rparr>, cc_refs := []\<rparr>"
  have "contig_step False sample_conc [] s1"
    using cs_unlink [of "0x50" 1 sample_conc "0x1000" "cc_st s1" False]
    by (simp add: s1_def sample_conc_def contig_unlink_def contig_alloc_link_def contig_conc_init_def
        contig_init_def)
  moreover have "contig_step False s1 ?free s2"
    using cs_put [of "0x1000" s1 "cc_st s2" ?free False]
    by (simp add: s1_def s2_def sample_conc_def ca_kref_put_def contig_alloc_release_def
        contig_alloc_link_def contig_conc_init_def contig_init_def)
  ultimately have "\<exists>cs. runs (contig_step False) contig_conc_init cs s2"
    by (meson sample_conc_run runs_step)
  moreover have "?x \<in> set (cc_fresh s2)" "ca_heap (cc_st s2) (fst ?x) = None"
    by (simp_all add: s1_def s2_def sample_conc_def)
  ultimately show ?thesis by blast
qed

lemma alloc_undone_under_mapping:
  "\<exists>cs s p. runs (contig_step True) contig_conc_init cs s \<and> p \<in> set (contig_vmas (cc_st s)) \<and>
     contig_vma_close p (cc_st s) = None"
proof -
  let ?free = "[Dma_free 0x100 0x2000 0xA000 0xB000, Pci_dev_put 0x100, Kfree Obj_contig]"
  define vma where "vma = \<lparr>vm_start = 0x10000, vm_end = 0x12000, vm_pgoff = 1, vm_file = 0x50\<rparr>"
  obtain t1 where t1: "ca_kref_get 0x1000 (cc_st sample_conc) = Some t1"
    by (simp add: ca_kref_get_def sample_conc_def contig_alloc_link_def)
  define s3 where "s3 = sample_conc\<lparr>cc_st := t1, cc_refs := [0x1000]\<rparr>"
  define s4 where "s4 = s3\<lparr>cc_st := t1\<lparr>contig_vmas := [0x1000]\<rparr>, cc_refs := []\<rparr>"
  define s5 where "s5 = s4\<lparr>cc_st := fst (contig_alloc_undo 0x1000 0xA000 0xB000 0x2000 0x100 (cc_st s4)),
    cc_fresh := []\<rparr>"
  have t1': "t1 = (cc_st sample_conc)\<lparr>ca_heap := [0x1000 \<mapsto> \<lparr>ca_cpu_addr = 0xA000,
      ca_dma_addr = 0xB000, ca_size = 0x2000, ca_id = 1, ca_pdev = 0x100, ca_owner = 0x50, ca_ref = 2\<rparr>]\<rparr>"
    using t1 by (auto simp: ca_kref_get_def sample_conc_def contig_alloc_link_def
        contig_conc_init_def contig_init_def numeral_2_eq_2)
  have "contig_step True sample_conc [] s3"
    using cs_mmap_get [of "0x50" 1 sample_conc "0x1000" t1 True] t1
    by (simp add: contig_mmap_get_def s3_def sample_conc_def contig_alloc_link_def
        contig_conc_init_def contig_init_def)
  moreover have "contig_step True s3 [Dma_mmap_coherent 0x100 0x2000 0xA000 0xB000] s4"
    using cs_mmap_map [of "0x1000" s3 sample_env vma "Inr ()" "cc_st s4" _ True]
    by (simp add: contig_mmap_map_def s3_def s4_def t1' vma_def sample_conc_def contig_alloc_link_def
        contig_conc_init_def contig_init_def)
  moreover have "contig_step True s4 ?free s5"
    using cs_undo [of True "0x1000" "0xA000" "0xB000" "0x2000" "0x100" s4 "cc_st s5" ?free]
    by (simp add: contig_alloc_undo_def s3_def s4_def s5_def sample_conc_def)
  ultimately have "\<exists>cs. runs (contig_step True) contig_conc_init cs s5"
    by (meson sample_conc_run runs_step)
  moreover have "0x1000 \<in> set (contig_vmas (cc_st s5))" "contig_vma_close 0x1000 (cc_st s5) = None"
    by (simp_all add: s3_def s4_def s5_def contig_alloc_undo_def contig_vma_close_def ca_kref_put_def)
  ultimately show ?thesis by blast
qed

text \<open>The allocation ioctl lists the object before it is done with it and keeps no reference.
  Another thread that guesses the id can free the object while the ioctl still reads its id;
  and when the reply fails after another thread has mapped the object, the memory is freed under
  the mapping, whose close then drops a reference of a freed object.\<close>

theorem contig_alloc_unprotected:
  "(\<exists>cs s x. runs (contig_step False) contig_conc_init cs s \<and> x \<in> set (cc_fresh s) \<and>
      ca_heap (cc_st s) (fst x) = None) \<and>
   (\<exists>cs s p. runs (contig_step True) contig_conc_init cs s \<and> p \<in> set (contig_vmas (cc_st s)) \<and>
      contig_vma_close p (cc_st s) = None)"
  using alloc_freed_before_reply alloc_undone_under_mapping by (rule conjI)

text \<open>The life of an allocation: the offset the allocation reports can be mapped by the file
  that made it, up to its size, and maps the memory whose bus address was reported; freeing it
  while it is mapped keeps the memory, and closing the mapping then gives everything back.\<close>

theorem contig_lifecycle:
  assumes "ioctl_alloc_contig env file req st = (Inr rep, st1, cs)"
    and "vm_file vma = file" and "vm_pgoff vma = ucast (ac_mmap_offset rep)"
    and "vm_end vma - vm_start vma \<le> ac_size req" and "dma_mmap_coherent env1 = None"
    and "copy_from_user_ok env2"
  shows "\<exists>p pdev cpu st2 st3 st4.
    contig_mmap env1 vma st1 = Some (Inr (), st2,
      [Dma_mmap_coherent pdev (vm_end vma - vm_start vma) cpu (ac_phys_addr rep)]) \<and>
    ioctl_free_contig env2 file (ac_mmap_offset rep) st2 = Some (Inr (), st3, []) \<and>
    ca_heap st3 p \<noteq> None \<and> contig_vmas st3 = p # contig_vmas st \<and>
    contig_vma_close p st3 = Some (st4,
      [Dma_free pdev (ac_size req) cpu (ac_phys_addr rep), Pci_dev_put pdev, Kfree Obj_contig]) \<and>
    contig_allocs st4 = contig_allocs st \<and> contig_vmas st4 = contig_vmas st"
proof -
  let ?p = "kmalloc_ptr env"
  let ?pdev = "pci_lookup env (ac_nvme_bdf req)"
  from assms(1) obtain cpu dma where dma: "dma_alloc_coherent env ?pdev (ac_size req) = Some (cpu, dma)"
    and rep: "rep = req\<lparr>ac_phys_addr := dma, ac_mmap_offset := contig_alloc_next_id st\<rparr>"
    and st1: "st1 = contig_alloc_link ?p cpu dma (ac_size req) ?pdev file st"
    by (auto simp: ioctl_alloc_contig_def Let_def split: if_splits option.splits prod.splits)
  define ca where "ca = \<lparr>ca_cpu_addr = cpu, ca_dma_addr = dma, ca_size = ac_size req,
    ca_id = contig_alloc_next_id st, ca_pdev = ?pdev, ca_owner = file, ca_ref = 1\<rparr>"
  define st2 where "st2 = st1\<lparr>ca_heap := (ca_heap st1)(?p \<mapsto> ca\<lparr>ca_ref := 2\<rparr>),
    contig_vmas := ?p # contig_vmas st1\<rparr>"
  define st3 where "st3 = st2\<lparr>contig_allocs := contig_allocs st, ca_heap := (ca_heap st1)(?p \<mapsto> ca)\<rparr>"
  define st4 where "st4 = st3\<lparr>contig_vmas := contig_vmas st, ca_heap := (ca_heap st1)(?p := None)\<rparr>"
  have heap: "ca_heap st1 ?p = Some ca" "contig_allocs st1 = ?p # contig_allocs st"
    "contig_vmas st1 = contig_vmas st"
    by (simp_all add: st1 contig_alloc_link_def ca_def)
  have "contig_mmap env1 vma st1 = Some (Inr (), st2,
      [Dma_mmap_coherent ?pdev (vm_end vma - vm_start vma) cpu (ac_phys_addr rep)])"
    using assms(2-5) heap rep
    by (simp add: contig_mmap_def contig_mmap_get_def ca_kref_get_def contig_mmap_map_def ca_def
        st2_def numeral_2_eq_2 Let_def not_less [symmetric])
  moreover have "ioctl_free_contig env2 file (ac_mmap_offset rep) st2 = Some (Inr (), st3, [])"
    using assms(6) heap rep
    by (simp add: ioctl_free_contig_def contig_unlink_def ca_kref_put_def st2_def st3_def ca_def)
  moreover have "contig_vma_close ?p st3 = Some (st4,
       [Dma_free ?pdev (ac_size req) cpu (ac_phys_addr rep), Pci_dev_put ?pdev, Kfree Obj_contig])"
    using heap rep
    by (simp add: contig_vma_close_def ca_kref_put_def contig_alloc_release_def st2_def st3_def
        st4_def ca_def)
  moreover have "ca_heap st3 ?p \<noteq> None" "contig_vmas st3 = ?p # contig_vmas st"
    "contig_allocs st4 = contig_allocs st" "contig_vmas st4 = contig_vmas st"
    by (simp_all add: st4_def st3_def st2_def heap)
  ultimately show ?thesis by blast
qed

theorem contig_lifecycle_witness:
  "\<exists>p pdev cpu st2 st3 st4.
    contig_mmap sample_env \<lparr>vm_start = 0x10000, vm_end = 0x12000, vm_pgoff = 1, vm_file = 0x50\<rparr>
      (contig_alloc_link 0x1000 0xA000 0xB000 0x2000 0x100 0x50 contig_init) =
      Some (Inr (), st2, [Dma_mmap_coherent pdev 0x2000 cpu 0xB000]) \<and>
    ioctl_free_contig sample_env 0x50 1 st2 = Some (Inr (), st3, []) \<and>
    contig_vma_close p st3 = Some (st4,
      [Dma_free pdev 0x2000 cpu 0xB000, Pci_dev_put pdev, Kfree Obj_contig])"
proof -
  let ?req = "\<lparr>ac_size = 0x2000, ac_nvme_bdf = 0x8500, ac_phys_addr = 0, ac_mmap_offset = 0\<rparr>"
  have "ioctl_alloc_contig sample_env 0x50 ?req contig_init =
      (Inr (?req\<lparr>ac_phys_addr := 0xB000, ac_mmap_offset := 1\<rparr>),
       contig_alloc_link 0x1000 0xA000 0xB000 0x2000 0x100 0x50 contig_init,
       [Pci_get 0x100, Dma_alloc 0x100 0x2000 0xA000 0xB000, Kmalloc Obj_contig])"
    by (simp add: ioctl_alloc_contig_def CONTIG_MAX_def pci_lookup_def contig_init_def)
  from contig_lifecycle [OF this, of "\<lparr>vm_start = 0x10000, vm_end = 0x12000, vm_pgoff = 1,
      vm_file = 0x50\<rparr>" sample_env sample_env]
  show ?thesis by simp blast
qed

end
