(* ===== verification/Kernel_Quiesce.thy ===== *)
theory Kernel_Quiesce
  imports Kernel_Env
begin

text \<open>
  Quiescing the block layer while a queue is taken over (\<^verbatim>\<open>kernel/rocm-xio/rocm-xio.c\<close>):
  \<^verbatim>\<open>ROCM_XIO_QUIESCE_NS\<close>, \<^verbatim>\<open>ROCM_XIO_UNQUIESCE_NS\<close> and the automatic resume when a file is
  closed or the module is unloaded. The state is the list \<^verbatim>\<open>quiesced_ns\<close>, newest first. The
  handlers hold \<^verbatim>\<open>quiesced_ns_lock\<close> around check, quiesce and insertion, so each is one step.
\<close>

subsection \<open>State\<close>

datatype quiesced_ns_mode = QUIESCED_NS_MODE_FULL | QUIESCED_NS_MODE_HCTX

record quiesced_ns_entry =
  qe_bdev_file :: ptr
  qe_bd :: ptr
  qe_owner :: ptr
  qe_mode :: quiesced_ns_mode
  qe_hctx_idx :: u32

subsection \<open>Block devices\<close>

definition rocm_xio_file_to_bdev :: "kenv \<Rightarrow> ptr \<Rightarrow> ptr" where
  "rocm_xio_file_to_bdev env bdev_file =
     (if bdev_file = NULL then NULL
      else let inode = (if f_mapping env bdev_file \<noteq> NULL
                        then mapping_host env (f_mapping env bdev_file)
                        else file_inode env bdev_file)
           in if inode = NULL \<or> \<not> inode_is_blk env inode then NULL else I_BDEV env inode)"

definition rocm_xio_hctx_at :: "kenv \<Rightarrow> ptr \<Rightarrow> u32 \<Rightarrow> ptr" where
  "rocm_xio_hctx_at env q idx =
     (if q = NULL \<or> idx \<ge> nr_hw_queues env q then NULL else hctx_table env q idx)"

subsection \<open>ROCM_XIO_QUIESCE_NS\<close>

text \<open>The checks of the requested queue: the mode, the hardware queue and its index.\<close>

definition quiesce_target :: "kenv \<Rightarrow> ptr \<Rightarrow> u32 \<Rightarrow> (quiesced_ns_mode \<times> ptr \<times> u32) kres" where
  "quiesce_target env q qid =
     (if qid = 0 then Inr (QUIESCED_NS_MODE_FULL, NULL, 0)
      else if \<not> queue_is_mq env q then Inl EOPNOTSUPP
      else let hctx_idx = qid - 1 in
      if hctx_idx \<ge> nr_hw_queues env q then Inl ERANGE
      else let hctx = rocm_xio_hctx_at env q hctx_idx in
      if hctx = NULL then Inl ENODEV
      else Inr (QUIESCED_NS_MODE_HCTX, hctx, hctx_idx))"

definition same_quiesce :: "ptr \<Rightarrow> ptr \<Rightarrow> quiesced_ns_mode \<Rightarrow> u32 \<Rightarrow> quiesced_ns_entry \<Rightarrow> bool" where
  "same_quiesce file bd mode hctx_idx e \<longleftrightarrow>
     qe_owner e = file \<and> qe_bd e = bd \<and>
     (qe_mode e = QUIESCED_NS_MODE_FULL \<and> mode = QUIESCED_NS_MODE_FULL \<or>
      qe_mode e = QUIESCED_NS_MODE_HCTX \<and> mode = QUIESCED_NS_MODE_HCTX \<and> qe_hctx_idx e = hctx_idx)"

definition quiesce_calls :: "quiesced_ns_mode \<Rightarrow> ptr \<Rightarrow> ptr \<Rightarrow> kcall list" where
  "quiesce_calls mode q hctx =
     (if mode = QUIESCED_NS_MODE_FULL then [Blk_mq_quiesce_queue q]
      else [Blk_mq_quiesce_queue q, Blk_mq_stop_hw_queue hctx, Blk_mq_unquiesce_queue q])"

definition ioctl_quiesce_ns ::
    "kenv \<Rightarrow> ptr \<Rightarrow> rocm_xio_quiesce_ns_req \<Rightarrow> quiesced_ns_entry list \<Rightarrow>
     unit kres \<times> quiesced_ns_entry list \<times> kcall list" where
  "ioctl_quiesce_ns env file req quiesced_ns =
     (if \<not> copy_from_user_ok env then (Inl EFAULT, quiesced_ns, [])
      else if qn_bdev_fd req < 0 then (Inl EINVAL, quiesced_ns, [])
      else let bdev_file = fget env (qn_bdev_fd req) in
      if bdev_file = NULL then (Inl EBADF, quiesced_ns, [])
      else let bd = rocm_xio_file_to_bdev env bdev_file in
      if bd = NULL then (Inl ENOTBLK, quiesced_ns, [Fget bdev_file, Fput bdev_file])
      else let q = bdev_get_queue env bd in
      if q = NULL then (Inl ENODEV, quiesced_ns, [Fget bdev_file, Fput bdev_file])
      else case quiesce_target env q (qn_qid req) of
        Inl e \<Rightarrow> (Inl e, quiesced_ns, [Fget bdev_file, Fput bdev_file])
      | Inr (mode, hctx, hctx_idx) \<Rightarrow>
          if \<not> kmalloc_ok env then (Inl ENOMEM, quiesced_ns, [Fget bdev_file, Fput bdev_file])
          else if \<exists>e\<in>set quiesced_ns. same_quiesce file bd mode hctx_idx e
          then (Inr (), quiesced_ns,
                [Fget bdev_file, Kmalloc Obj_quiesced, Kfree Obj_quiesced, Fput bdev_file])
          else (Inr (),
                \<lparr>qe_bdev_file = bdev_file, qe_bd = bd, qe_owner = file, qe_mode = mode,
                 qe_hctx_idx = hctx_idx\<rparr> # quiesced_ns,
                [Fget bdev_file, Kmalloc Obj_quiesced] @ quiesce_calls mode q hctx))"

subsection \<open>ROCM_XIO_UNQUIESCE_NS\<close>

definition resume_calls :: "kenv \<Rightarrow> ptr \<Rightarrow> quiesced_ns_entry \<Rightarrow> kcall list" where
  "resume_calls env q e =
     (if q = NULL then []
      else if qe_mode e = QUIESCED_NS_MODE_FULL then [Blk_mq_unquiesce_queue q]
      else let hctx = rocm_xio_hctx_at env q (qe_hctx_idx e) in
      if hctx \<noteq> NULL then [Blk_mq_start_hw_queue hctx] else [])"

definition ioctl_unquiesce_ns ::
    "kenv \<Rightarrow> ptr \<Rightarrow> rocm_xio_quiesce_ns_req \<Rightarrow> quiesced_ns_entry list \<Rightarrow>
     unit kres \<times> quiesced_ns_entry list \<times> kcall list" where
  "ioctl_unquiesce_ns env file req quiesced_ns =
     (if \<not> copy_from_user_ok env then (Inl EFAULT, quiesced_ns, [])
      else if qn_bdev_fd req < 0 then (Inl EINVAL, quiesced_ns, [])
      else let bdev_file = fget env (qn_bdev_fd req) in
      if bdev_file = NULL then (Inl EBADF, quiesced_ns, [])
      else let bd = rocm_xio_file_to_bdev env bdev_file in
      if bd = NULL then (Inl ENOTBLK, quiesced_ns, [Fget bdev_file, Fput bdev_file])
      else let want_mode = (if qn_qid req = 0 then QUIESCED_NS_MODE_FULL else QUIESCED_NS_MODE_HCTX);
               hctx_idx = (if qn_qid req = 0 then 0 else qn_qid req - 1)
           in case unlink_first (\<lambda>e. qe_owner e = file \<and> qe_bd e = bd \<and> qe_mode e = want_mode \<and>
                     \<not> (want_mode = QUIESCED_NS_MODE_HCTX \<and> qe_hctx_idx e \<noteq> hctx_idx)) quiesced_ns of
                None \<Rightarrow> (Inl ENOENT, quiesced_ns, [Fget bdev_file, Fput bdev_file])
              | Some (found, rest) \<Rightarrow>
                  (Inr (), rest,
                   [Fget bdev_file] @ resume_calls env (bdev_get_queue env (qe_bd found)) found @
                   [Fput (qe_bdev_file found), Kfree Obj_quiesced, Fput bdev_file]))"

subsection \<open>Release and exit\<close>

definition drop_quiesced :: "kenv \<Rightarrow> quiesced_ns_entry \<Rightarrow> kcall list" where
  "drop_quiesced env e =
     resume_calls env (if qe_bd e \<noteq> NULL then bdev_get_queue env (qe_bd e) else NULL) e @
     [Fput (qe_bdev_file e), Kfree Obj_quiesced]"

definition release_quiesced ::
    "kenv \<Rightarrow> ptr \<Rightarrow> quiesced_ns_entry list \<Rightarrow> quiesced_ns_entry list \<times> kcall list" where
  "release_quiesced env file quiesced_ns =
     (filter (\<lambda>e. qe_owner e \<noteq> file) quiesced_ns,
      concat (map (drop_quiesced env) (rev (filter (\<lambda>e. qe_owner e = file) quiesced_ns))))"

definition exit_quiesced :: "kenv \<Rightarrow> quiesced_ns_entry list \<Rightarrow> quiesced_ns_entry list \<times> kcall list" where
  "exit_quiesced env quiesced_ns = ([], concat (map (drop_quiesced env) (rev quiesced_ns)))"

subsection \<open>Invariant and accounting\<close>

text \<open>
  The topology of the block layer: the request queue of a block device, the number of its
  hardware queues and the table of them. The accounting of stopped hardware queues is about
  runs in which the topology does not change.
\<close>

definition same_blk :: "kenv \<Rightarrow> kenv \<Rightarrow> bool" where
  "same_blk env0 env \<longleftrightarrow> bdev_get_queue env = bdev_get_queue env0 \<and>
     nr_hw_queues env = nr_hw_queues env0 \<and> hctx_table env = hctx_table env0"

definition quiesce_key :: "quiesced_ns_entry \<Rightarrow> ptr \<times> ptr \<times> quiesced_ns_mode \<times> u32" where
  "quiesce_key e = (qe_owner e, qe_bd e, qe_mode e, qe_hctx_idx e)"

definition quiesced_entry_ok :: "kenv \<Rightarrow> quiesced_ns_entry \<Rightarrow> bool" where
  "quiesced_entry_ok env e \<longleftrightarrow> qe_bd e \<noteq> NULL \<and> bdev_get_queue env (qe_bd e) \<noteq> NULL \<and>
     (if qe_mode e = QUIESCED_NS_MODE_FULL then qe_hctx_idx e = 0
      else rocm_xio_hctx_at env (bdev_get_queue env (qe_bd e)) (qe_hctx_idx e) \<noteq> NULL)"

definition quiesced_inv :: "kenv \<Rightarrow> quiesced_ns_entry list \<Rightarrow> bool" where
  "quiesced_inv env quiesced_ns \<longleftrightarrow>
     distinct (map quiesce_key quiesced_ns) \<and> list_all (quiesced_entry_ok env) quiesced_ns"

definition quiesced_res :: "kenv \<Rightarrow> quiesced_ns_entry \<Rightarrow> res list" where
  "quiesced_res env e =
     [RFile (qe_bdev_file e), RMem Obj_quiesced,
      (if qe_mode e = QUIESCED_NS_MODE_FULL then RQuiesce (bdev_get_queue env (qe_bd e))
       else RStop (rocm_xio_hctx_at env (bdev_get_queue env (qe_bd e)) (qe_hctx_idx e)))]"

definition quiesced_owned :: "kenv \<Rightarrow> quiesced_ns_entry list \<Rightarrow> res \<Rightarrow> int" where
  "quiesced_owned env quiesced_ns r = sum_list (map (\<lambda>e. res_counts (quiesced_res env e) r) quiesced_ns)"

inductive quiesce_step :: "kenv \<Rightarrow> quiesced_ns_entry list \<Rightarrow> kcall list \<Rightarrow> quiesced_ns_entry list \<Rightarrow> bool"
  for env0 :: kenv where
  qs_quiesce: "same_blk env0 env \<Longrightarrow> ioctl_quiesce_ns env file req st = (ret, st', cs) \<Longrightarrow>
    quiesce_step env0 st cs st'"
| qs_unquiesce: "same_blk env0 env \<Longrightarrow> ioctl_unquiesce_ns env file req st = (ret, st', cs) \<Longrightarrow>
    quiesce_step env0 st cs st'"
| qs_close: "same_blk env0 env \<Longrightarrow> release_quiesced env file st = (st', cs) \<Longrightarrow>
    quiesce_step env0 st cs st'"
| qs_exit: "same_blk env0 env \<Longrightarrow> exit_quiesced env st = (st', cs) \<Longrightarrow>
    quiesce_step env0 st cs st'"

lemma same_blk_simps:
  assumes "same_blk env0 env"
  shows "bdev_get_queue env = bdev_get_queue env0" "rocm_xio_hctx_at env = rocm_xio_hctx_at env0"
  using assms by (auto simp: same_blk_def rocm_xio_hctx_at_def fun_eq_iff)

lemma same_quiesce_iff:
  assumes "quiesced_entry_ok env e" and "mode = QUIESCED_NS_MODE_FULL \<longrightarrow> i = 0"
  shows "same_quiesce f bd mode i e \<longleftrightarrow> quiesce_key e = (f, bd, mode, i)"
  using assms
  by (cases mode; cases "qe_mode e") (auto simp: same_quiesce_def quiesce_key_def quiesced_entry_ok_def)

lemma same_quiesce_key:
  assumes "list_all (quiesced_entry_ok env) st"
    and "mode = QUIESCED_NS_MODE_FULL \<longrightarrow> i = 0"
  shows "(\<exists>e\<in>set st. same_quiesce f bd mode i e) \<longleftrightarrow> (f, bd, mode, i) \<in> set (map quiesce_key st)"
  using assms(1)
proof (induction st)
  case Nil
  then show ?case by simp
next
  case (Cons a st)
  then have "same_quiesce f bd mode i a \<longleftrightarrow> (f, bd, mode, i) = quiesce_key a"
    using same_quiesce_iff [OF _ assms(2), of env a] by (simp add: eq_commute)
  with Cons show ?case by simp
qed

lemma quiesce_target_cases:
  assumes "quiesce_target env q qid = Inr (mode, hctx, i)"
  obtains "mode = QUIESCED_NS_MODE_FULL" "i = 0"
  | "mode = QUIESCED_NS_MODE_HCTX" "hctx = rocm_xio_hctx_at env q i" "hctx \<noteq> NULL"
  using assms by (auto simp: quiesce_target_def Let_def split: if_splits)

lemma quiesce_calls_held:
  "held (quiesce_calls mode q hctx) r =
     (if mode = QUIESCED_NS_MODE_FULL then res_count (RQuiesce q) r else res_count (RStop hctx) r)"
  by (simp add: quiesce_calls_def)

lemma resume_calls_held:
  assumes "quiesced_entry_ok env e"
  shows "held (resume_calls env (bdev_get_queue env (qe_bd e)) e) r =
    res_count (RFile (qe_bdev_file e)) r + res_count (RMem Obj_quiesced) r - res_counts (quiesced_res env e) r"
  using assms by (simp add: resume_calls_def quiesced_entry_ok_def quiesced_res_def Let_def)

lemma drop_quiesced_held:
  assumes "quiesced_entry_ok env e"
  shows "held (drop_quiesced env e) r = - res_counts (quiesced_res env e) r"
proof -
  from assms have "qe_bd e \<noteq> NULL" by (simp add: quiesced_entry_ok_def)
  with resume_calls_held [OF assms, of r] show ?thesis by (simp add: drop_quiesced_def)
qed

lemma drop_all_held:
  "list_all (quiesced_entry_ok env) es \<Longrightarrow>
     held (concat (map (drop_quiesced env) es)) r = - sum_list (map (\<lambda>e. res_counts (quiesced_res env e) r) es)"
  by (induction es) (simp_all add: drop_quiesced_held)

lemma same_blk_model:
  assumes "same_blk env0 env"
  shows "quiesced_entry_ok env = quiesced_entry_ok env0" "quiesced_res env = quiesced_res env0"
    "resume_calls env = resume_calls env0" "drop_quiesced env = drop_quiesced env0"
  using same_blk_simps [OF assms]
  by (auto simp: fun_eq_iff quiesced_entry_ok_def quiesced_res_def resume_calls_def drop_quiesced_def)

text \<open>A call either leaves the list alone and keeps nothing, or adds one entry.\<close>

lemma quiesce_ns_cases:
  assumes "ioctl_quiesce_ns env file req st = (ret, st', cs)"
  defines "f \<equiv> fget env (qn_bdev_fd req)"
  defines "bd \<equiv> rocm_xio_file_to_bdev env f"
  defines "q \<equiv> bdev_get_queue env bd"
  obtains (same) "st' = st" "\<And>r. held cs r = 0"
  | (new) mode hctx i where "quiesce_target env q (qn_qid req) = Inr (mode, hctx, i)"
      "bd \<noteq> NULL" "q \<noteq> NULL" "\<not> (\<exists>e\<in>set st. same_quiesce file bd mode i e)"
      "st' = \<lparr>qe_bdev_file = f, qe_bd = bd, qe_owner = file, qe_mode = mode, qe_hctx_idx = i\<rparr> # st"
      "cs = [Fget f, Kmalloc Obj_quiesced] @ quiesce_calls mode q hctx"
proof (cases "copy_from_user_ok env \<and> \<not> qn_bdev_fd req < 0 \<and> f \<noteq> NULL \<and> bd \<noteq> NULL \<and> q \<noteq> NULL")
  case False
  with assms(1) have "st' = st" "held cs r = 0" for r
    by (auto simp: ioctl_quiesce_ns_def f_def bd_def q_def Let_def split: if_splits)
  then show thesis by (rule same)
next
  case True
  note eq = assms(1) [unfolded ioctl_quiesce_ns_def Let_def, folded f_def, folded bd_def, folded q_def]
  show thesis
  proof (cases "quiesce_target env q (qn_qid req)")
    case (Inl e)
    with True eq show thesis by (intro same) auto
  next
    case (Inr t)
    obtain mode hctx i where t: "t = (mode, hctx, i)" by (cases t)
    show thesis
    proof (cases "kmalloc_ok env \<and> \<not> (\<exists>e\<in>set st. same_quiesce file bd mode i e)")
      case True
      with \<open>copy_from_user_ok env \<and> _\<close> Inr t eq show thesis by (intro new [of mode hctx i]) simp_all
    next
      case False
      with \<open>copy_from_user_ok env \<and> _\<close> Inr t eq show thesis by (intro same) (auto split: if_splits)
    qed
  qed
qed

lemma quiesce_ns_ok:
  assumes "same_blk env0 env" and "quiesced_inv env0 st"
    and "ioctl_quiesce_ns env file req st = (ret, st', cs)"
  shows "quiesced_inv env0 st' \<and> held cs r = quiesced_owned env0 st' r - quiesced_owned env0 st r"
  using assms(3)
proof (cases rule: quiesce_ns_cases)
  case same
  with assms(2) show ?thesis by simp
next
  case (new mode hctx i)
  note blk = same_blk_simps [OF assms(1)]
  have ok: "list_all (quiesced_entry_ok env0) st" using assms(2) by (simp add: quiesced_inv_def)
  have i: "mode = QUIESCED_NS_MODE_FULL \<longrightarrow> i = 0"
    using new(1) by (auto elim: quiesce_target_cases)
  have "(qe_owner (hd st'), qe_bd (hd st'), mode, i) \<notin> set (map quiesce_key st)"
    using new(4) unfolding same_quiesce_key [OF ok i] new(5) by simp
  moreover from new(1) have "quiesced_entry_ok env0 (hd st')"
    using new(2,3,5) blk by (cases rule: quiesce_target_cases) (auto simp: quiesced_entry_ok_def)
  ultimately have "quiesced_inv env0 st'"
    using assms(2) new(5) by (simp add: quiesced_inv_def quiesce_key_def)
  moreover from new(1) have "held cs r = quiesced_owned env0 st' r - quiesced_owned env0 st r"
    using new(5,6) blk
    by (cases rule: quiesce_target_cases)
      (auto simp: quiesced_owned_def quiesced_res_def quiesce_calls_held)
  ultimately show ?thesis ..
qed

lemma unquiesce_ns_ok:
  assumes "same_blk env0 env" and "quiesced_inv env0 st"
    and "ioctl_unquiesce_ns env file req st = (ret, st', cs)"
  shows "quiesced_inv env0 st' \<and> held cs r = quiesced_owned env0 st' r - quiesced_owned env0 st r"
proof -
  consider (same) "st' = st" "held cs r = 0"
    | (found) P e f where "unlink_first P st = Some (e, st')"
        "cs = [Fget f] @ resume_calls env (bdev_get_queue env (qe_bd e)) e @
           [Fput (qe_bdev_file e), Kfree Obj_quiesced, Fput f]"
    using assms(3) unfolding ioctl_unquiesce_ns_def Let_def
    by (auto split: if_splits option.splits prod.splits)
  then show ?thesis
  proof cases
    case same
    with assms(2) show ?thesis by simp
  next
    case found
    from unlink_first_Some [OF found(1)] obtain us vs where
      split: "st = us @ e # vs" "st' = us @ vs" by blast
    with assms(2) have ok: "quiesced_entry_ok env e"
      by (simp add: quiesced_inv_def same_blk_model [OF assms(1)])
    from found(2) resume_calls_held [OF ok, of r] split assms(2) show ?thesis
      by (simp add: quiesced_inv_def quiesced_owned_def same_blk_model [OF assms(1)])
  qed
qed

lemma release_quiesced_ok:
  assumes "same_blk env0 env" and "quiesced_inv env0 st"
    and "release_quiesced env file st = (st', cs)"
  shows "quiesced_inv env0 st' \<and> held cs r = quiesced_owned env0 st' r - quiesced_owned env0 st r"
proof -
  let ?mine = "filter (\<lambda>e. qe_owner e = file) st"
  have "list_all (quiesced_entry_ok env0) (rev ?mine)"
    using assms(2) by (auto simp: quiesced_inv_def list_all_iff)
  moreover have "sum_list (map (\<lambda>e. res_counts (quiesced_res env0 e) r) ?mine) +
      sum_list (map (\<lambda>e. res_counts (quiesced_res env0 e) r) (filter (\<lambda>e. qe_owner e \<noteq> file) st)) =
      sum_list (map (\<lambda>e. res_counts (quiesced_res env0 e) r) st)"
    by (rule sum_list_filter_partition)
  ultimately show ?thesis
    using assms by (auto simp: release_quiesced_def same_blk_model [OF assms(1)] drop_all_held
        sum_list_map_rev quiesced_owned_def quiesced_inv_def list_all_iff distinct_map_filter)
qed

lemma exit_quiesced_ok:
  assumes "same_blk env0 env" and "quiesced_inv env0 st" and "exit_quiesced env st = (st', cs)"
  shows "quiesced_inv env0 st' \<and> held cs r = quiesced_owned env0 st' r - quiesced_owned env0 st r"
  using assms
  by (auto simp: exit_quiesced_def same_blk_model [OF assms(1)] drop_all_held sum_list_map_rev
      quiesced_owned_def quiesced_inv_def list_all_iff)

lemma quiesce_step_ok:
  assumes "quiesce_step env0 st cs st'" and "quiesced_inv env0 st"
  shows "quiesced_inv env0 st' \<and> held cs r = quiesced_owned env0 st' r - quiesced_owned env0 st r"
  using assms(1)
proof (cases rule: quiesce_step.cases)
  case qs_quiesce
  then show ?thesis by (rule quiesce_ns_ok [OF _ assms(2)])
next
  case qs_unquiesce
  then show ?thesis by (rule unquiesce_ns_ok [OF _ assms(2)])
next
  case qs_close
  then show ?thesis by (rule release_quiesced_ok [OF _ assms(2)])
next
  case qs_exit
  then show ?thesis by (rule exit_quiesced_ok [OF _ assms(2)])
qed

interpretation qns: resource_accounting "quiesce_step env0" "quiesced_inv env0" "quiesced_owned env0"
  for env0
  by unfold_locales (rule quiesce_step_ok [THEN conjunct1] quiesce_step_ok [THEN conjunct2]; assumption)+

lemma quiesced_inv_Nil [simp]: "quiesced_inv env []"
  by (simp add: quiesced_inv_def)

lemma quiesced_owned_Nil [simp]: "quiesced_owned env [] r = 0"
  by (simp add: quiesced_owned_def)

subsection \<open>Properties\<close>

lemma sum_res_count_filter:
  "sum_list (map (\<lambda>e. if P e then 1 else 0 :: int) xs) = int (length (filter P xs))"
  by (induction xs) simp_all

text \<open>A concrete quiesce of the whole namespace, and of the queue with id 3.\<close>

lemma sample_quiesce:
  "ioctl_quiesce_ns sample_env 0x50 \<lparr>qn_bdev_fd = 4, qn_qid = 0\<rparr> [] =
     (Inr (), [\<lparr>qe_bdev_file = 0x600, qe_bd = 0x620, qe_owner = 0x50, qe_mode = QUIESCED_NS_MODE_FULL,
        qe_hctx_idx = 0\<rparr>], [Fget 0x600, Kmalloc Obj_quiesced, Blk_mq_quiesce_queue 0x700])"
  "ioctl_quiesce_ns sample_env 0x50 \<lparr>qn_bdev_fd = 4, qn_qid = 3\<rparr> [] =
     (Inr (), [\<lparr>qe_bdev_file = 0x600, qe_bd = 0x620, qe_owner = 0x50, qe_mode = QUIESCED_NS_MODE_HCTX,
        qe_hctx_idx = 2\<rparr>], [Fget 0x600, Kmalloc Obj_quiesced, Blk_mq_quiesce_queue 0x700,
        Blk_mq_stop_hw_queue 0x802, Blk_mq_unquiesce_queue 0x700])"
  by (simp_all add: ioctl_quiesce_ns_def rocm_xio_file_to_bdev_def quiesce_target_def
      quiesce_calls_def rocm_xio_hctx_at_def)



text \<open>Quiescing again what the same file has already quiesced succeeds without touching the
  block layer: nothing is added to the list and nothing more is held.\<close>

theorem quiesce_ns_idempotent:
  assumes "ioctl_quiesce_ns env file req st = (Inr (), st1, cs1)"
    and "ioctl_quiesce_ns env file req st1 = (ret, st2, cs2)"
  shows "ret = Inr () \<and> st2 = st1 \<and> Blk_mq_quiesce_queue q \<notin> set cs2 \<and>
    Blk_mq_stop_hw_queue h \<notin> set cs2 \<and> held cs2 r = 0"
proof -
  let ?f = "fget env (qn_bdev_fd req)"
  let ?bd = "rocm_xio_file_to_bdev env ?f"
  from assms(1) obtain mode hctx i where
    t: "quiesce_target env (bdev_get_queue env ?bd) (qn_qid req) = Inr (mode, hctx, i)"
    and ok: "copy_from_user_ok env" "\<not> qn_bdev_fd req < 0" "?f \<noteq> NULL" "?bd \<noteq> NULL"
      "bdev_get_queue env ?bd \<noteq> NULL" "kmalloc_ok env"
    by (auto simp: ioctl_quiesce_ns_def Let_def split: if_splits sum.splits)
  have "\<exists>e\<in>set st1. same_quiesce file ?bd mode i e"
    using assms(1) t ok by (cases mode)
      (auto simp: ioctl_quiesce_ns_def Let_def same_quiesce_def split: if_splits)
  with assms(2) t ok show ?thesis by (auto simp: ioctl_quiesce_ns_def Let_def)
qed

theorem quiesce_ns_idempotent_witness:
  "fst (snd (ioctl_quiesce_ns sample_env 0x50 \<lparr>qn_bdev_fd = 4, qn_qid = 3\<rparr>
     [\<lparr>qe_bdev_file = 0x600, qe_bd = 0x620, qe_owner = 0x50, qe_mode = QUIESCED_NS_MODE_HCTX,
       qe_hctx_idx = 2\<rparr>])) =
   [\<lparr>qe_bdev_file = 0x600, qe_bd = 0x620, qe_owner = 0x50, qe_mode = QUIESCED_NS_MODE_HCTX,
     qe_hctx_idx = 2\<rparr>]"
  using quiesce_ns_idempotent [OF sample_quiesce(2), of _ _ _] by (metis prod.collapse)

end
