(* ===== verification/Kernel_Module.thy ===== *)
theory Kernel_Module
  imports Kernel_Inject Kernel_Contig Kernel_Quiesce
begin

text \<open>
  The module as a whole (\<^verbatim>\<open>kernel/rocm-xio/rocm-xio.c\<close>): its state is the product of the
  components' states; \<^verbatim>\<open>rocm_xio_ioctl\<close>, \<^verbatim>\<open>rocm_xio_mmap\<close>, \<^verbatim>\<open>rocm_xio_release\<close>,
  \<^verbatim>\<open>rocm_xio_init\<close> and \<^verbatim>\<open>rocm_xio_exit\<close> compose the components' operations, and \<open>module_step\<close> is
  one event of the running module: a system call, a probe hit or a worker.
\<close>

subsection \<open>State\<close>

text \<open>
  \<open>m_kprobe\<close> records that the kprobe is registered; the source keeps no such flag and uses the
  module parameter \<^verbatim>\<open>inject_enabled\<close> in its place.
\<close>

record module_state =
  m_reg :: registry
  m_contig :: contig_state
  m_quiesced :: "quiesced_ns_entry list"
  m_snap :: snapshot_state
  m_poison :: poison_state
  mmio_bridge_shadow_gpa :: u64
  mmio_bridge_shadow_size :: u64
  inject_enabled :: bool
  m_kprobe :: bool
  nvme_alloc_queue_krp_registered :: bool
  nvme_create_queue_krp_registered :: bool

definition module_init_state :: "bool \<Rightarrow> module_state" where
  "module_init_state enabled =
     \<lparr>m_reg = empty_registry, m_contig = contig_init, m_quiesced = [], m_snap = snapshot_init,
      m_poison = poison_init, mmio_bridge_shadow_gpa = 0, mmio_bridge_shadow_size = 0,
      inject_enabled = enabled, m_kprobe = False, nvme_alloc_queue_krp_registered = False,
      nvme_create_queue_krp_registered = False\<rparr>"

subsection \<open>ioctl\<close>

datatype ioctl_cmd =
    ROCM_XIO_GET_VRAM_PHYS_ADDR rocm_xio_vram_req
  | ROCM_XIO_GET_DEVICE_INFO rocm_xio_device_info
  | ROCM_XIO_CREATE_QUEUE
  | ROCM_XIO_DELETE_QUEUE
  | ROCM_XIO_BIND_DEVICE u32
  | ROCM_XIO_REGISTER_QUEUE_ADDR rocm_xio_register_queue_addr_req
  | ROCM_XIO_UNREGISTER_QUEUE_ADDR u64
  | ROCM_XIO_REGISTER_BUFFER rocm_xio_register_buffer_req
  | ROCM_XIO_UNREGISTER_BUFFER u64
  | ROCM_XIO_GET_MMIO_BRIDGE_SHADOW_BUFFER rocm_xio_mmio_bridge_shadow_req
  | ROCM_XIO_ALLOC_CONTIG_QUEUE rocm_xio_alloc_contig_req
  | ROCM_XIO_QUIESCE_NS rocm_xio_quiesce_ns_req
  | ROCM_XIO_UNQUIESCE_NS rocm_xio_quiesce_ns_req
  | ROCM_XIO_DEBUG_RESURRECT_QID rocm_xio_debug_resurrect_req
  | ROCM_XIO_FREE_CONTIG_QUEUE u32
  | Other_ioctl u32

text \<open>What a successful call copies back.\<close>

datatype ioctl_reply =
    Done
  | Reply_vram rocm_xio_vram_req
  | Reply_info rocm_xio_device_info
  | Reply_buffer rocm_xio_register_buffer_req
  | Reply_shadow rocm_xio_mmio_bridge_shadow_req
  | Reply_contig rocm_xio_alloc_contig_req

definition ioctl_get_vram_phys_addr ::
    "kenv \<Rightarrow> rocm_xio_vram_req \<Rightarrow> rocm_xio_vram_req kres \<times> kcall list" where
  "ioctl_get_vram_phys_addr env req =
     (if \<not> copy_from_user_ok env then (Inl EFAULT, [])
      else case get_dmabuf_bar_gpa env (vr_dmabuf_fd req) of
        (Inl e, cs) \<Rightarrow> (Inl e, cs)
      | (Inr (gpa, len), cs) \<Rightarrow>
          if copy_to_user_ok env then (Inr (req\<lparr>vr_phys_addr := gpa, vr_size := len\<rparr>), cs)
          else (Inl EFAULT, cs))"

definition ioctl_get_device_info ::
    "kenv \<Rightarrow> rocm_xio_device_info \<Rightarrow> rocm_xio_device_info kres \<times> kcall list" where
  "ioctl_get_device_info env info =
     (if \<not> copy_from_user_ok env then (Inl EFAULT, [])
      else case get_nvme_device_info env (di_bdf info) info of
        (Inl e, cs) \<Rightarrow> (Inl e, cs)
      | (Inr info', cs) \<Rightarrow> if copy_to_user_ok env then (Inr info', cs) else (Inl EFAULT, cs))"

text \<open>The shadow buffer is remembered before the reply is copied.\<close>

definition ioctl_get_mmio_bridge ::
    "kenv \<Rightarrow> rocm_xio_mmio_bridge_shadow_req \<Rightarrow> module_state \<Rightarrow>
     rocm_xio_mmio_bridge_shadow_req kres \<times> module_state \<times> kcall list" where
  "ioctl_get_mmio_bridge env req st =
     (if \<not> copy_from_user_ok env then (Inl EFAULT, st, [])
      else case get_mmio_bridge_shadow_buffer env (ms_bridge_bdf req) req of
        (Inl e, cs) \<Rightarrow> (Inl e, st, cs)
      | (Inr req', cs) \<Rightarrow>
          (let st' = st\<lparr>mmio_bridge_shadow_gpa := ms_shadow_gpa req',
                        mmio_bridge_shadow_size := ms_shadow_size req'\<rparr>
           in if copy_to_user_ok env then (Inr req', st', cs) else (Inl EFAULT, st', cs)))"

definition ioctl_debug_resurrect ::
    "kenv \<Rightarrow> rocm_xio_debug_resurrect_req \<Rightarrow> poison_state \<Rightarrow> unit kres \<times> poison_state \<times> kcall list" where
  "ioctl_debug_resurrect env req st =
     (if \<not> capable_sys_admin env then (Inl EPERM, st, [])
      else if \<not> copy_from_user_ok env then (Inl EFAULT, st, [])
      else case poisoned_qid_mark_created env (dr_bdf req) (dr_qid req) st of
        (st1, cs) \<Rightarrow> (case poisoned_qid_mark_deleted (dr_bdf req) (dr_qid req) st1 of
          (st2, ds) \<Rightarrow> (Inr (), st2, cs @ ds)))"

text \<open>The dispatch; \<open>None\<close> is an access to freed memory.\<close>

definition rocm_xio_ioctl ::
    "kenv \<Rightarrow> ptr \<Rightarrow> ioctl_cmd \<Rightarrow> module_state \<Rightarrow> (ioctl_reply kres \<times> module_state \<times> kcall list) option" where
  "rocm_xio_ioctl env file cmd st =
     (case cmd of
        ROCM_XIO_GET_VRAM_PHYS_ADDR req \<Rightarrow>
          (case ioctl_get_vram_phys_addr env req of (ret, cs) \<Rightarrow> Some (map_sum id Reply_vram ret, st, cs))
      | ROCM_XIO_GET_DEVICE_INFO info \<Rightarrow>
          (case ioctl_get_device_info env info of (ret, cs) \<Rightarrow> Some (map_sum id Reply_info ret, st, cs))
      | ROCM_XIO_CREATE_QUEUE \<Rightarrow> Some (Inl EOPNOTSUPP, st, [])
      | ROCM_XIO_DELETE_QUEUE \<Rightarrow> Some (Inl EOPNOTSUPP, st, [])
      | ROCM_XIO_BIND_DEVICE bdf \<Rightarrow>
          Some (if copy_from_user_ok env then Inr Done else Inl EFAULT, st, [])
      | ROCM_XIO_REGISTER_QUEUE_ADDR req \<Rightarrow>
          (case ioctl_register_queue_addr env file req (m_reg st) of
             (ret, reg, cs) \<Rightarrow> Some (map_sum id (\<lambda>_. Done) ret, st\<lparr>m_reg := reg\<rparr>, cs))
      | ROCM_XIO_UNREGISTER_QUEUE_ADDR v \<Rightarrow>
          (case ioctl_unregister_queue_addr env file v (m_reg st) of
             (ret, reg, cs) \<Rightarrow> Some (map_sum id (\<lambda>_. Done) ret, st\<lparr>m_reg := reg\<rparr>, cs))
      | ROCM_XIO_REGISTER_BUFFER req \<Rightarrow>
          (case ioctl_register_buffer env file req (m_reg st) of
             (ret, reg, cs) \<Rightarrow> Some (map_sum id Reply_buffer ret, st\<lparr>m_reg := reg\<rparr>, cs))
      | ROCM_XIO_UNREGISTER_BUFFER v \<Rightarrow>
          (case ioctl_unregister_buffer env file v (m_reg st) of
             (ret, reg, cs) \<Rightarrow> Some (map_sum id (\<lambda>_. Done) ret, st\<lparr>m_reg := reg\<rparr>, cs))
      | ROCM_XIO_GET_MMIO_BRIDGE_SHADOW_BUFFER req \<Rightarrow>
          (case ioctl_get_mmio_bridge env req st of
             (ret, st', cs) \<Rightarrow> Some (map_sum id Reply_shadow ret, st', cs))
      | ROCM_XIO_ALLOC_CONTIG_QUEUE req \<Rightarrow>
          (case ioctl_alloc_contig env file req (m_contig st) of
             (ret, ca, cs) \<Rightarrow> Some (map_sum id Reply_contig ret, st\<lparr>m_contig := ca\<rparr>, cs))
      | ROCM_XIO_QUIESCE_NS req \<Rightarrow>
          (case ioctl_quiesce_ns env file req (m_quiesced st) of
             (ret, qn, cs) \<Rightarrow> Some (map_sum id (\<lambda>_. Done) ret, st\<lparr>m_quiesced := qn\<rparr>, cs))
      | ROCM_XIO_UNQUIESCE_NS req \<Rightarrow>
          (case ioctl_unquiesce_ns env file req (m_quiesced st) of
             (ret, qn, cs) \<Rightarrow> Some (map_sum id (\<lambda>_. Done) ret, st\<lparr>m_quiesced := qn\<rparr>, cs))
      | ROCM_XIO_DEBUG_RESURRECT_QID req \<Rightarrow>
          (case ioctl_debug_resurrect env req (m_poison st) of
             (ret, po, cs) \<Rightarrow> Some (map_sum id (\<lambda>_. Done) ret, st\<lparr>m_poison := po\<rparr>, cs))
      | ROCM_XIO_FREE_CONTIG_QUEUE i \<Rightarrow>
          map_option (\<lambda>(ret, ca, cs). (map_sum id (\<lambda>_. Done) ret, st\<lparr>m_contig := ca\<rparr>, cs))
            (ioctl_free_contig env file i (m_contig st))
      | Other_ioctl n \<Rightarrow> Some (Inl ENOTTY, st, []))"

subsection \<open>mmap, io_uring and release\<close>

definition PAGE_SHIFT :: nat where
  "PAGE_SHIFT = 12"

definition mmio_bridge_mmap :: "kenv \<Rightarrow> vm_area \<Rightarrow> module_state \<Rightarrow> unit kres \<times> kcall list" where
  "mmio_bridge_mmap env vma st =
     (if mmio_bridge_shadow_gpa st = 0 then (Inl EINVAL, [])
      else let pfn = drop_bit PAGE_SHIFT (mmio_bridge_shadow_gpa st);
               call = Remap_pfn_range (vm_start vma) pfn (mmio_bridge_shadow_size st)
           in case remap_pfn_range env of
                Some e \<Rightarrow> (Inl e, [call])
              | None \<Rightarrow> (Inr (), [call]))"

definition rocm_xio_mmap ::
    "kenv \<Rightarrow> vm_area \<Rightarrow> module_state \<Rightarrow> (unit kres \<times> module_state \<times> kcall list) option" where
  "rocm_xio_mmap env vma st =
     (if vm_pgoff vma = 0
      then (case mmio_bridge_mmap env vma st of (ret, cs) \<Rightarrow> Some (ret, st, cs))
      else map_option (\<lambda>(ret, ca, cs). (ret, st\<lparr>m_contig := ca\<rparr>, cs)) (contig_mmap env vma (m_contig st)))"

definition rocm_xio_uring_cmd :: "unit kres" where
  "rocm_xio_uring_cmd = Inl ENOSYS"

definition rocm_xio_release :: "kenv \<Rightarrow> ptr \<Rightarrow> module_state \<Rightarrow> (module_state \<times> kcall list) option" where
  "rocm_xio_release env file st =
     (case release_registry file (m_reg st) of
        (reg, cs) \<Rightarrow>
          (case release_contigs file (m_contig st) of
             None \<Rightarrow> None
           | Some (ca, ds) \<Rightarrow>
               (case release_quiesced env file (m_quiesced st) of
                  (qn, es) \<Rightarrow> Some (st\<lparr>m_reg := reg, m_contig := ca, m_quiesced := qn\<rparr>, cs @ ds @ es))))"

subsection \<open>init and exit\<close>

definition rocm_xio_init :: "kenv \<Rightarrow> bool \<Rightarrow> module_state kres \<times> kcall list" where
  "rocm_xio_init env enabled =
     (case register_fails env Chrdev of
        Some e \<Rightarrow> (Inl e, [])
      | None \<Rightarrow>
         (case register_fails env Device_class of
            Some e \<Rightarrow> (Inl e, [Register Chrdev, Unregister Chrdev])
          | None \<Rightarrow>
             (case register_fails env Device_node of
                Some e \<Rightarrow> (Inl e, [Register Chrdev, Register Device_class, Unregister Device_class,
                                  Unregister Chrdev])
              | None \<Rightarrow>
                 (let kp = (enabled \<and> register_fails env Kprobe_submit = None);
                      ka = (register_fails env Kretprobe_alloc = None);
                      kc = (register_fails env Kretprobe_create = None)
                  in (Inr ((module_init_state enabled)\<lparr>inject_enabled := kp, m_kprobe := kp,
                        nvme_alloc_queue_krp_registered := ka, nvme_create_queue_krp_registered := kc\<rparr>),
                      [Register Chrdev, Register Device_class, Register Device_node] @
                      (if kp then [Register Kprobe_submit] else []) @
                      (if ka then [Register Kretprobe_alloc] else []) @
                      (if kc then [Register Kretprobe_create] else []))))))"

definition rocm_xio_exit :: "kenv \<Rightarrow> module_state \<Rightarrow> (module_state \<times> kcall list) option" where
  "rocm_xio_exit env st =
     (let unprobe = (if inject_enabled st then [Unregister Kprobe_submit] else []) @
                    (if nvme_alloc_queue_krp_registered st then [Unregister Kretprobe_alloc] else []) @
                    (if nvme_create_queue_krp_registered st then [Unregister Kretprobe_create] else []) @
                    [Cancel_work_sync_snapshot, Cancel_work_sync_resurrect]
      in case exit_snapshots (m_snap st) of
           (sn, cs1) \<Rightarrow> (case exit_poisoned (m_poison st) of
             (po, cs2) \<Rightarrow> (case exit_registry (m_reg st) of
               (reg, cs3) \<Rightarrow> (case exit_contigs (m_contig st) of
                  None \<Rightarrow> None
                | Some (ca, cs4) \<Rightarrow> (case exit_quiesced env (m_quiesced st) of
                    (qn, cs5) \<Rightarrow>
                      Some (st\<lparr>m_snap := sn, m_poison := po, m_reg := reg, m_contig := ca, m_quiesced := qn,
                               m_kprobe := (m_kprobe st \<and> \<not> inject_enabled st),
                               nvme_alloc_queue_krp_registered := False,
                               nvme_create_queue_krp_registered := False\<rparr>,
                            unprobe @ cs1 @ cs2 @ cs3 @ cs4 @ cs5 @
                            [Unregister Device_node, Unregister Device_class, Unregister Chrdev]))))))"

subsection \<open>Events\<close>

text \<open>
  What an event may assume of the kernel: the block-layer topology is the one of \<open>env0\<close>, DMA-BUF
  functions that succeed return objects, and \<^verbatim>\<open>kmalloc\<close> returns memory that is not in use.
\<close>

definition module_env :: "kenv \<Rightarrow> module_state \<Rightarrow> kenv \<Rightarrow> bool" where
  "module_env env0 st env \<longleftrightarrow>
     same_blk env0 env \<and> dmabuf_ptrs_valid env \<and> ca_heap (m_contig st) (kmalloc_ptr env) = None"

inductive module_step :: "kenv \<Rightarrow> module_state \<Rightarrow> kcall list \<Rightarrow> module_state \<Rightarrow> bool"
  for env0 :: kenv where
  ms_ioctl: "module_env env0 st env \<Longrightarrow> rocm_xio_ioctl env file cmd st = Some (ret, st', cs) \<Longrightarrow>
    module_step env0 st cs st'"
| ms_mmap: "rocm_xio_mmap env vma st = Some (mret, st', cs) \<Longrightarrow> module_step env0 st cs st'"
| ms_vma_open: "p \<in> set (contig_vmas (m_contig st)) \<Longrightarrow> contig_vma_open p (m_contig st) = Some ca \<Longrightarrow>
    module_step env0 st [] (st\<lparr>m_contig := ca\<rparr>)"
| ms_vma_close: "p \<in> set (contig_vmas (m_contig st)) \<Longrightarrow> contig_vma_close p (m_contig st) = Some (ca, cs) \<Longrightarrow>
    module_step env0 st cs (st\<lparr>m_contig := ca\<rparr>)"
| ms_release: "same_blk env0 env \<Longrightarrow> rocm_xio_release env file st = Some (st', cs) \<Longrightarrow>
    module_step env0 st cs st'"
| ms_probe: "m_kprobe st \<Longrightarrow>
    nvme_submit_user_cmd_pre env (inject_enabled st) arch (m_reg st) args cmd (m_poison st) = (cmd', po, cs) \<Longrightarrow>
    module_step env0 st cs (st\<lparr>m_poison := po\<rparr>)"
| ms_alloc_ret: "nvme_alloc_queue_krp_registered st \<Longrightarrow>
    nvme_alloc_queue_ret_handler env host ctx retval (m_snap st) = (sn, cs) \<Longrightarrow>
    module_step env0 st cs (st\<lparr>m_snap := sn\<rparr>)"
| ms_create_ret: "nvme_create_queue_krp_registered st \<Longrightarrow>
    nvme_create_queue_ret_handler env host ctx retval (m_snap st) = (sn, cs) \<Longrightarrow>
    module_step env0 st cs (st\<lparr>m_snap := sn\<rparr>)"
| ms_snapshot_work: "rocm_xio_snapshot_work_fn env oks (m_snap st) = (sn, cs) \<Longrightarrow>
    module_step env0 st cs (st\<lparr>m_snap := sn\<rparr>)"
| ms_resurrect_work: "resurrect_queued (m_poison st) \<Longrightarrow>
    rocm_xio_resurrect_work_fn env submit oks (nvme_queue_snapshots (m_snap st)) (m_poison st) host =
      (po, host', cs) \<Longrightarrow>
    module_step env0 st cs (st\<lparr>m_poison := po\<rparr>)"

definition module_inv :: "kenv \<Rightarrow> module_state \<Rightarrow> bool" where
  "module_inv env0 st \<longleftrightarrow> contig_inv (m_contig st) \<and> quiesced_inv env0 (m_quiesced st) \<and>
     inject_enabled st = m_kprobe st"

definition module_regs :: "module_state \<Rightarrow> res list" where
  "module_regs st = (if m_kprobe st then [RReg Kprobe_submit] else []) @
     (if nvme_alloc_queue_krp_registered st then [RReg Kretprobe_alloc] else []) @
     (if nvme_create_queue_krp_registered st then [RReg Kretprobe_create] else [])"

definition module_owned :: "kenv \<Rightarrow> module_state \<Rightarrow> res \<Rightarrow> int" where
  "module_owned env0 st r =
     registry_owned (m_reg st) r + contig_owned (m_contig st) r + quiesced_owned env0 (m_quiesced st) r +
     snapshot_owned (m_snap st) r + poison_owned (m_poison st) r + res_counts (module_regs st) r"

text \<open>The entries of the tables that do not belong to a file.\<close>

definition other_buffers :: "ptr \<Rightarrow> module_state \<Rightarrow> vram_buffer_entry list" where
  "other_buffers file st = filter (\<lambda>e. vb_owner e \<noteq> file) (vram_buffers (m_reg st))"

definition other_contigs :: "ptr \<Rightarrow> module_state \<Rightarrow> ptr list" where
  "other_contigs file st = filter (\<lambda>p. \<not> contig_owned_by file (m_contig st) p) (contig_allocs (m_contig st))"

definition other_quiesced :: "ptr \<Rightarrow> module_state \<Rightarrow> quiesced_ns_entry list" where
  "other_quiesced file st = filter (\<lambda>e. qe_owner e \<noteq> file) (m_quiesced st)"

subsection \<open>Accounting of the handlers\<close>

lemma get_vram_held: "held (snd (ioctl_get_vram_phys_addr env req)) r = 0"
  using get_dmabuf_bar_gpa_held [of env "vr_dmabuf_fd req" r]
  by (auto simp: ioctl_get_vram_phys_addr_def split: prod.splits sum.splits)

lemma get_device_info_held: "held (snd (ioctl_get_device_info env info)) r = 0"
  using query_held(1) [of env "di_bdf info" info r]
  by (auto simp: ioctl_get_device_info_def split: prod.splits sum.splits)

lemma get_mmio_bridge_held:
  assumes "ioctl_get_mmio_bridge env req st = (ret, st', cs)"
  shows "held cs r = 0"
  using assms query_held(2) [of env "ms_bridge_bdf req" req r]
  by (auto simp: ioctl_get_mmio_bridge_def Let_def split: prod.splits sum.splits if_splits)

lemma get_mmio_bridge_frame:
  assumes "ioctl_get_mmio_bridge env req st = (ret, st', cs)"
  shows "m_reg st' = m_reg st" "m_contig st' = m_contig st" "m_quiesced st' = m_quiesced st"
    "m_snap st' = m_snap st" "m_poison st' = m_poison st" "inject_enabled st' = inject_enabled st"
    "m_kprobe st' = m_kprobe st"
    "nvme_alloc_queue_krp_registered st' = nvme_alloc_queue_krp_registered st"
    "nvme_create_queue_krp_registered st' = nvme_create_queue_krp_registered st"
  using assms
  by (auto simp: ioctl_get_mmio_bridge_def Let_def split: prod.splits sum.splits if_splits)

lemma debug_resurrect_held:
  assumes "ioctl_debug_resurrect env req st = (ret, st', cs)"
  shows "held cs r = poison_owned st' r - poison_owned st r"
  using assms
  by (auto simp: ioctl_debug_resurrect_def split: if_splits prod.splits
      dest!: mark_created_held [where r = r] mark_deleted_held [where r = r])

lemma mmio_bridge_mmap_held: "held (snd (mmio_bridge_mmap env vma st)) r = 0"
  by (simp add: mmio_bridge_mmap_def Let_def split: option.split)

lemma module_owned_upd [simp]:
  "module_owned e (st\<lparr>m_reg := x1\<rparr>) r = module_owned e st r + registry_owned x1 r - registry_owned (m_reg st) r"
  "module_owned e (st\<lparr>m_contig := x2\<rparr>) r = module_owned e st r + contig_owned x2 r - contig_owned (m_contig st) r"
  "module_owned e (st\<lparr>m_quiesced := x3\<rparr>) r =
     module_owned e st r + quiesced_owned e x3 r - quiesced_owned e (m_quiesced st) r"
  "module_owned e (st\<lparr>m_snap := x4\<rparr>) r = module_owned e st r + snapshot_owned x4 r - snapshot_owned (m_snap st) r"
  "module_owned e (st\<lparr>m_poison := x5\<rparr>) r = module_owned e st r + poison_owned x5 r - poison_owned (m_poison st) r"
  by (simp_all add: module_owned_def module_regs_def)

lemma module_inv_upd [simp]:
  "module_inv e (st\<lparr>m_reg := x1\<rparr>) \<longleftrightarrow> module_inv e st"
  "module_inv e (st\<lparr>m_snap := x4\<rparr>) \<longleftrightarrow> module_inv e st"
  "module_inv e (st\<lparr>m_poison := x5\<rparr>) \<longleftrightarrow> module_inv e st"
  by (simp_all add: module_inv_def)

text \<open>A handler that keeps the invariant and whose trace accounts for what it changes.\<close>

definition accounted :: "kenv \<Rightarrow> module_state \<Rightarrow> module_state \<Rightarrow> kcall list \<Rightarrow> bool" where
  "accounted env0 st st' cs \<longleftrightarrow>
     module_inv env0 st' \<and> (\<forall>r. held cs r = module_owned env0 st' r - module_owned env0 st r)"

lemma accounted_reg:
  "module_inv env0 st \<Longrightarrow> (\<And>r. held cs r = registry_owned reg r - registry_owned (m_reg st) r) \<Longrightarrow>
     accounted env0 st (st\<lparr>m_reg := reg\<rparr>) cs"
  by (simp add: accounted_def)

lemma accounted_snap:
  "module_inv env0 st \<Longrightarrow> (\<And>r. held cs r = snapshot_owned sn r - snapshot_owned (m_snap st) r) \<Longrightarrow>
     accounted env0 st (st\<lparr>m_snap := sn\<rparr>) cs"
  by (simp add: accounted_def)

lemma accounted_poison:
  "module_inv env0 st \<Longrightarrow> (\<And>r. held cs r = poison_owned po r - poison_owned (m_poison st) r) \<Longrightarrow>
     accounted env0 st (st\<lparr>m_poison := po\<rparr>) cs"
  by (simp add: accounted_def)

lemma accounted_contig:
  "module_inv env0 st \<Longrightarrow> contig_inv ca \<Longrightarrow>
     (\<And>r. held cs r = contig_owned ca r - contig_owned (m_contig st) r) \<Longrightarrow>
     accounted env0 st (st\<lparr>m_contig := ca\<rparr>) cs"
  unfolding accounted_def by (simp add: module_inv_def)

lemma accounted_quiesced:
  "module_inv env0 st \<Longrightarrow> quiesced_inv env0 qn \<Longrightarrow>
     (\<And>r. held cs r = quiesced_owned env0 qn r - quiesced_owned env0 (m_quiesced st) r) \<Longrightarrow>
     accounted env0 st (st\<lparr>m_quiesced := qn\<rparr>) cs"
  unfolding accounted_def by (simp add: module_inv_def)

lemma accounted_same: "module_inv env0 st \<Longrightarrow> (\<And>r. held cs r = 0) \<Longrightarrow> accounted env0 st st cs"
  by (simp add: accounted_def)

lemma module_invD:
  assumes "module_inv env0 st"
  shows "contig_inv (m_contig st)" "quiesced_inv env0 (m_quiesced st)" "inject_enabled st = m_kprobe st"
  using assms by (simp_all add: module_inv_def)

lemma ioctl_total:
  assumes "module_inv env0 st"
  shows "\<exists>ret st' cs. rocm_xio_ioctl env file cmd st = Some (ret, st', cs)"
proof (cases cmd)
  case (ROCM_XIO_FREE_CONTIG_QUEUE i)
  with free_contig_ok [OF module_invD(1) [OF assms], of env "file" i] show ?thesis
    by (auto simp: rocm_xio_ioctl_def)
qed (simp_all add: rocm_xio_ioctl_def split: prod.split)

lemma ioctl_accounted:
  assumes inv: "module_inv env0 st" and env: "module_env env0 st env"
    and eq: "rocm_xio_ioctl env file cmd st = Some (ret, st', cs)"
  shows "accounted env0 st st' cs"
proof (cases cmd)
  case (ROCM_XIO_GET_VRAM_PHYS_ADDR req)
  with eq get_vram_held [of env req] inv show ?thesis
    by (auto simp: rocm_xio_ioctl_def intro!: accounted_same split: prod.splits)
next
  case (ROCM_XIO_GET_DEVICE_INFO info)
  with eq get_device_info_held [of env info] inv show ?thesis
    by (auto simp: rocm_xio_ioctl_def intro!: accounted_same split: prod.splits)
next
  case (ROCM_XIO_REGISTER_QUEUE_ADDR req)
  with eq inv show ?thesis
    by (auto simp: rocm_xio_ioctl_def intro!: accounted_reg register_queue_addr_held split: prod.splits)
next
  case (ROCM_XIO_UNREGISTER_QUEUE_ADDR v)
  with eq inv show ?thesis
    by (auto simp: rocm_xio_ioctl_def intro!: accounted_reg unregister_queue_addr_held split: prod.splits)
next
  case (ROCM_XIO_REGISTER_BUFFER req)
  with eq inv env show ?thesis
    by (auto simp: rocm_xio_ioctl_def module_env_def intro!: accounted_reg register_buffer_held split: prod.splits)
next
  case (ROCM_XIO_UNREGISTER_BUFFER v)
  with eq inv show ?thesis
    by (auto simp: rocm_xio_ioctl_def intro!: accounted_reg unregister_buffer_held split: prod.splits)
next
  case (ROCM_XIO_GET_MMIO_BRIDGE_SHADOW_BUFFER req)
  with eq obtain ret' where m: "ioctl_get_mmio_bridge env req st = (ret', st', cs)"
    by (auto simp: rocm_xio_ioctl_def split: prod.splits)
  with get_mmio_bridge_held [OF m] get_mmio_bridge_frame [OF m] inv show ?thesis
    by (simp add: accounted_def module_inv_def module_owned_def module_regs_def)
next
  case (ROCM_XIO_ALLOC_CONTIG_QUEUE req)
  with eq obtain ret' ca where "ioctl_alloc_contig env file req (m_contig st) = (ret', ca, cs)"
    and "st' = st\<lparr>m_contig := ca\<rparr>"
    by (auto simp: rocm_xio_ioctl_def split: prod.splits)
  with alloc_contig_ok [OF module_invD(1) [OF inv]] env inv show ?thesis
    by (auto simp: module_env_def intro!: accounted_contig)
next
  case (ROCM_XIO_QUIESCE_NS req)
  with eq obtain ret' qn where "ioctl_quiesce_ns env file req (m_quiesced st) = (ret', qn, cs)"
    and "st' = st\<lparr>m_quiesced := qn\<rparr>"
    by (auto simp: rocm_xio_ioctl_def split: prod.splits)
  with quiesce_ns_ok [OF _ module_invD(2) [OF inv]] env inv show ?thesis
    by (auto simp: module_env_def intro!: accounted_quiesced)
next
  case (ROCM_XIO_UNQUIESCE_NS req)
  with eq obtain ret' qn where "ioctl_unquiesce_ns env file req (m_quiesced st) = (ret', qn, cs)"
    and "st' = st\<lparr>m_quiesced := qn\<rparr>"
    by (auto simp: rocm_xio_ioctl_def split: prod.splits)
  with unquiesce_ns_ok [OF _ module_invD(2) [OF inv]] env inv show ?thesis
    by (auto simp: module_env_def intro!: accounted_quiesced)
next
  case (ROCM_XIO_DEBUG_RESURRECT_QID req)
  with eq inv show ?thesis
    by (auto simp: rocm_xio_ioctl_def intro!: accounted_poison debug_resurrect_held split: prod.splits)
next
  case (ROCM_XIO_FREE_CONTIG_QUEUE i)
  with eq free_contig_ok [OF module_invD(1) [OF inv], of env "file" i] inv show ?thesis
    by (auto simp: rocm_xio_ioctl_def intro!: accounted_contig)
qed (use eq inv in \<open>auto simp: rocm_xio_ioctl_def intro!: accounted_same\<close>)

lemma mmap_total:
  assumes "module_inv env0 st"
  shows "\<exists>ret st' cs. rocm_xio_mmap env vma st = Some (ret, st', cs)"
  using contig_mmap_ok [OF module_invD(1) [OF assms], of env vma]
  by (auto simp: rocm_xio_mmap_def split: prod.split)

lemma mmap_accounted:
  assumes "module_inv env0 st" and "rocm_xio_mmap env vma st = Some (ret, st', cs)"
  shows "accounted env0 st st' cs"
proof (cases "vm_pgoff vma = 0")
  case True
  with assms mmio_bridge_mmap_held [of env vma st] show ?thesis
    by (auto simp: rocm_xio_mmap_def intro!: accounted_same split: prod.splits)
next
  case False
  with assms contig_mmap_ok [OF module_invD(1) [OF assms(1)], of env vma] show ?thesis
    by (auto simp: rocm_xio_mmap_def intro!: accounted_contig)
qed

lemma accounted_trans:
  "accounted env0 st st1 cs \<Longrightarrow> accounted env0 st1 st2 ds \<Longrightarrow> accounted env0 st st2 (cs @ ds)"
  by (simp add: accounted_def)

lemma release_parts:
  assumes inv: "module_inv env0 st"
  obtains reg cs ca ds qn es where "release_registry f (m_reg st) = (reg, cs)"
    "release_contigs f (m_contig st) = Some (ca, ds)"
    "release_quiesced env f (m_quiesced st) = (qn, es)"
    "rocm_xio_release env f st =
       Some (st\<lparr>m_reg := reg, m_contig := ca, m_quiesced := qn\<rparr>, cs @ ds @ es)"
proof -
  obtain reg cs where reg: "release_registry f (m_reg st) = (reg, cs)" by fastforce
  obtain ca ds where "release_contigs f (m_contig st) = Some (ca, ds)"
    using release_contigs_ok [OF module_invD(1) [OF inv], of f] by blast
  moreover obtain qn es where "release_quiesced env f (m_quiesced st) = (qn, es)" by fastforce
  ultimately show thesis using reg by (intro that) (simp_all add: rocm_xio_release_def)
qed

lemma release_accounted:
  assumes inv: "module_inv env0 st" and blk: "same_blk env0 env"
    and eq: "rocm_xio_release env file st = Some (st', cs)"
  shows "accounted env0 st st' cs"
  using inv
proof (cases rule: release_parts [where env = env and f = "file"])
  case (1 reg cs1 ca cs2 qn cs3)
  let ?st1 = "st\<lparr>m_reg := reg\<rparr>"
  let ?st2 = "?st1\<lparr>m_contig := ca\<rparr>"
  have a1: "accounted env0 st ?st1 cs1"
    using inv 1(1) by (intro accounted_reg release_registry_held)
  have "contig_inv ca" "\<And>r. held cs2 r = contig_owned ca r - contig_owned (m_contig st) r"
    using release_contigs_ok [OF module_invD(1) [OF inv], of "file"] 1(2) by auto
  then have a2: "accounted env0 ?st1 ?st2 cs2" using inv by (intro accounted_contig) simp_all
  then have inv2: "module_inv env0 ?st2" by (simp add: accounted_def)
  have "accounted env0 ?st2 (?st2\<lparr>m_quiesced := qn\<rparr>) cs3"
    using release_quiesced_ok [OF blk module_invD(2) [OF inv] 1(3)] by (intro accounted_quiesced inv2) simp_all
  from accounted_trans [OF a1 accounted_trans [OF a2 this]] eq 1(4) show ?thesis by simp
qed

lemma module_step_accounted:
  assumes "module_step env0 st cs st'" and "module_inv env0 st"
  shows "accounted env0 st st' cs"
  using assms
proof (induction rule: module_step.induct)
  case (ms_ioctl st env f cmd ret st' cs)
  then show ?case by (blast intro: ioctl_accounted)
next
  case (ms_mmap env vma st mret st' cs)
  then show ?case by (blast intro: mmap_accounted)
next
  case (ms_vma_open p st ca)
  with contig_vma_open_ok [OF module_invD(1) [OF ms_vma_open(3)] ms_vma_open(1)] show ?case
    by (auto intro!: accounted_contig)
next
  case (ms_vma_close p st ca cs)
  with contig_vma_close_ok [OF module_invD(1) [OF ms_vma_close(3)] ms_vma_close(1)] show ?case
    by (auto intro!: accounted_contig)
next
  case (ms_release env f st st' cs)
  then show ?case by (blast intro: release_accounted)
next
  case (ms_probe st env arch args cmd cmd' po cs)
  then show ?case by (intro accounted_poison submit_user_cmd_pre_held)
next
  case (ms_alloc_ret st env host ctx retval sn cs)
  then show ?case by (intro accounted_snap snapshot_step_held ss_alloc)
next
  case (ms_create_ret st env host ctx retval sn cs)
  then show ?case by (intro accounted_snap snapshot_step_held ss_create)
next
  case (ms_snapshot_work env oks st sn cs)
  then show ?case by (intro accounted_snap snapshot_step_held ss_work)
next
  case (ms_resurrect_work st env submit oks host po host' cs)
  then show ?case by (intro accounted_poison resurrect_work_held)
qed

interpretation modl: resource_accounting "module_step env0" "module_inv env0" "module_owned env0" for env0
  by unfold_locales (use module_step_accounted in \<open>auto simp: accounted_def\<close>)

subsection \<open>Loading and unloading\<close>

definition static_res :: "res list" where
  "static_res = [RReg Chrdev, RReg Device_class, RReg Device_node]"

lemma init_ok:
  "case rocm_xio_init env enabled of
     (Inl e, cs) \<Rightarrow> held cs r = 0
   | (Inr st, cs) \<Rightarrow> module_inv env0 st \<and> held cs r = module_owned env0 st r + res_counts static_res r"
  by (auto simp: rocm_xio_init_def module_init_state_def module_inv_def module_owned_def module_regs_def
      static_res_def contig_inv_def contig_init_def holders_def refs_ok_def contig_owned_def
      snapshot_owned_def snapshot_init_def poison_owned_def poison_init_def Let_def split: option.splits)

lemma exit_ok:
  assumes inv: "module_inv env0 st" and blk: "same_blk env0 env" and vmas: "contig_vmas (m_contig st) = []"
  shows "\<exists>st' cs. rocm_xio_exit env st = Some (st', cs) \<and>
    (\<forall>r. module_owned env0 st' r = 0) \<and>
    (\<forall>r. held cs r = - module_owned env0 st r - res_counts static_res r)"
proof -
  obtain ca cs4 where ca: "exit_contigs (m_contig st) = Some (ca, cs4)" "contig_inv ca" "contig_allocs ca = []"
    "contig_vmas ca = []" "\<And>r. held cs4 r = contig_owned ca r - contig_owned (m_contig st) r"
    using exit_contigs_ok [OF module_invD(1) [OF inv]] vmas by auto
  obtain qn cs5 where qn: "exit_quiesced env (m_quiesced st) = (qn, cs5)" by fastforce
  obtain sn cs1 where sn: "exit_snapshots (m_snap st) = (sn, cs1)" by fastforce
  obtain po cs2 where po: "exit_poisoned (m_poison st) = (po, cs2)" by fastforce
  obtain reg cs3 where reg: "exit_registry (m_reg st) = (reg, cs3)" by fastforce
  have "refs_ok {#} (ca_heap ca)" using ca(2-4) by (simp add: contig_inv_def holders_def)
  then have zero: "contig_owned ca r = 0" "registry_owned reg r = 0" "snapshot_owned sn r = 0"
    "poison_owned po r = 0" "quiesced_owned env0 qn r = 0" for r
    using sn po reg qn
    by (auto simp: contig_owned_none exit_snapshots_def nvme_queue_snapshots_free_all_def snapshot_owned_def
        exit_poisoned_def poison_owned_def poison_init_def exit_registry_def exit_quiesced_def)
  have bal: "held cs1 r = - snapshot_owned (m_snap st) r" "held cs2 r = - poison_owned (m_poison st) r"
    "held cs3 r = - registry_owned (m_reg st) r" "held cs4 r = - contig_owned (m_contig st) r"
    "held cs5 r = - quiesced_owned env0 (m_quiesced st) r" for r
    using snapshot_step_held [OF ss_exit [OF sn], of r] exit_poisoned_held [OF po, of r]
      exit_registry_held [OF reg, of r] ca(5) [of r] exit_quiesced_ok [OF blk module_invD(2) [OF inv] qn, of r]
      zero [of r] by simp_all
  show ?thesis
    using ca(1) qn sn po reg zero bal module_invD(3) [OF inv]
    by (simp add: rocm_xio_exit_def Let_def module_owned_def module_regs_def static_res_def)
qed

subsection \<open>Isolation between files\<close>

lemma filter_unlink_first:
  assumes "unlink_first P xs = Some (x, ys)" and "\<And>z. P z \<Longrightarrow> \<not> Q z"
  shows "filter Q ys = filter Q xs"
proof -
  from unlink_first_Some [OF assms(1)] obtain us vs where "P x" "xs = us @ x # vs" "ys = us @ vs" by blast
  with assms(2) show ?thesis by simp
qed

lemma filter_remove1_other: "\<not> Q x \<Longrightarrow> filter Q (remove1 x xs) = filter Q xs"
  by (induction xs) auto

lemma kref_put_owner:
  assumes "ca_kref_put p st = Some (st', cs)" and "ca_heap st' q = Some ca'"
  shows "\<exists>ca. ca_heap st q = Some ca \<and> ca_owner ca' = ca_owner ca"
  using assms
  by (cases "q = p") (auto simp: ca_kref_put_def contig_alloc_release_def split: option.splits if_splits)

lemma kref_puts_owner:
  "ca_kref_puts ps st = Some (st', cs) \<Longrightarrow> ca_heap st' q = Some ca' \<Longrightarrow>
     \<exists>ca. ca_heap st q = Some ca \<and> ca_owner ca' = ca_owner ca"
proof (induction ps st arbitrary: st' cs ca' rule: ca_kref_puts.induct)
  case (1 st)
  then show ?case by simp
next
  case (2 p ps st)
  then obtain st1 cs1 cs2 where put: "ca_kref_put p st = Some (st1, cs1)"
    and puts: "ca_kref_puts ps st1 = Some (st', cs2)"
    by (auto split: option.splits)
  from "2.IH" [OF put refl puts "2.prems"(2)] obtain ca1 where
    "ca_heap st1 q = Some ca1" "ca_owner ca' = ca_owner ca1" by blast
  with kref_put_owner [OF put] show ?case by fastforce
qed

lemma owned_by_same:
  assumes "\<And>q ca'. ca_heap st' q = Some ca' \<Longrightarrow> \<exists>ca. ca_heap st q = Some ca \<and> ca_owner ca' = ca_owner ca"
    and "contig_inv st'"
  shows "filter (\<lambda>p. \<not> contig_owned_by f st' p) (contig_allocs st') =
    filter (\<lambda>p. \<not> contig_owned_by f st p) (contig_allocs st')"
proof (rule filter_cong [OF refl])
  fix p
  assume "p \<in> set (contig_allocs st')"
  with contig_inv_live [OF assms(2)] obtain ca' where "ca_heap st' p = Some ca'"
    by (auto simp: list_all_iff)
  with assms(1) show "(\<not> contig_owned_by f st' p) = (\<not> contig_owned_by f st p)"
    by (fastforce simp: contig_owned_by_def)
qed

lemma alloc_contig_others:
  assumes "contig_inv st" and "ca_heap st (kmalloc_ptr env) = None"
    and "ioctl_alloc_contig env f req st = (ret, st', cs)"
  shows "filter (\<lambda>p. \<not> contig_owned_by f st' p) (contig_allocs st') =
    filter (\<lambda>p. \<not> contig_owned_by f st p) (contig_allocs st)"
proof -
  let ?p = "kmalloc_ptr env"
  have fresh: "?p \<notin> set (contig_allocs st)"
    using contig_inv_live [OF assms(1)] assms(2) by (auto simp: list_all_iff)
  have old: "filter (\<lambda>q. \<not> contig_owned_by f st1 q) (contig_allocs st) =
      filter (\<lambda>q. \<not> contig_owned_by f st q) (contig_allocs st)"
    if "\<And>q. q \<noteq> ?p \<Longrightarrow> ca_heap st1 q = ca_heap st q" for st1
  proof (rule filter_cong [OF refl])
    fix x
    assume "x \<in> set (contig_allocs st)"
    with fresh have "x \<noteq> ?p" by metis
    with that show "(\<not> contig_owned_by f st1 x) = (\<not> contig_owned_by f st x)"
      by (simp add: contig_owned_by_def)
  qed
  from assms(3) show ?thesis
  proof (cases rule: alloc_contig_cases)
    case err
    then show ?thesis by simp
  next
    case (undo c d n v)
    then have "contig_allocs st' = contig_allocs st" "\<And>q. q \<noteq> ?p \<Longrightarrow> ca_heap st' q = ca_heap st q"
      by (simp_all add: contig_alloc_undo_def contig_alloc_link_def)
    with old [of st'] show ?thesis by simp
  next
    case (linked c d n v)
    then have "contig_allocs st' = ?p # contig_allocs st" "\<And>q. q \<noteq> ?p \<Longrightarrow> ca_heap st' q = ca_heap st q"
      "contig_owned_by f st' ?p"
      by (simp_all add: contig_alloc_link_def contig_owned_by_def)
    with old [of st'] show ?thesis by simp
  qed
qed

lemma free_contig_others:
  assumes "contig_inv st" and "ioctl_free_contig env f i st = Some (ret, st', cs)"
  shows "filter (\<lambda>p. \<not> contig_owned_by f st' p) (contig_allocs st') =
    filter (\<lambda>p. \<not> contig_owned_by f st p) (contig_allocs st)"
proof (cases "st' = st")
  case False
  with assms(2) obtain p st1 where u: "contig_unlink f i st = Some (Some (p, st1))"
    and put: "ca_kref_put p st1 = Some (st', cs)"
    by (auto simp: ioctl_free_contig_def split: if_splits option.splits)
  then have st1: "st1 = st\<lparr>contig_allocs := remove1 p (contig_allocs st)\<rparr>" and p: "contig_owned_by f st p"
    by (auto simp: contig_unlink_def contig_owned_by_def dest!: ca_scan_SomeD)
  have allocs: "contig_allocs st' = remove1 p (contig_allocs st)"
    using put st1 by (auto simp: ca_kref_put_def contig_alloc_release_def split: option.splits if_splits)
  have inv: "contig_inv st'" using free_contig_ok [OF assms(1), of env f i] assms(2) by auto
  have "\<exists>ca. ca_heap st q = Some ca \<and> ca_owner ca' = ca_owner ca" if "ca_heap st' q = Some ca'" for q ca'
    using kref_put_owner [OF put that] st1 by simp
  from owned_by_same [OF this inv] p show ?thesis by (simp add: allocs filter_remove1_other)
qed simp

lemma release_contigs_others:
  assumes "contig_inv st" and "release_contigs f st = Some (st', cs)"
  shows "contig_allocs st' = filter (\<lambda>p. \<not> contig_owned_by f st p) (contig_allocs st) \<and>
    filter (\<lambda>p. \<not> contig_owned_by f st' p) (contig_allocs st') = contig_allocs st'"
proof -
  from release_contigs_ok [OF assms(1), of f] assms(2) have inv: "contig_inv st'"
    and allocs: "contig_allocs st' = filter (\<lambda>p. \<not> contig_owned_by f st p) (contig_allocs st)" by auto
  have "\<exists>ca. ca_heap st q = Some ca \<and> ca_owner ca' = ca_owner ca" if "ca_heap st' q = Some ca'" for q ca'
    using assms(2) kref_puts_owner [OF _ that] by (fastforce simp: release_contigs_def split: if_splits)
  from owned_by_same [OF this inv] allocs show ?thesis by simp
qed

lemma register_buffer_others:
  "ioctl_register_buffer env f req reg = (ret, reg', cs) \<Longrightarrow>
     filter (\<lambda>e. vb_owner e \<noteq> f) (vram_buffers reg') = filter (\<lambda>e. vb_owner e \<noteq> f) (vram_buffers reg)"
  by (auto simp: ioctl_register_buffer_def new_vram_buffer_entry_def Let_def
      split: if_splits prod.splits sum.splits)

lemma unregister_buffer_others:
  "ioctl_unregister_buffer env f v reg = (ret, reg', cs) \<Longrightarrow>
     filter (\<lambda>e. vb_owner e \<noteq> f) (vram_buffers reg') = filter (\<lambda>e. vb_owner e \<noteq> f) (vram_buffers reg)"
  by (auto simp: ioctl_unregister_buffer_def split: if_splits prod.splits option.splits
      intro!: filter_unlink_first)

lemma quiesce_others:
  "ioctl_quiesce_ns env f req qn = (ret, qn', cs) \<Longrightarrow>
     filter (\<lambda>e. qe_owner e \<noteq> f) qn' = filter (\<lambda>e. qe_owner e \<noteq> f) qn"
  by (erule quiesce_ns_cases) simp_all

lemma unquiesce_others:
  "ioctl_unquiesce_ns env f req qn = (ret, qn', cs) \<Longrightarrow>
     filter (\<lambda>e. qe_owner e \<noteq> f) qn' = filter (\<lambda>e. qe_owner e \<noteq> f) qn"
  by (auto simp: ioctl_unquiesce_ns_def Let_def split: if_splits prod.splits option.splits
      intro!: filter_unlink_first)

lemmas other_defs = other_buffers_def other_contigs_def other_quiesced_def

lemma ioctl_others:
  assumes inv: "module_inv env0 st" and env: "module_env env0 st env"
    and eq: "rocm_xio_ioctl env f cmd st = Some (ret, st', cs)"
  shows "other_buffers f st' = other_buffers f st \<and> other_contigs f st' = other_contigs f st \<and>
    other_quiesced f st' = other_quiesced f st"
proof (cases cmd)
  case (ROCM_XIO_GET_MMIO_BRIDGE_SHADOW_BUFFER req)
  with eq obtain ret' where m: "ioctl_get_mmio_bridge env req st = (ret', st', cs)"
    by (auto simp: rocm_xio_ioctl_def split: prod.splits)
  from get_mmio_bridge_frame [OF m] show ?thesis by (simp add: other_defs)
next
  case (ROCM_XIO_ALLOC_CONTIG_QUEUE req)
  with eq env alloc_contig_others [OF module_invD(1) [OF inv]] show ?thesis
    by (auto simp: rocm_xio_ioctl_def module_env_def other_defs split: prod.splits)
next
  case (ROCM_XIO_FREE_CONTIG_QUEUE i)
  with eq free_contig_others [OF module_invD(1) [OF inv]] show ?thesis
    by (auto simp: rocm_xio_ioctl_def other_defs split: prod.splits)
next
  case (ROCM_XIO_REGISTER_QUEUE_ADDR req)
  with eq show ?thesis
    by (auto simp: rocm_xio_ioctl_def other_defs ioctl_register_queue_addr_def split: prod.splits if_splits)
next
  case (ROCM_XIO_UNREGISTER_QUEUE_ADDR v)
  with eq show ?thesis
    by (auto simp: rocm_xio_ioctl_def other_defs ioctl_unregister_queue_addr_def
        split: prod.splits if_splits option.splits)
qed (use eq in \<open>auto simp: rocm_xio_ioctl_def other_defs split: prod.splits
    dest: register_buffer_others unregister_buffer_others quiesce_others unquiesce_others\<close>)

subsection \<open>Properties\<close>



text \<open>C7. Files are isolated: an ioctl of one file leaves the buffers, queue memory and quiesce
  entries of all others as they are, and closing a file removes exactly its own.\<close>

theorem module_isolation:
  assumes "module_inv env0 st" and "module_env env0 st env"
    and "rocm_xio_ioctl env f cmd st = Some (ret, st1, cs)"
    and "rocm_xio_release env f st = Some (st2, ds)"
  shows "other_buffers f st1 = other_buffers f st \<and> other_contigs f st1 = other_contigs f st \<and>
    other_quiesced f st1 = other_quiesced f st \<and>
    vram_buffers (m_reg st2) = other_buffers f st \<and> contig_allocs (m_contig st2) = other_contigs f st \<and>
    m_quiesced st2 = other_quiesced f st"
proof -
  have "vram_buffers (m_reg st2) = other_buffers f st \<and> contig_allocs (m_contig st2) = other_contigs f st \<and>
      m_quiesced st2 = other_quiesced f st"
    using assms(1)
  proof (cases rule: release_parts [where env = env and f = f])
    case (1 reg cs1 ca cs2 qn cs3)
    with assms(4) release_contigs_others [OF module_invD(1) [OF assms(1)] 1(2)] show ?thesis
      by (auto simp: release_registry_simps release_quiesced_def other_defs)
  qed
  with ioctl_others [OF assms(1-3)] show ?thesis by simp
qed

text \<open>C10. An ioctl that fails keeps nothing and changes no table: the registrations, the listed queue
  memory, the quiesce list, the snapshots and the tracked queue ids are as before, and every
  reference taken on the way has been given back.\<close>

theorem ioctl_error_clean:
  assumes "module_inv env0 st" and "module_env env0 st env"
    and "rocm_xio_ioctl env f cmd st = Some (Inl e, st', cs)"
  shows "m_reg st' = m_reg st \<and> m_quiesced st' = m_quiesced st \<and> m_snap st' = m_snap st \<and>
    m_poison st' = m_poison st \<and> contig_allocs (m_contig st') = contig_allocs (m_contig st) \<and>
    ca_heap (m_contig st') = ca_heap (m_contig st) \<and> held cs r = 0"
proof -
  have tables: "m_reg st' = m_reg st \<and> m_quiesced st' = m_quiesced st \<and> m_snap st' = m_snap st \<and>
    m_poison st' = m_poison st \<and> contig_allocs (m_contig st') = contig_allocs (m_contig st) \<and>
    ca_heap (m_contig st') = ca_heap (m_contig st) \<and> module_regs st' = module_regs st"
  proof (cases cmd)
    case (ROCM_XIO_GET_MMIO_BRIDGE_SHADOW_BUFFER req)
    with assms(3) obtain ret' where m: "ioctl_get_mmio_bridge env req st = (ret', st', cs)"
      by (auto simp: rocm_xio_ioctl_def split: prod.splits)
    from get_mmio_bridge_frame [OF m] show ?thesis by (simp add: module_regs_def)
  next
    case (ROCM_XIO_ALLOC_CONTIG_QUEUE req)
    with assms(2,3) show ?thesis
      by (auto simp: rocm_xio_ioctl_def ioctl_alloc_contig_def module_env_def contig_alloc_undo_def
          contig_alloc_link_def Let_def module_regs_def split: if_splits option.splits prod.splits)
  next
    case (ROCM_XIO_REGISTER_BUFFER req)
    with assms(3) show ?thesis
      by (auto simp: rocm_xio_ioctl_def ioctl_register_buffer_def Let_def module_regs_def
          split: if_splits sum.splits prod.splits)
  next
    case (ROCM_XIO_QUIESCE_NS req)
    with assms(3) show ?thesis
      by (auto simp: rocm_xio_ioctl_def ioctl_quiesce_ns_def Let_def module_regs_def
          split: if_splits sum.splits prod.splits)
  qed (use assms(3) in \<open>auto simp: rocm_xio_ioctl_def ioctl_register_queue_addr_def
      ioctl_unregister_queue_addr_def ioctl_unregister_buffer_def ioctl_unquiesce_ns_def
      ioctl_debug_resurrect_def ioctl_free_contig_def Let_def module_regs_def
      split: if_splits option.splits prod.splits\<close>)
  moreover have "held cs r = module_owned env0 st' r - module_owned env0 st r"
    using ioctl_accounted [OF assms] by (simp add: accounted_def)
  ultimately show ?thesis by (simp add: module_owned_def contig_owned_def)
qed

text \<open>C33. A failed load gives back, in reverse order, what it had registered.\<close>

theorem init_failure_unwinds:
  "case rocm_xio_init env enabled of
     (Inl e, cs) \<Rightarrow> unwind [] cs = Some []
   | (Inr st, cs) \<Rightarrow> unwind [] cs \<noteq> None \<and> m_kprobe st = inject_enabled st"
  by (auto simp: rocm_xio_init_def module_init_state_def Let_def split: option.splits)

text \<open>
  The parameter \<open>inject_enabled\<close> has mode 0644: the administrator can write it while the module
  is loaded.
\<close>

definition set_inject_enabled :: "bool \<Rightarrow> module_state \<Rightarrow> module_state" where
  "set_inject_enabled b st = st\<lparr>inject_enabled := b\<rparr>"

text \<open>Unloading relies on the current value of the parameter instead of what was registered: if
  injection is switched off after a load that registered the kprobe, the unload leaves the kprobe
  registered on code that is about to disappear; if it is switched on after a load without the
  kprobe, the unload unregisters a kprobe that never was.\<close>

theorem exit_kprobe_mismatch:
  assumes "rocm_xio_init env enabled = (Inr st, cs)"
    and "rocm_xio_exit env' (set_inject_enabled (\<not> inject_enabled st) st) = Some (st', ds)"
  shows "held (cs @ ds) (RReg Kprobe_submit) = (if m_kprobe st then 1 else - 1) \<and>
    m_kprobe st' = m_kprobe st"
proof -
  have "exit_snapshots snapshot_init = (snapshot_init, [])" "exit_poisoned poison_init = (poison_init, [])"
    "exit_registry empty_registry = (empty_registry, [])"
    "exit_contigs contig_init = Some (contig_init, [])" "exit_quiesced env' [] = ([], [])"
    by (simp_all add: exit_snapshots_def nvme_queue_snapshots_free_all_def snapshot_init_def
        exit_poisoned_def poison_init_def exit_registry_def empty_registry_def exit_contigs_def
        contig_init_def exit_quiesced_def)
  with assms show ?thesis
    by (auto simp: rocm_xio_init_def rocm_xio_exit_def set_inject_enabled_def module_init_state_def
        Let_def res_count_def split: option.splits if_splits)
qed

text \<open>Mapping the bridge's shadow buffer maps all 8192 bytes from the start of the requested
  range, whatever its length: the length of the range is not compared with the buffer.\<close>

theorem mmio_bridge_mmap_whole:
  assumes "ioctl_get_mmio_bridge env req st = (Inr rep, st', cs)" and "vm_pgoff vma = 0"
    and "remap_pfn_range env' = None"
  shows "rocm_xio_mmap env' vma st' =
    Some (Inr (), st', [Remap_pfn_range (vm_start vma) (drop_bit PAGE_SHIFT (ms_shadow_gpa rep)) 8192])"
  using assms
  by (auto simp: ioctl_get_mmio_bridge_def get_mmio_bridge_shadow_buffer_def rocm_xio_mmap_def
      mmio_bridge_mmap_def Let_def split: if_splits)

subsection \<open>Concrete runs\<close>

definition sample_loaded :: module_state where
  "sample_loaded = (module_init_state True)\<lparr>m_kprobe := True, nvme_alloc_queue_krp_registered := True,
     nvme_create_queue_krp_registered := True\<rparr>"

definition sample_load_trace :: "kcall list" where
  "sample_load_trace = map Register
     [Chrdev, Device_class, Device_node, Kprobe_submit, Kretprobe_alloc, Kretprobe_create]"

lemma sample_load: "rocm_xio_init sample_env True = (Inr sample_loaded, sample_load_trace)"
  by (simp add: rocm_xio_init_def sample_loaded_def sample_load_trace_def module_init_state_def Let_def)

definition sample_quiesced :: module_state where
  "sample_quiesced = sample_loaded\<lparr>m_quiesced := [\<lparr>qe_bdev_file = 0x600, qe_bd = 0x620, qe_owner = 0x50,
     qe_mode = QUIESCED_NS_MODE_FULL, qe_hctx_idx = 0\<rparr>]\<rparr>"

lemma sample_env_valid:
  "same_blk sample_env sample_env" "dmabuf_ptrs_valid sample_env"
  "module_env sample_env sample_loaded sample_env" "module_env sample_env sample_quiesced sample_env"
  by (auto simp: same_blk_def dmabuf_ptrs_valid_def module_env_def sample_loaded_def sample_quiesced_def
      module_init_state_def contig_init_def)

lemma sample_run:
  "runs (module_step sample_env) sample_loaded
     [Fget 0x600, Kmalloc Obj_quiesced, Blk_mq_quiesce_queue 0x700] sample_quiesced"
proof (rule runs_one)
  have "rocm_xio_ioctl sample_env 0x50 (ROCM_XIO_QUIESCE_NS \<lparr>qn_bdev_fd = 4, qn_qid = 0\<rparr>) sample_loaded =
      Some (Inr Done, sample_quiesced, [Fget 0x600, Kmalloc Obj_quiesced, Blk_mq_quiesce_queue 0x700])"
    using sample_quiesce(1)
    by (simp add: rocm_xio_ioctl_def sample_loaded_def sample_quiesced_def module_init_state_def)
  then show "module_step sample_env sample_loaded
      [Fget 0x600, Kmalloc Obj_quiesced, Blk_mq_quiesce_queue 0x700] sample_quiesced"
    by (rule ms_ioctl [OF sample_env_valid(3)])
qed

lemma sample_inv: "module_inv sample_env sample_quiesced"
proof -
  from init_ok [where env = sample_env and enabled = True and env0 = sample_env] sample_load
  have "module_inv sample_env sample_loaded" by simp
  from modl.runs_inv [OF sample_run this] show ?thesis .
qed



theorem module_isolation_witness:
  "other_quiesced 0x60 (fst (snd (the (rocm_xio_ioctl sample_env 0x60
     (ROCM_XIO_QUIESCE_NS \<lparr>qn_bdev_fd = 4, qn_qid = 0\<rparr>) sample_quiesced)))) = m_quiesced sample_quiesced"
proof -
  obtain ret st1 cs where i: "rocm_xio_ioctl sample_env 0x60
      (ROCM_XIO_QUIESCE_NS \<lparr>qn_bdev_fd = 4, qn_qid = 0\<rparr>) sample_quiesced = Some (ret, st1, cs)"
    using ioctl_total [OF sample_inv] by blast
  obtain st2 ds where r: "rocm_xio_release sample_env 0x60 sample_quiesced = Some (st2, ds)"
    using sample_inv by (cases rule: release_parts [where env = sample_env and f = "0x60"]) simp
  have "other_quiesced 0x60 sample_quiesced = m_quiesced sample_quiesced"
    by (simp add: other_quiesced_def sample_quiesced_def)
  with module_isolation [OF sample_inv sample_env_valid(4) i r] show ?thesis
    by (simp add: i)
qed

theorem ioctl_error_clean_witness:
  "m_quiesced (fst (snd (the (rocm_xio_ioctl sample_env 0x50
     (ROCM_XIO_QUIESCE_NS \<lparr>qn_bdev_fd = 4, qn_qid = 9\<rparr>) sample_quiesced)))) = m_quiesced sample_quiesced"
proof -
  have "rocm_xio_ioctl sample_env 0x50 (ROCM_XIO_QUIESCE_NS \<lparr>qn_bdev_fd = 4, qn_qid = 9\<rparr>) sample_quiesced =
      Some (Inl ERANGE, sample_quiesced, [Fget 0x600, Fput 0x600])"
    by (simp add: rocm_xio_ioctl_def ioctl_quiesce_ns_def rocm_xio_file_to_bdev_def quiesce_target_def
        sample_quiesced_def)
  from ioctl_error_clean [OF sample_inv sample_env_valid(4) this] this show ?thesis by simp
qed

theorem exit_kprobe_mismatch_witness:
  "\<exists>st' ds. rocm_xio_exit sample_env (set_inject_enabled False sample_loaded) = Some (st', ds) \<and>
     held (sample_load_trace @ ds) (RReg Kprobe_submit) = 1"
proof -
  have "inject_enabled sample_loaded" "m_kprobe sample_loaded" "contig_inv (m_contig sample_loaded)"
    using sample_inv by (simp_all add: sample_loaded_def module_init_state_def module_inv_def sample_quiesced_def)
  moreover from this obtain st' ds where
    "rocm_xio_exit sample_env (set_inject_enabled False sample_loaded) = Some (st', ds)"
    using exit_contigs_ok [of "m_contig sample_loaded"]
    by (auto simp: rocm_xio_exit_def set_inject_enabled_def case_prod_beta)
  ultimately show ?thesis
    using exit_kprobe_mismatch [OF sample_load, of sample_env st' ds] by simp
qed

theorem mmio_bridge_mmap_whole_witness:
  "rocm_xio_mmap sample_env \<lparr>vm_start = 0x10000, vm_end = 0x11000, vm_pgoff = 0, vm_file = 0x50\<rparr>
     (sample_loaded\<lparr>mmio_bridge_shadow_gpa := 0x10000, mmio_bridge_shadow_size := 8192\<rparr>) =
   Some (Inr (), sample_loaded\<lparr>mmio_bridge_shadow_gpa := 0x10000, mmio_bridge_shadow_size := 8192\<rparr>,
     [Remap_pfn_range 0x10000 0x10 8192])"
  using mmio_bridge_mmap_whole [of sample_env
      "\<lparr>ms_bridge_bdf = 0x300, ms_shadow_gpa = 0, ms_shadow_size = 0\<rparr>" sample_loaded
      "\<lparr>ms_bridge_bdf = 0x300, ms_shadow_gpa = 0x10000, ms_shadow_size = 8192\<rparr>"
      "sample_loaded\<lparr>mmio_bridge_shadow_gpa := 0x10000, mmio_bridge_shadow_size := 8192\<rparr>" _
      "\<lparr>vm_start = 0x10000, vm_end = 0x11000, vm_pgoff = 0, vm_file = 0x50\<rparr>" sample_env]
  by (simp add: ioctl_get_mmio_bridge_def get_mmio_bridge_shadow_buffer_def pci_lookup_def PAGE_SHIFT_def)

end
