(* ===== verification/Nvme_Prp.thy ===== *)
theory Nvme_Prp
  imports Xio_Prelude
begin

text \<open>
  The pure part of the NVMe endpoint (\<^verbatim>\<open>src/src/endpoints/nvme-ep/nvme-ep.h\<close>): the layout of the
  pool of PRP lists, the PRP entries of a transfer, the fields of a submission entry and the
  decoding of the status of a completion entry. The correctness of the PRP entries is stated
  against the addressing rule of the NVMe specification (\<open>nvme_prp_byte\<close>), which says which
  byte of memory the controller accesses for each byte of a transfer.
\<close>

subsection \<open>Parameters and queue entries\<close>

definition NVME_PAGE_SIZE :: u64 where
  "NVME_PAGE_SIZE = 4096"

text \<open>A nullable array is an optional list; a nullable pointer is 0 when it is null.\<close>

record nvmeBufferParams =
  readBuffer :: ptr
  writeBuffer :: ptr
  bufferSize :: u64
  readBufferDma :: u64
  writeBufferDma :: u64
  readPagePhysAddrs :: "u64 list option"
  writePagePhysAddrs :: "u64 list option"
  readNumPages :: u32
  writeNumPages :: u32
  prpListPool :: ptr
  prpListPageDmas :: "u64 list option"
  prpListPoolDma :: u64
  prpEntriesPerCmd :: u32
  prpSlotsPerBatch :: u32

record nvme_sqe =
  sqe_opcode :: u8
  sqe_flags :: u8
  sqe_command_id :: u16
  sqe_nsid :: u32
  sqe_cdw2 :: u32
  sqe_cdw3 :: u32
  sqe_metadata :: u64
  sqe_prp1 :: u64
  sqe_prp2 :: u64
  sqe_cdw10 :: u32
  sqe_cdw11 :: u32
  sqe_cdw12 :: u32
  sqe_cdw13 :: u32
  sqe_cdw14 :: u32
  sqe_cdw15 :: u32

definition zero_sqe :: nvme_sqe where
  "zero_sqe = \<lparr>sqe_opcode = 0, sqe_flags = 0, sqe_command_id = 0, sqe_nsid = 0, sqe_cdw2 = 0,
     sqe_cdw3 = 0, sqe_metadata = 0, sqe_prp1 = 0, sqe_prp2 = 0, sqe_cdw10 = 0, sqe_cdw11 = 0,
     sqe_cdw12 = 0, sqe_cdw13 = 0, sqe_cdw14 = 0, sqe_cdw15 = 0\<rparr>"

record nvme_cqe =
  cqe_sq_head :: u16
  cqe_command_id :: u16
  cqe_status :: u16

subsection \<open>The pool of PRP lists\<close>

definition prpListEntriesPerPage :: u32 where
  "prpListEntriesPerPage = 512"

definition prpListDmaForSlot :: "nvmeBufferParams \<Rightarrow> u32 \<Rightarrow> u64" where
  "prpListDmaForSlot params slot =
     (case prpListPageDmas params of
        Some dmas \<Rightarrow> dmas ! unat slot
      | None \<Rightarrow>
          if prpListPoolDma params \<noteq> 0 \<and> prpEntriesPerCmd params \<noteq> 0
          then let stride = (if prpEntriesPerCmd params < prpListEntriesPerPage then prpListEntriesPerPage
                             else prpEntriesPerCmd params)
               in prpListPoolDma params + ucast slot * ucast stride * 8
          else 0)"

definition nvmePrpSlotsPerBatchVal :: "nvmeBufferParams \<Rightarrow> u32" where
  "nvmePrpSlotsPerBatchVal p = (if prpSlotsPerBatch p = 2 then 2 else 1)"

definition nvmePrpListWordOffset :: "nvmeBufferParams \<Rightarrow> u32 \<Rightarrow> bool \<Rightarrow> u32" where
  "nvmePrpListWordOffset p batchIdx isWrite =
     (let mul = nvmePrpSlotsPerBatchVal p;
          off = batchIdx * mul * prpEntriesPerCmd p
      in if mul > 1 \<and> isWrite then off + prpEntriesPerCmd p else off)"

definition nvmePrpListDmaSlotIndex :: "nvmeBufferParams \<Rightarrow> u32 \<Rightarrow> bool \<Rightarrow> u32" where
  "nvmePrpListDmaSlotIndex p batchIdx isWrite =
     (let mul = nvmePrpSlotsPerBatchVal p
      in if mul > 1 then batchIdx * mul + (if isWrite then 1 else 0) else batchIdx)"

subsection \<open>Submission and completion entries\<close>

definition sqeSetup :: "nvme_sqe \<Rightarrow> u64 \<Rightarrow> u32 \<Rightarrow> nvme_sqe" where
  "sqeSetup sqe slba nlb =
     (let sqe = sqe\<lparr>sqe_flags := 0, sqe_cdw2 := 0, sqe_cdw3 := 0, sqe_metadata := 0, sqe_cdw13 := 0,
                   sqe_cdw14 := 0, sqe_cdw15 := 0\<rparr>;
          sqe = (if slba \<noteq> 0
                 then sqe\<lparr>sqe_cdw10 := ucast (slba AND 0xFFFFFFFF),
                          sqe_cdw11 := ucast (drop_bit 32 slba AND 0xFFFFFFFF)\<rparr>
                 else sqe)
      in if nlb \<noteq> 0 then sqe\<lparr>sqe_cdw12 := nlb - 1\<rparr> else sqe)"

definition NVME_CQE_STATUS_PHASE :: "u16 \<Rightarrow> u8" where
  "NVME_CQE_STATUS_PHASE status = ucast (status AND 1)"

definition NVME_CQE_STATUS_SC :: "u16 \<Rightarrow> u8" where
  "NVME_CQE_STATUS_SC status = ucast (drop_bit 1 status AND 0xFF)"

definition NVME_CQE_STATUS_SCT :: "u16 \<Rightarrow> u8" where
  "NVME_CQE_STATUS_SCT status = ucast (drop_bit 9 status AND 7)"

definition NVME_STATUS_MAKE :: "u16 \<Rightarrow> u16 \<Rightarrow> u16 \<Rightarrow> u16" where
  "NVME_STATUS_MAKE phase sc sct =
     (phase AND 1) OR push_bit 1 (sc AND 0xFF) OR push_bit 9 (sct AND 7)"

definition cqeStatusCode :: "nvme_cqe \<Rightarrow> u8" where
  "cqeStatusCode cqe = NVME_CQE_STATUS_SC (cqe_status cqe)"

definition cqeStatusType :: "nvme_cqe \<Rightarrow> u8" where
  "cqeStatusType cqe = NVME_CQE_STATUS_SCT (cqe_status cqe)"

definition cqeOk :: "nvme_cqe \<Rightarrow> bool" where
  "cqeOk cqe \<longleftrightarrow> NVME_CQE_STATUS_SCT (cqe_status cqe) = 0 \<and> NVME_CQE_STATUS_SC (cqe_status cqe) = 0"

subsection \<open>PRP entries\<close>

definition prp_first_page_size :: "u64 \<Rightarrow> u64" where
  "prp_first_page_size bufferAddr = NVME_PAGE_SIZE - (bufferAddr AND (NVME_PAGE_SIZE - 1))"

text \<open>The number of pages after the first one, with the clamp to one page of list entries.\<close>

definition prp_num_remaining :: "u64 \<Rightarrow> u32 \<Rightarrow> u32" where
  "prp_num_remaining bufferAddr len =
     (let remaining = ucast (ucast len - prp_first_page_size bufferAddr) :: u32;
          n = (remaining + 4096 - 1) div 4096
      in if n > 512 then 512 else n)"

text \<open>
  The result is PRP1, PRP2 and the entries written to the list. \<open>prpList\<close> says whether there is a
  list to write to: a null list has been filled by the host.
\<close>

definition calculatePrps ::
    "u64 \<Rightarrow> u32 \<Rightarrow> bool \<Rightarrow> u64 \<Rightarrow> u64 list option \<Rightarrow> u32 \<Rightarrow> (u64 \<times> u64) \<times> u64 list" where
  "calculatePrps bufferAddr len prpList prpListDma pagePhysAddrs bufPageOffset =
     (let first_page_size = prp_first_page_size bufferAddr;
          next_page = (bufferAddr + first_page_size) AND NOT (NVME_PAGE_SIZE - 1);
          n = prp_num_remaining bufferAddr len
      in if ucast len \<le> first_page_size then ((bufferAddr, 0), [])
         else if n = 1 then
           ((bufferAddr, case pagePhysAddrs of
                           Some pa \<Rightarrow> pa ! unat (bufPageOffset + 1)
                         | None \<Rightarrow> next_page), [])
         else
           ((bufferAddr, prpListDma),
            if prpList
            then map (\<lambda>i. case pagePhysAddrs of
                            Some pa \<Rightarrow> pa ! unat (bufPageOffset + 1 + of_nat i)
                          | None \<Rightarrow> next_page + of_nat i * NVME_PAGE_SIZE) [0..<unat n]
            else []))"

text \<open>The overload without a list.\<close>

definition calculatePrps_short :: "u64 \<Rightarrow> u32 \<Rightarrow> u64 \<times> u64" where
  "calculatePrps_short bufferAddr len =
     (let first_page_size = prp_first_page_size bufferAddr
      in if ucast len \<le> first_page_size then (bufferAddr, 0)
         else (bufferAddr, (bufferAddr + first_page_size) AND NOT (NVME_PAGE_SIZE - 1)))"

subsection \<open>The addressing rule of the controller\<close>

text \<open>
  The address of byte \<open>k\<close> of a transfer of \<open>len\<close> bytes described by the two PRPs and the entries of
  the list that PRP2 points to: PRP1 up to the end of its page, then PRP2 itself if one more page is
  enough, and the entries of the list otherwise.
\<close>

definition nvme_prp_byte :: "u64 \<Rightarrow> u64 \<Rightarrow> u64 list \<Rightarrow> nat \<Rightarrow> nat \<Rightarrow> u64" where
  "nvme_prp_byte prp1 prp2 entries len k =
     (let o1 = unat prp1 mod 4096; p = (o1 + k) div 4096
      in if p = 0 then prp1 + of_nat k
         else if o1 + len \<le> 8192 then prp2 + of_nat ((o1 + k) mod 4096)
         else entries ! (p - 1) + of_nat ((o1 + k) mod 4096))"

text \<open>The address of byte \<open>k\<close> of a buffer that starts at \<open>addr\<close>, in page \<open>off\<close> of the table.\<close>

definition buffer_byte :: "u64 \<Rightarrow> u64 list option \<Rightarrow> nat \<Rightarrow> nat \<Rightarrow> u64" where
  "buffer_byte addr pages off k =
     (case pages of
        None \<Rightarrow> addr + of_nat k
      | Some pa \<Rightarrow>
          let o1 = unat addr mod 4096
          in if o1 + k < 4096 then addr + of_nat k
             else pa ! (off + (o1 + k) div 4096) + of_nat ((o1 + k) mod 4096))"

subsection \<open>Lemmas\<close>

lemma page_mask: "(a :: u64) AND 4095 = a mod 4096"
proof -
  have m: "mask 12 = (4095 :: u64)" by (simp add: mask_eq_exp_minus_1)
  have "a AND mask 12 = a mod 2 ^ 12" by (simp only: take_bit_eq_mask [symmetric] take_bit_eq_mod)
  then show ?thesis by (simp only: m) (simp only: power_numeral, simp)
qed

lemma unat_first_page_size: "unat (prp_first_page_size a) = 4096 - unat a mod 4096"
proof -
  have "unat (a mod 4096) = unat a mod 4096" by (simp add: unat_mod)
  moreover have "a mod 4096 \<le> 4096" by (simp add: word_le_nat_alt unat_mod)
  ultimately show ?thesis
    by (simp add: prp_first_page_size_def NVME_PAGE_SIZE_def page_mask unat_sub)
qed

lemma page_round_up: "((n :: nat) + (4096 - n mod 4096)) mod 4096 = 0"
proof -
  define q r where "q = n div 4096" and "r = n mod 4096"
  then have "n = q * 4096 + r" "r < 4096" by simp_all
  then have "n + (4096 - n mod 4096) = Suc q * 4096" by simp
  then show ?thesis by (simp only: mod_mult_self2_is_0)
qed

lemma unat_add_mod_page: "unat ((a :: u64) + b) mod 4096 = (unat a + unat b) mod 4096"
proof -
  have "(4096 :: nat) dvd 2 ^ 64" by (rule dvdI [of _ _ "2 ^ 52"]) simp
  then show ?thesis
    by (simp only: unat_word_ariths mod_mod_cancel len_bit0 len_num1 mult_1_right) (simp add: mod_mod_cancel)
qed

lemma next_page_eq:
  "(a + prp_first_page_size a) AND NOT (NVME_PAGE_SIZE - 1) = a + prp_first_page_size a"
proof -
  let ?x = "a + prp_first_page_size a"
  have "unat ?x mod 4096 = 0"
    by (simp only: unat_add_mod_page unat_first_page_size page_round_up)
  then have "?x AND 4095 = 0" by (simp add: page_mask word_unat_eq_iff unat_mod)
  moreover have "?x = (?x AND 4095) OR (?x AND NOT 4095)" by (rule bit_eqI) (auto simp: bit_simps)
  ultimately show ?thesis by (simp add: NVME_PAGE_SIZE_def)
qed

lemma unat_u32_bound: "unat (x :: u32) < 2 ^ 32"
  using unsigned_less [of x] by simp

lemma unat_ucast_u32 [simp]: "unat (ucast (x :: u32) :: u64) = unat x"
  using unat_u32_bound [of x] by (simp add: unsigned_ucast_eq take_bit_nat_eq_self)

lemma ucast_u32_le: "(ucast (len :: u32) :: u64) \<le> x \<longleftrightarrow> unat len \<le> unat x"
  by (simp add: word_le_nat_alt)

lemma unat_ucast_u64_u32: "unat (x :: u64) < 2 ^ 32 \<Longrightarrow> unat (ucast x :: u32) = unat x"
  by (simp add: unsigned_ucast_eq take_bit_nat_eq_self)

lemma unat_add_no_wrap: "unat (x :: u32) + unat y < 2 ^ 32 \<Longrightarrow> unat (x + y) = unat x + unat y"
  by (simp add: unat_word_ariths)

lemma unat_num_remaining:
  assumes "4096 - unat a mod 4096 < unat len" and "unat a mod 4096 + unat len \<le> 513 * 4096"
  shows "unat (prp_num_remaining a len) = (unat a mod 4096 + unat len - 1) div 4096"
proof -
  let ?o = "unat a mod 4096" and ?L = "unat len"
  define r where "r = (ucast (ucast len - prp_first_page_size a) :: u32)"
  have o: "?o < 4096" by simp
  have "unat (ucast len - prp_first_page_size a) = ?o + ?L - 4096"
    using assms(1) o by (subst unat_sub) (auto simp: ucast_u32_le [THEN iffD2] unat_first_page_size word_le_nat_alt)
  moreover have "?o + ?L - 4096 < 2 ^ 32" using assms(2) by simp
  ultimately have r: "unat r = ?o + ?L - 4096" by (simp add: r_def unat_ucast_u64_u32)
  have "unat (r + 4095) = ?o + ?L - 1"
    using assms o by (subst unat_add_no_wrap) (simp_all add: r)
  then have n: "unat ((r + 4095) div 4096) = (?o + ?L - 1) div 4096" by (simp add: unat_div)
  have "(?o + ?L - 1) div 4096 \<le> 512" using assms(2) by (simp add: div_le_mono [of _ "513 * 4096 - 1" 4096, simplified])
  with n have "\<not> (r + 4095) div 4096 > 512" by (simp add: word_less_nat_alt)
  with n show ?thesis by (simp add: prp_num_remaining_def Let_def r_def [symmetric] add_diff_eq [symmetric])
qed

lemma num_remaining_one:
  assumes "4096 - unat a mod 4096 < unat len" and "unat a mod 4096 + unat len \<le> 513 * 4096"
  shows "prp_num_remaining a len = 1 \<longleftrightarrow> unat a mod 4096 + unat len \<le> 8192"
proof -
  have "prp_num_remaining a len = 1 \<longleftrightarrow> (unat a mod 4096 + unat len - 1) div 4096 = 1"
    by (simp add: word_unat_eq_iff unat_num_remaining [OF assms])
  also have "\<dots> \<longleftrightarrow> unat a mod 4096 + unat len \<le> 8192"
    using assms(1) by (auto simp: div_nat_eqI)
  finally show ?thesis .
qed


lemma prp_entry_contiguous:
  assumes "4096 \<le> unat a mod 4096 + k"
  shows "a + prp_first_page_size a + of_nat ((unat a mod 4096 + k) div 4096 - 1) * NVME_PAGE_SIZE +
    of_nat ((unat a mod 4096 + k) mod 4096) = a + of_nat k"
proof -
  define o1 where "o1 = unat a mod 4096"
  define q r where "q = (o1 + k) div 4096 - 1" and "r = (o1 + k) mod 4096"
  have "(o1 + k) div 4096 \<noteq> 0" using assms by (simp add: div_eq_0_iff o1_def)
  then have "o1 + k = q * 4096 + 4096 + r"
    using div_mult_mod_eq [of "o1 + k" 4096] by (simp add: q_def r_def algebra_simps)
  moreover have "o1 < 4096" by (simp add: o1_def)
  ultimately have "4096 - o1 + (q * 4096 + r) = k" by linarith
  moreover have "prp_first_page_size a = of_nat (4096 - o1)"
    by (simp add: o1_def unat_first_page_size [symmetric])
  ultimately have "prp_first_page_size a + (of_nat q * 4096 + of_nat r) = of_nat k"
    by (metis of_nat_add of_nat_mult of_nat_numeral)
  then show ?thesis by (simp add: o1_def q_def r_def NVME_PAGE_SIZE_def add.assoc)
qed

lemma unat_page_index:
  assumes "unat (off :: u32) + 513 < 2 ^ 32" and "i < 512"
  shows "unat (off + 1 + of_nat i) = unat off + 1 + i"
proof -
  have i: "unat (of_nat i :: u32) = i" using assms(2) by (simp add: unsigned_of_nat take_bit_nat_eq_self)
  have 1: "unat (off + 1) = unat off + 1" using assms by (subst unat_add_no_wrap) simp_all
  show ?thesis using assms by (subst unat_add_no_wrap) (simp_all add: 1 i)
qed

lemma calculatePrps_list:
  assumes "8192 < unat a mod 4096 + unat len" and "unat a mod 4096 + unat len \<le> 513 * 4096"
  shows "calculatePrps a len True dma pages off = ((a, dma),
    map (\<lambda>i. case pages of
        Some pa \<Rightarrow> pa ! unat (off + 1 + of_nat i)
      | None \<Rightarrow> a + prp_first_page_size a + of_nat i * NVME_PAGE_SIZE)
      [0..<(unat a mod 4096 + unat len - 1) div 4096])"
proof -
  have long: "4096 - unat a mod 4096 < unat len" using assms(1) by simp
  then show ?thesis
    using assms num_remaining_one [OF long assms(2)]
    by (simp add: calculatePrps_def Let_def ucast_u32_le unat_first_page_size next_page_eq
        unat_num_remaining split: option.split)
qed

lemma calculatePrps_two:
  assumes "4096 < unat a mod 4096 + unat len" and "unat a mod 4096 + unat len \<le> 8192"
  shows "calculatePrps a len b dma pages off =
    ((a, case pages of Some pa \<Rightarrow> pa ! unat (off + 1) | None \<Rightarrow> a + prp_first_page_size a), [])"
proof -
  have long: "4096 - unat a mod 4096 < unat len" using assms(1) by simp
  then show ?thesis
    using assms num_remaining_one [OF long]
    by (simp add: calculatePrps_def Let_def ucast_u32_le unat_first_page_size next_page_eq
        split: option.split)
qed

lemma calculatePrps_one:
  assumes "unat a mod 4096 + unat len \<le> 4096"
  shows "calculatePrps a len b dma pages off = ((a, 0), [])"
proof -
  from assms have "unat len \<le> 4096 - unat a mod 4096" by (simp only: le_diff_conv2 add.commute mod_less_divisor less_imp_le zero_less_numeral)
  then show ?thesis by (simp add: calculatePrps_def Let_def ucast_u32_le unat_first_page_size)
qed

subsection \<open>Properties\<close>

text \<open>C5. For a transfer that one page of list entries can describe, the addresses the controller
  derives from the computed PRPs and list are, byte for byte, those of the buffer, contiguous or
  scattered; the list never has more than 512 entries.\<close>

theorem calculatePrps_device_view:
  assumes k: "k < unat len" and fit: "unat addr mod 4096 + unat len \<le> 513 * 4096"
    and off: "unat off + 513 < 2 ^ 32"
    and eq: "calculatePrps addr len True dma pages off = ((prp1, prp2), entries)"
  shows "nvme_prp_byte prp1 prp2 entries (unat len) k = buffer_byte addr pages (unat off) k \<and>
    length entries \<le> 512"
proof -
  define o1 where "o1 = unat addr mod 4096"
  define p where "p = (o1 + k) div 4096"
  have prp1: "prp1 = addr" using eq by (auto simp: calculatePrps_def Let_def split: if_splits)
  note eq = eq [unfolded prp1]
  have o1: "o1 < 4096" by (simp add: o1_def)
  consider "o1 + unat len \<le> 4096" | "4096 < o1 + unat len" "o1 + unat len \<le> 8192"
    | "8192 < o1 + unat len" by linarith
  then show ?thesis
  proof cases
    case 1
    with k have "p = 0" by (simp add: p_def div_eq_0_iff)
    with 1 eq k show ?thesis
      by (auto simp: calculatePrps_one nvme_prp_byte_def buffer_byte_def Let_def prp1 o1_def [symmetric]
          p_def [symmetric] split: option.split)
  next
    case 2
    show ?thesis
    proof (cases "o1 + k < 4096")
      case True
      then have "p = 0" by (simp add: p_def)
      with True 2 eq show ?thesis
        by (auto simp: calculatePrps_two nvme_prp_byte_def buffer_byte_def Let_def prp1 o1_def [symmetric]
            p_def [symmetric] split: option.split)
    next
      case False
      with 2 k have "p = 1" unfolding p_def by (intro div_nat_eqI) simp_all
      with False 2 eq off prp_entry_contiguous [of addr k] unat_page_index [of off 0] show ?thesis
        by (auto simp: calculatePrps_two nvme_prp_byte_def buffer_byte_def Let_def prp1 o1_def [symmetric]
            p_def [symmetric] split: option.split)
    qed
  next
    case 3
    have n: "(o1 + unat len - 1) div 4096 \<le> 512"
      using fit div_le_mono [of "o1 + unat len - 1" "513 * 4096 - 1" 4096] by (simp add: o1_def)
    show ?thesis
    proof (cases "o1 + k < 4096")
      case True
      then have "p = 0" by (simp add: p_def)
      with True 3 fit eq n show ?thesis
        by (auto simp: calculatePrps_list nvme_prp_byte_def buffer_byte_def Let_def prp1 o1_def [symmetric]
            p_def [symmetric] split: option.split)
    next
      case False
      then have "p \<noteq> 0" by (simp add: p_def div_eq_0_iff)
      moreover have "p \<le> (o1 + unat len - 1) div 4096"
        unfolding p_def using k by (intro div_le_mono) simp
      ultimately have i: "p - 1 < (o1 + unat len - 1) div 4096" "p - 1 < 512" using n by linarith+
      with False 3 \<open>p \<noteq> 0\<close> fit eq n prp_entry_contiguous [of addr k] unat_page_index [OF off i(2)]
      show ?thesis
        by (auto simp: calculatePrps_list nvme_prp_byte_def buffer_byte_def Let_def prp1 o1_def [symmetric]
            p_def [symmetric] split: option.split)
    qed
  qed
qed

theorem calculatePrps_device_view_witness:
  "nvme_prp_byte 0x10200 0x90000 [0x40000, 0x13000] 9000 5000 = buffer_byte 0x10200 (Some [0x10000, 0x40000, 0x13000]) 0 5000 \<and>
   length [0x40000, 0x13000 :: u64] \<le> 512"
  by (rule calculatePrps_device_view [where addr = "0x10200" and len = 9000 and off = 0 and dma = "0x90000" and
        pages = "Some [0x10000, 0x40000, 0x13000]" and k = 5000, simplified]) code_simp

text \<open>The overload without a list agrees with the general one on every transfer that spans at most
  two pages of a contiguous buffer.\<close>

theorem calculatePrps_short_equiv:
  assumes "unat addr mod 4096 + unat len \<le> 8192"
  shows "calculatePrps addr len b dma None off = (calculatePrps_short addr len, [])"
proof (cases "unat addr mod 4096 + unat len \<le> 4096")
  case True
  moreover from True have "unat len \<le> 4096 - unat addr mod 4096" by simp
  ultimately show ?thesis
    by (simp add: calculatePrps_one calculatePrps_short_def Let_def ucast_u32_le unat_first_page_size)
next
  case False
  then have "\<not> unat len \<le> 4096 - unat addr mod 4096" by simp
  with False assms show ?thesis
    by (simp add: calculatePrps_two calculatePrps_short_def Let_def ucast_u32_le unat_first_page_size
        next_page_eq)
qed

theorem calculatePrps_short_equiv_witness:
  "calculatePrps 0x10200 0x1000 True 0x90000 None 0 = ((0x10200, 0x11000), [])"
proof -
  have "calculatePrps_short 0x10200 0x1000 = (0x10200, 0x11000)" by code_simp
  then show ?thesis using calculatePrps_short_equiv [of "0x10200" "0x1000" True "0x90000" 0] by simp
qed

lemma unat_mult_no_wrap: "unat (x :: u32) * unat y < 2 ^ 32 \<Longrightarrow> unat (x * y) = unat x * unat y"
  by (simp add: unat_word_ariths)

lemma ucast_mult_no_wrap:
  assumes "unat (x :: u32) * unat y < 2 ^ 32"
  shows "(ucast (x * y) :: u64) = ucast x * ucast y"
proof -
  have "unat x * unat y < 2 ^ 64" using assms by (rule less_trans) simp
  then have "unat (ucast x * ucast y :: u64) = unat x * unat y" by (simp add: unat_word_ariths)
  moreover have "unat (ucast (x * y) :: u64) = unat x * unat y"
    using unat_mult_no_wrap [OF assms] by simp
  ultimately show ?thesis by (simp only: word_unat_eq_iff)
qed

lemma unat_double: "unat (b :: u32) < 2 ^ 31 \<Longrightarrow> unat (b * 2) = unat b * 2 \<and> unat (b * 2 + 1) = unat b * 2 + 1"
  by (simp add: unat_word_ariths)

lemma unat_slot_index:
  "unat b < 2 ^ 31 \<Longrightarrow> unat (nvmePrpListDmaSlotIndex p b w) =
     (if prpSlotsPerBatch p = 2 then unat b * 2 + (if w then 1 else 0) else unat b)"
  by (simp add: nvmePrpListDmaSlotIndex_def nvmePrpSlotsPerBatchVal_def unat_double)

lemma word_offset_eq:
  "nvmePrpListWordOffset p b w = nvmePrpListDmaSlotIndex p b w * prpEntriesPerCmd p"
  by (simp add: nvmePrpListWordOffset_def nvmePrpListDmaSlotIndex_def nvmePrpSlotsPerBatchVal_def
      Let_def algebra_simps)

lemma slots_apart:
  assumes "(m :: nat) \<noteq> n"
  shows "m * e + e \<le> n * e \<or> n * e + e \<le> m * e"
  using assms mult_le_mono1 [of "Suc m" n e] mult_le_mono1 [of "Suc n" m e]
  by (cases m n rule: linorder_cases) auto


definition sample_buffer_params :: nvmeBufferParams where
  "sample_buffer_params = \<lparr>readBuffer = 0x7000000, writeBuffer = 0x7100000, bufferSize = 0x10000,
     readBufferDma = 0x200000, writeBufferDma = 0x300000, readPagePhysAddrs = None,
     writePagePhysAddrs = None, readNumPages = 0, writeNumPages = 0, prpListPool = 0x7200000,
     prpListPageDmas = None, prpListPoolDma = 0x400000, prpEntriesPerCmd = 512, prpSlotsPerBatch = 2\<rparr>"


lemma small_u16_bits: "(x :: u16) < 2 ^ k \<Longrightarrow> bit x n \<Longrightarrow> n < k"
  by (metis bit_take_bit_iff mod_word_less take_bit_eq_mod)

lemma small_u16_ucast: "(x :: u16) < 2 ^ 8 \<Longrightarrow> (ucast x :: u8) = 0 \<longleftrightarrow> x = 0"
  using small_u16_bits [of x 8] by (auto simp: bit_eq_iff bit_simps) (metis less_trans numeral_less_iff semiring_norm(76,78))

lemma masks:
  "(0xFF :: u16) = mask 8" "(7 :: u16) = mask 3" "(0xFFFFFFFF :: u64) = mask 32"
  by (simp_all add: mask_eq_exp_minus_1)

lemma bit_status_make:
  "bit (NVME_STATUS_MAKE phase sc sct) n \<longleftrightarrow>
     n < 1 \<and> bit phase n \<or> 1 \<le> n \<and> n < 9 \<and> bit sc (n - 1) \<or> 9 \<le> n \<and> n < 12 \<and> bit sct (n - 9)"
  unfolding NVME_STATUS_MAKE_def masks
  by (auto simp only: bit_and_iff bit_or_iff bit_push_bit_iff bit_mask_iff bit_1_iff possible_bit_word
      len_bit0 len_num1)

text \<open>Status words: the phase, code and type packed by \<open>NVME_STATUS_MAKE\<close> are the ones the
  decoders return, and a completion counts as successful exactly when code and type are 0.\<close>

theorem status_roundtrip:
  assumes "sc < 256" and "sct < 8" and "phase < 2"
  shows "NVME_CQE_STATUS_PHASE (NVME_STATUS_MAKE phase sc sct) = ucast phase \<and>
    NVME_CQE_STATUS_SC (NVME_STATUS_MAKE phase sc sct) = ucast sc \<and>
    NVME_CQE_STATUS_SCT (NVME_STATUS_MAKE phase sc sct) = ucast sct \<and>
    (cqeOk \<lparr>cqe_sq_head = h, cqe_command_id = c, cqe_status = NVME_STATUS_MAKE phase sc sct\<rparr> \<longleftrightarrow>
       sc = 0 \<and> sct = 0)"
proof -
  have b: "bit sc n \<Longrightarrow> n < 8" "bit sct n \<Longrightarrow> n < 3" "bit phase n \<Longrightarrow> n < 1" for n
    using assms small_u16_bits [of sc 8] small_u16_bits [of sct 3] small_u16_bits [of phase 1] by auto
  have 1: "NVME_CQE_STATUS_PHASE (NVME_STATUS_MAKE phase sc sct) = ucast phase"
    unfolding NVME_CQE_STATUS_PHASE_def masks
    by (rule bit_word_eqI) (auto simp: bit_ucast_iff bit_and_iff bit_1_iff bit_status_make dest: b)
  have 2: "NVME_CQE_STATUS_SC (NVME_STATUS_MAKE phase sc sct) = ucast sc"
    unfolding NVME_CQE_STATUS_SC_def masks
    by (rule bit_word_eqI)
      (auto simp: bit_ucast_iff bit_and_iff bit_mask_iff bit_drop_bit_eq bit_status_make dest: b)
  have 3: "NVME_CQE_STATUS_SCT (NVME_STATUS_MAKE phase sc sct) = ucast sct"
    unfolding NVME_CQE_STATUS_SCT_def masks
    by (rule bit_word_eqI)
      (auto simp: bit_ucast_iff bit_and_iff bit_mask_iff bit_drop_bit_eq bit_status_make dest: b)
  have "sct < 2 ^ 8" using assms(2) by (rule less_trans) simp
  then show ?thesis
    using assms(1) by (simp add: 1 2 3 cqeOk_def small_u16_ucast conj_commute)
qed

theorem status_roundtrip_witness:
  "NVME_CQE_STATUS_SC (NVME_STATUS_MAKE 1 0x81 2) = 0x81 \<and> NVME_CQE_STATUS_SCT (NVME_STATUS_MAKE 1 0x81 2) = 2"
  using status_roundtrip [of "0x81" 2 1] by simp

text \<open>The controller reads back from a freshly cleared entry the starting block and the number of
  blocks it was set up with, for every starting block including 0.\<close>

theorem sqeSetup_fields:
  assumes "sqe_cdw10 sqe = 0" and "sqe_cdw11 sqe = 0" and "nlb \<noteq> 0"
  shows "ucast (sqe_cdw10 (sqeSetup sqe slba nlb)) OR push_bit 32 (ucast (sqe_cdw11 (sqeSetup sqe slba nlb))) = slba \<and>
    unat (sqe_cdw12 (sqeSetup sqe slba nlb)) + 1 = unat nlb \<and>
    sqe_prp1 (sqeSetup sqe slba nlb) = sqe_prp1 sqe \<and> sqe_prp2 (sqeSetup sqe slba nlb) = sqe_prp2 sqe \<and>
    sqe_opcode (sqeSetup sqe slba nlb) = sqe_opcode sqe \<and>
    sqe_command_id (sqeSetup sqe slba nlb) = sqe_command_id sqe \<and> sqe_nsid (sqeSetup sqe slba nlb) = sqe_nsid sqe"
proof -
  have "ucast (ucast (slba AND 0xFFFFFFFF) :: u32) OR
      push_bit 32 (ucast (ucast (drop_bit 32 slba AND 0xFFFFFFFF) :: u32)) = slba"
    unfolding masks by (rule bit_word_eqI) (auto simp: bit_simps)
  moreover have "unat (nlb - 1) + 1 = unat nlb"
    using assms(3) by (simp add: unat_minus_one unat_gt_0)
  ultimately show ?thesis using assms by (auto simp: sqeSetup_def Let_def)
qed

theorem sqeSetup_fields_witness:
  "unat (sqe_cdw12 (sqeSetup zero_sqe 0x123456789A 8)) + 1 = 8"
  using sqeSetup_fields [of zero_sqe 8 "0x123456789A"] by (simp add: zero_sqe_def)

end
