(* ===== verification/Nvme_Drive.thy ===== *)
theory Nvme_Drive
  imports Nvme_Prp
begin

text \<open>
  The submission loop of the NVMe endpoint (\<^verbatim>\<open>src/src/endpoints/nvme-ep/nvme-ep.hip\<close>): choice of the
  logical block of each operation, construction of the submission entries, the single-thread batch
  loop \<^verbatim>\<open>driveEndpointSingle\<close> with its doorbells and completion polling, and the stateful kernel that
  keeps the ring positions between calls.

  The memory the controller writes and the stop flag are not the program's: what a poll reads and
  what the flag holds are functions of the environment (\<open>drive_env\<close>) that may depend on the whole
  history of the run. The stores of the GPU that others see, in order, are the trace. Profiling
  counters and clock values are left out; that a time stamp is taken is part of the trace.
\<close>

subsection \<open>Parameters\<close>

record nvmeIoParams =
  lbaSize :: u32
  baseLba :: u64
  lbaRangeLbas :: u64
  useRandomAccess :: bool
  readIo :: int
  writeIo :: int
  lfsrSeed :: u32
  queueSize :: u16
  nsid :: u32
  lbasPerIo :: u32
  infiniteMode :: bool
  batchSize :: u32
  wavefrontSize :: u32

record nvmeDoorbellParams =
  doorbellOffset :: u32
  nvmeTargetBdf :: u32
  shadowBufferVirt :: ptr
  nvmeBar0Gpu :: ptr
  usePciMmioBridge :: bool

definition NVME_EP_MAX_POLLS :: nat where
  "NVME_EP_MAX_POLLS = 10000000"

definition doorbellBase :: u32 where
  "doorbellBase = 0x1000"

definition doorBellStride :: u32 where
  "doorBellStride = 4"

definition nvme_cmd_write :: u8 where
  "nvme_cmd_write = 0x01"

definition nvme_cmd_read :: u8 where
  "nvme_cmd_read = 0x02"

datatype gpu_event =
    Fill_pattern u32
  | Prp_list_write u64 u64
  | Sqe_write u16 nvme_sqe
  | Bridge_write u16 u8 u32 u64
  | Bar0_write u32 u32
  | Cqe_taken u16 nvme_cqe
  | Start_time u32
  | End_time u32

subsection \<open>Doorbells\<close>

definition ringDoorbell :: "u16 \<Rightarrow> nvmeDoorbellParams \<Rightarrow> u32 \<Rightarrow> gpu_event list" where
  "ringDoorbell val db offset_override =
     (let offset = (if offset_override \<noteq> 0xFFFFFFFF then offset_override else doorbellOffset db)
      in if usePciMmioBridge db \<and> shadowBufferVirt db \<noteq> NULL
         then [Bridge_write (ucast (nvmeTargetBdf db)) 0 offset (ucast val)]
         else if nvmeBar0Gpu db \<noteq> NULL then [Bar0_write offset (ucast val)] else [])"

abbreviation sq_doorbell :: "u16 \<Rightarrow> nvmeDoorbellParams \<Rightarrow> gpu_event list" where
  "sq_doorbell val db \<equiv> ringDoorbell val db 0xFFFFFFFF"

abbreviation cq_doorbell :: "u16 \<Rightarrow> nvmeDoorbellParams \<Rightarrow> gpu_event list" where
  "cq_doorbell val db \<equiv> ringDoorbell val db (doorbellOffset db + doorBellStride)"

subsection \<open>Which operation, which block\<close>

definition num_read_ops :: "nvmeIoParams \<Rightarrow> u32" where
  "num_read_ops io = word_of_int (readIo io)"

definition num_write_ops :: "nvmeIoParams \<Rightarrow> u32" where
  "num_write_ops io = word_of_int (writeIo io)"

definition total_ops :: "nvmeIoParams \<Rightarrow> u32" where
  "total_ops io = num_read_ops io + num_write_ops io"

definition lba_hash :: "u32 \<Rightarrow> u16 \<Rightarrow> u32 \<Rightarrow> u64" where
  "lba_hash op_index cmd_id sd =
     (let s = ucast op_index * 0x9e3779b9 + ucast (ucast cmd_id * 0x85ebca6b :: u32) + ucast sd;
          s = s XOR drop_bit 16 s;
          s = s * 0xc2b2ae35;
          s = s XOR drop_bit 13 s;
          s = s * 0x9e3779b9
      in s XOR drop_bit 16 s)"

definition getRandomLba :: "u32 \<Rightarrow> u16 \<Rightarrow> u32 \<Rightarrow> nvmeIoParams \<Rightarrow> u64" where
  "getRandomLba op_index cmd_id blocks io =
     (if useRandomAccess io \<and> lbaRangeLbas io > 0 then
        let max_lba = (if blocks > 0 \<and> lbaRangeLbas io \<ge> ucast blocks
                       then lbaRangeLbas io - ucast blocks + 1 else 1)
        in baseLba io + lba_hash op_index cmd_id (lfsrSeed io) mod max_lba
      else if lbaRangeLbas io > 0 then baseLba io + ucast (op_index * blocks) mod lbaRangeLbas io
      else baseLba io + ucast (op_index * blocks))"

definition op_cmd_id :: "u32 \<Rightarrow> u16" where
  "op_cmd_id op_idx = ucast (op_idx mod 65535 + 1)"

definition op_is_read :: "nvmeIoParams \<Rightarrow> u32 \<Rightarrow> bool" where
  "op_is_read io op_idx =
     (if infiniteMode io then num_read_ops io > 0
      else if num_write_ops io > 0 \<and> num_read_ops io > 0 then op_idx \<ge> num_write_ops io
      else num_read_ops io > 0)"

definition op_lba :: "nvmeIoParams \<Rightarrow> u32 \<Rightarrow> u64" where
  "op_lba io op_idx =
     (let lba_idx = (if op_is_read io op_idx \<and> num_write_ops io > 0 then op_idx - num_write_ops io else op_idx)
      in getRandomLba lba_idx (op_cmd_id lba_idx) (lbasPerIo io) io)"

subsection \<open>Submission entries\<close>

definition transfer_size :: "nvmeIoParams \<Rightarrow> u64" where
  "transfer_size io = ucast (lbasPerIo io) * ucast (lbaSize io)"

definition buf_addr :: "u64 list option \<Rightarrow> u64 \<Rightarrow> ptr \<Rightarrow> u64 \<Rightarrow> u64" where
  "buf_addr pages dma buf buf_off =
     (case pages of
        Some pa \<Rightarrow> pa ! unat (ucast (buf_off div NVME_PAGE_SIZE) :: u32) + buf_off mod NVME_PAGE_SIZE
      | None \<Rightarrow> if dma \<noteq> 0 then dma + buf_off else buf + buf_off)"

text \<open>
  The PRPs of slot \<open>b\<close> of a batch and the list entries written for them, or nothing when there is no
  buffer or the slot lies outside of it.
\<close>

definition slot_prps :: "nvmeBufferParams \<Rightarrow> nvmeIoParams \<Rightarrow> bool \<Rightarrow> u32 \<Rightarrow> ((u64 \<times> u64) \<times> gpu_event list) option" where
  "slot_prps bp io isWrite b =
     (let buf_off = ucast b * transfer_size io;
          buf = (if isWrite then writeBuffer bp else readBuffer bp);
          dma = (if isWrite then writeBufferDma bp else readBufferDma bp);
          pages = (if isWrite then writePagePhysAddrs bp else readPagePhysAddrs bp);
          prpOff = nvmePrpListWordOffset bp b isWrite;
          prpSlotDma = prpListDmaForSlot bp (nvmePrpListDmaSlotIndex bp b isWrite)
      in if buf \<noteq> NULL \<and> bufferSize bp > 0 \<and> buf_off + transfer_size io \<le> bufferSize bp then
           case calculatePrps (buf_addr pages dma buf buf_off) (ucast (transfer_size io)) (prpListPool bp \<noteq> NULL)
                  prpSlotDma pages (ucast (buf_off div NVME_PAGE_SIZE)) of
             (prps, entries) \<Rightarrow>
               Some (prps, map (\<lambda>(i, e). Prp_list_write (ucast prpOff + of_nat i) e) (enumerate 0 entries))
         else None)"

definition build_sqe :: "nvmeIoParams \<Rightarrow> u32 \<Rightarrow> u64 \<times> u64 \<Rightarrow> nvme_sqe" where
  "build_sqe io op_idx prps =
     sqeSetup (zero_sqe\<lparr>sqe_opcode := (if op_is_read io op_idx then nvme_cmd_read else nvme_cmd_write),
        sqe_command_id := op_cmd_id op_idx, sqe_nsid := nsid io, sqe_prp1 := fst prps, sqe_prp2 := snd prps\<rparr>)
       (op_lba io op_idx) (lbasPerIo io)"

subsection \<open>The batch loop\<close>

text \<open>
  The configuration of a run. \<open>stack_prps\<close> is what the uninitialised arrays \<^verbatim>\<open>readPrp1/2\<close> and
  \<^verbatim>\<open>writePrp1/2\<close> hold before anything is stored in them.
\<close>

record drive_cfg =
  io :: nvmeIoParams
  db :: nvmeDoorbellParams
  bp :: nvmeBufferParams
  has_start_times :: bool
  has_end_times :: bool
  has_timing_stats :: bool
  stack_prps :: "bool \<Rightarrow> u32 \<Rightarrow> u64 \<times> u64"

record drive =
  sq_tail :: u16
  cq_head :: u16
  expected_phase :: u8
  ops_done :: u32
  trace :: "gpu_event list"

record drive_env =
  stop_at_head :: "drive \<Rightarrow> bool"
  stop_at_poll :: "drive \<Rightarrow> nat \<Rightarrow> bool"
  cqe_seen :: "drive \<Rightarrow> nat \<Rightarrow> nvme_cqe"

datatype drive_end = Completed | Stopped | Trapped | Running

definition emit :: "gpu_event list \<Rightarrow> drive \<Rightarrow> drive" where
  "emit es st = st\<lparr>trace := trace st @ es\<rparr>"

text \<open>\<^verbatim>\<open>(x + 1) % queueSize\<close>, computed in \<^verbatim>\<open>int\<close>.\<close>

definition ring_next :: "u16 \<Rightarrow> u16 \<Rightarrow> u16" where
  "ring_next qs x = ucast ((ucast x + 1 :: u32) mod ucast qs)"

definition single_batch_size :: "drive_cfg \<Rightarrow> u32" where
  "single_batch_size cfg =
     (let p = io cfg;
          qmax = ucast (queueSize p) - 1;
          n = (if batchSize p = 0 then (if infiniteMode p then qmax else total_ops p) else batchSize p);
          n = (if n > qmax then qmax else n);
          n = (if \<not> infiniteMode p \<and> n > total_ops p then total_ops p else n)
      in if has_timing_stats cfg \<and> n > 256 then 256 else n)"

definition precompute_count :: "drive_cfg \<Rightarrow> u32" where
  "precompute_count cfg = (if single_batch_size cfg > 256 then 256 else single_batch_size cfg)"

definition precompute_events :: "drive_cfg \<Rightarrow> gpu_event list" where
  "precompute_events cfg =
     concat (map (\<lambda>b. concat (map (\<lambda>w. case slot_prps (bp cfg) (io cfg) w (of_nat b) of
                                       None \<Rightarrow> [] | Some (_, es) \<Rightarrow> es) [False, True]))
       [0..<unat (precompute_count cfg)])"

definition precomputed_prps :: "drive_cfg \<Rightarrow> bool \<Rightarrow> u32 \<Rightarrow> u64 \<times> u64" where
  "precomputed_prps cfg isWrite b =
     (case slot_prps (bp cfg) (io cfg) isWrite b of Some (prps, _) \<Rightarrow> prps | None \<Rightarrow> stack_prps cfg isWrite b)"

text \<open>The PRPs of the loop body; \<open>None\<close> is its \<^verbatim>\<open>__builtin_trap\<close>.\<close>

definition single_prps :: "drive_cfg \<Rightarrow> bool \<Rightarrow> u32 \<Rightarrow> ((u64 \<times> u64) \<times> gpu_event list) option" where
  "single_prps cfg isWrite b =
     (if b < precompute_count cfg then Some (precomputed_prps cfg isWrite b, [])
      else slot_prps (bp cfg) (io cfg) isWrite b)"

fun single_submit :: "drive_cfg \<Rightarrow> u32 list \<Rightarrow> drive \<Rightarrow> drive \<times> drive_end option" where
  "single_submit cfg [] st = (st, None)"
| "single_submit cfg (b # bs) st =
     (let op_idx = ops_done st + b
      in case single_prps cfg (\<not> op_is_read (io cfg) op_idx) b of
           None \<Rightarrow> (st, Some Trapped)
         | Some (prps, es) \<Rightarrow>
             single_submit cfg bs
               ((emit (es @
                   (if \<not> infiniteMode (io cfg) \<and> has_start_times cfg then [Start_time op_idx] else []) @
                   [Sqe_write (sq_tail st) (build_sqe (io cfg) op_idx prps)]) st)
                \<lparr>sq_tail := ring_next (queueSize (io cfg)) (sq_tail st)\<rparr>))"

datatype poll_result = Poll_stopped | Poll_timeout | Poll_got nvme_cqe

text \<open>Polls number \<open>k\<close> and later, of which at most \<open>n\<close> are left.\<close>

fun poll_from :: "drive_env \<Rightarrow> drive \<Rightarrow> nat \<Rightarrow> nat \<Rightarrow> poll_result" where
  "poll_from env st 0 k = Poll_timeout"
| "poll_from env st (Suc n) k =
     (if k mod 100 = 0 \<and> stop_at_poll env st k then Poll_stopped
      else if NVME_CQE_STATUS_PHASE (cqe_status (cqe_seen env st k)) = expected_phase st
      then Poll_got (cqe_seen env st k)
      else poll_from env st n (Suc k))"

definition advance_cq :: "u16 \<Rightarrow> drive \<Rightarrow> drive" where
  "advance_cq qs st =
     (let head = ring_next qs (cq_head st)
      in st\<lparr>cq_head := head,
            expected_phase := (if head = 0 then expected_phase st XOR 1 else expected_phase st)\<rparr>)"

definition take_cqe :: "drive_cfg \<Rightarrow> u32 \<Rightarrow> nvme_cqe \<Rightarrow> drive \<Rightarrow> drive" where
  "take_cqe cfg op_idx cqe st =
     advance_cq (queueSize (io cfg))
       (emit (Cqe_taken (cq_head st) cqe #
          (if \<not> infiniteMode (io cfg) \<and> has_end_times cfg then [End_time op_idx] else [])) st)"

fun single_complete :: "drive_cfg \<Rightarrow> drive_env \<Rightarrow> u32 list \<Rightarrow> drive \<Rightarrow> drive \<times> drive_end option" where
  "single_complete cfg env [] st = (st, None)"
| "single_complete cfg env (b # bs) st =
     (case poll_from env st NVME_EP_MAX_POLLS 0 of
        Poll_stopped \<Rightarrow> (st, Some Stopped)
      | Poll_timeout \<Rightarrow> (st, Some Trapped)
      | Poll_got cqe \<Rightarrow>
          if \<not> cqeOk cqe then (st, Some Trapped)
          else single_complete cfg env bs (take_cqe cfg (ops_done st + b) cqe st))"

definition single_batch :: "drive_cfg \<Rightarrow> drive_env \<Rightarrow> drive \<Rightarrow> drive \<times> drive_end option" where
  "single_batch cfg env st =
     (let n = single_batch_size cfg;
          count = (if \<not> infiniteMode (io cfg) \<and> ops_done st + n > total_ops (io cfg)
                   then total_ops (io cfg) - ops_done st else n);
          bs = map of_nat [0..<unat count]
      in case single_submit cfg bs st of
           (st, Some e) \<Rightarrow> (st, Some e)
         | (st, None) \<Rightarrow>
             (case single_complete cfg env bs (emit (sq_doorbell (sq_tail st) (db cfg)) st) of
                (st, Some e) \<Rightarrow> (st, Some e)
              | (st, None) \<Rightarrow>
                  ((emit (cq_doorbell (cq_head st) (db cfg)) st)\<lparr>ops_done := ops_done st + count\<rparr>, None)))"

fun single_loop :: "drive_cfg \<Rightarrow> drive_env \<Rightarrow> nat \<Rightarrow> drive \<Rightarrow> drive \<times> drive_end" where
  "single_loop cfg env 0 st = (st, Running)"
| "single_loop cfg env (Suc fuel) st =
     (if \<not> (infiniteMode (io cfg) \<or> ops_done st < total_ops (io cfg)) then (st, Completed)
      else if stop_at_head env st then (st, Stopped)
      else case single_batch cfg env st of
             (st, Some e) \<Rightarrow> (st, e)
           | (st, None) \<Rightarrow> single_loop cfg env fuel st)"

definition drive_start :: "drive_cfg \<Rightarrow> drive" where
  "drive_start cfg =
     \<lparr>sq_tail = 0, cq_head = 0, expected_phase = 1, ops_done = 0,
      trace = (if writeBuffer (bp cfg) \<noteq> NULL \<and> bufferSize (bp cfg) > 0
               then [Fill_pattern (lfsrSeed (io cfg))] else []) @ precompute_events cfg\<rparr>"

definition driveEndpointSingle :: "drive_cfg \<Rightarrow> drive_env \<Rightarrow> nat \<Rightarrow> drive \<times> drive_end" where
  "driveEndpointSingle cfg env fuel = single_loop cfg env fuel (drive_start cfg)"

subsection \<open>The stateful kernel\<close>

text \<open>
  \<^verbatim>\<open>gpuKernelStateful\<close> submits all its operations, rings the doorbell once, and takes as many completions.
  The ring positions come from and go to two words of memory.
\<close>

definition stateful_addr :: "u64 list option \<Rightarrow> u64 \<Rightarrow> ptr \<Rightarrow> u64 \<Rightarrow> u64" where
  "stateful_addr pages dma buf buf_off =
     (case pages of
        Some pa \<Rightarrow> pa ! unat (buf_off div NVME_PAGE_SIZE)
      | None \<Rightarrow> if dma \<noteq> 0 then dma + buf_off else buf + buf_off)"

definition stateful_prps :: "nvmeIoParams \<Rightarrow> nvmeBufferParams \<Rightarrow> u32 \<Rightarrow> (u64 \<times> u64) \<times> gpu_event list" where
  "stateful_prps p b_params b =
     (let is_read_op = readIo p > 0;
          buf = (if is_read_op then readBuffer b_params else writeBuffer b_params);
          dma = (if is_read_op then readBufferDma b_params else writeBufferDma b_params);
          pages = (if is_read_op then readPagePhysAddrs b_params else writePagePhysAddrs b_params);
          buf_off = ucast b * transfer_size p;
          has_list = (prpListPool b_params \<noteq> NULL \<and> prpEntriesPerCmd b_params > 0);
          prpDma = (if has_list then prpListPoolDma b_params + ucast b * NVME_PAGE_SIZE else 0)
      in if buf \<noteq> NULL \<and> bufferSize b_params > 0 then
           case calculatePrps (stateful_addr pages dma buf buf_off) (ucast (transfer_size p)) has_list prpDma
                  pages (ucast (buf_off div NVME_PAGE_SIZE)) of
             (prps, entries) \<Rightarrow>
               (prps, map (\<lambda>(i, e). Prp_list_write (ucast b * ucast (prpEntriesPerCmd b_params) + of_nat i) e)
                        (enumerate 0 entries))
         else ((0, 0), []))"

definition stateful_sqe :: "nvmeIoParams \<Rightarrow> u16 \<Rightarrow> u32 \<Rightarrow> u64 \<times> u64 \<Rightarrow> nvme_sqe" where
  "stateful_sqe p tail b prps =
     sqeSetup (zero_sqe\<lparr>sqe_opcode := (if readIo p > 0 then nvme_cmd_read else nvme_cmd_write),
        sqe_command_id := ucast ((ucast tail :: u32) mod 65535 + 1), sqe_nsid := nsid p,
        sqe_prp1 := fst prps, sqe_prp2 := snd prps\<rparr>)
       (baseLba p + ucast b * ucast (lbasPerIo p)) (lbasPerIo p)"

fun stateful_submit :: "drive_cfg \<Rightarrow> u32 list \<Rightarrow> drive \<Rightarrow> drive" where
  "stateful_submit cfg [] st = st"
| "stateful_submit cfg (b # bs) st =
     (case stateful_prps (io cfg) (bp cfg) b of
        (prps, es) \<Rightarrow>
          stateful_submit cfg bs
            ((emit (es @ [Sqe_write (sq_tail st) (stateful_sqe (io cfg) (sq_tail st) b prps)]) st)
             \<lparr>sq_tail := ring_next (queueSize (io cfg)) (sq_tail st)\<rparr>))"

text \<open>The completions; \<open>None\<close> is the trap after too many polls. There is no stop flag and the status
  is not looked at.\<close>

fun stateful_complete :: "drive_cfg \<Rightarrow> drive_env \<Rightarrow> nat \<Rightarrow> drive \<Rightarrow> drive option" where
  "stateful_complete cfg env 0 st = Some st"
| "stateful_complete cfg env (Suc n) st =
     (case poll_from (env\<lparr>stop_at_poll := \<lambda>_ _. False\<rparr>) st NVME_EP_MAX_POLLS 0 of
        Poll_got cqe \<Rightarrow>
          stateful_complete cfg env n (advance_cq (queueSize (io cfg)) (emit [Cqe_taken (cq_head st) cqe] st))
      | _ \<Rightarrow> None)"

definition stateful_load :: "u32 \<Rightarrow> u32 \<Rightarrow> drive" where
  "stateful_load w0 w1 =
     \<lparr>sq_tail = ucast (w0 AND 0xFFFF), cq_head = ucast (drop_bit 16 w0), expected_phase = ucast (w1 AND 1),
      ops_done = 0, trace = []\<rparr>"

definition stateful_store :: "drive \<Rightarrow> u32 \<times> u32" where
  "stateful_store st = (push_bit 16 (ucast (cq_head st)) OR ucast (sq_tail st), ucast (expected_phase st))"

definition stateful_ops :: "nvmeIoParams \<Rightarrow> u32" where
  "stateful_ops p = (if readIo p > 0 then word_of_int (readIo p) else word_of_int (writeIo p))"

definition gpuKernelStateful :: "drive_cfg \<Rightarrow> drive_env \<Rightarrow> u32 \<Rightarrow> u32 \<Rightarrow> (gpu_event list \<times> u32 \<times> u32) option" where
  "gpuKernelStateful cfg env w0 w1 =
     (let n = unat (stateful_ops (io cfg));
          st = stateful_submit cfg (map of_nat [0..<n]) (stateful_load w0 w1)
      in case stateful_complete cfg env n (emit (sq_doorbell (sq_tail st) (db cfg)) st) of
           None \<Rightarrow> None
         | Some st' \<Rightarrow>
             let st' = emit (cq_doorbell (cq_head st') (db cfg)) st'
             in Some (trace st', stateful_store st'))"

subsection \<open>Ring positions\<close>

definition ring_slot :: "u16 \<Rightarrow> nat \<Rightarrow> u16" where
  "ring_slot qs n = of_nat (n mod unat qs)"

text \<open>The phase bit of the completion number \<open>n\<close>: 1 on the first pass over the ring, then alternating.\<close>

definition ring_phase :: "u16 \<Rightarrow> nat \<Rightarrow> u8" where
  "ring_phase qs n = (if even (n div unat qs) then 1 else 0)"

lemma unat_u16_bound: "unat (x :: u16) < 65536"
  using unsigned_less [of x] by simp

lemma unat_ucast_u16_u32: "unat (ucast (x :: u16) :: u32) = unat x"
  using unat_u16_bound [of x] by (simp add: unsigned_ucast_eq take_bit_nat_eq_self)

lemma mod_u16_bound: "0 < unat (qs :: u16) \<Longrightarrow> n mod unat qs < 65536"
  using mod_less_divisor [of "unat qs" n] unat_u16_bound [of qs] by (rule less_trans)

lemma unat_ring_slot: "0 < unat qs \<Longrightarrow> unat (ring_slot qs n) = n mod unat qs"
  using mod_u16_bound [of qs n] by (simp add: ring_slot_def unsigned_of_nat take_bit_nat_eq_self)

lemma mod_inj_window:
  assumes "(i :: nat) mod q = j mod q" and "i < j + q" and "j < i + q"
  shows "i = j"
proof (rule ccontr)
  assume "i \<noteq> j"
  then consider "i < j" | "j < i" by linarith
  then show False
  proof cases
    case 1
    then have "q dvd j - i" using assms(1) mod_eq_dvd_iff_nat [of i j q] by simp
    moreover have "0 < j - i" "j - i < q" using 1 assms by linarith+
    ultimately show False by (simp add: nat_dvd_not_less)
  next
    case 2
    then have "q dvd i - j" using assms(1) mod_eq_dvd_iff_nat [of j i q] by simp
    moreover have "0 < i - j" "i - j < q" using 2 assms by linarith+
    ultimately show False by (simp add: nat_dvd_not_less)
  qed
qed

lemma ring_slot_inj:
  assumes "0 < unat qs" and "ring_slot qs i = ring_slot qs j" and "i < j + unat qs" "j < i + unat qs"
  shows "i = j"
  using mod_inj_window [OF _ assms(3,4)] assms(1,2) unat_ring_slot by metis

lemma ring_next_slot:
  assumes "0 < unat qs"
  shows "ring_next qs (ring_slot qs n) = ring_slot qs (Suc n)"
proof -
  have "unat (ucast (ring_slot qs n) + 1 :: u32) = n mod unat qs + 1"
    using mod_u16_bound [OF assms, of n]
    by (subst unat_add_no_wrap) (simp_all add: unat_ucast_u16_u32 unat_ring_slot assms)
  then have "unat ((ucast (ring_slot qs n) + 1 :: u32) mod ucast qs) = Suc n mod unat qs"
    by (simp add: unat_mod unat_ucast_u16_u32 mod_Suc_eq)
  then have "unat (ring_next qs (ring_slot qs n)) = Suc n mod unat qs"
    using mod_u16_bound [OF assms, of "Suc n"]
    by (simp add: ring_next_def unsigned_ucast_eq take_bit_nat_eq_self)
  then show ?thesis using unat_ring_slot [OF assms, of "Suc n"] by (metis word_unat_eq_iff)
qed

lemma ring_phase_Suc:
  assumes "1 < unat qs"
  shows "ring_phase qs (Suc n) =
    (if ring_slot qs (Suc n) = 0 then ring_phase qs n XOR 1 else ring_phase qs n)"
proof -
  have "ring_slot qs (Suc n) = 0 \<longleftrightarrow> Suc n mod unat qs = 0"
    using assms unat_ring_slot [of qs "Suc n"] by (simp add: word_unat_eq_iff)
  moreover have "Suc n div unat qs = (if Suc n mod unat qs = 0 then Suc (n div unat qs) else n div unat qs)"
    by (simp add: div_Suc)
  ultimately show ?thesis by (simp add: ring_phase_def)
qed

subsection \<open>The ring discipline\<close>

text \<open>
  An observer of the trace that keeps the slots submitted and not yet completed, oldest first. It
  gives up when a slot is written while it is outstanding or a completion arrives that nothing is
  waiting for.
\<close>

fun ring_run :: "gpu_event list \<Rightarrow> u16 list \<Rightarrow> u16 list option" where
  "ring_run [] fl = Some fl"
| "ring_run (Sqe_write s q # es) fl = (if s \<in> set fl then None else ring_run es (fl @ [s]))"
| "ring_run (Cqe_taken s c # es) fl = (case fl of [] \<Rightarrow> None | _ # fl' \<Rightarrow> ring_run es fl')"
| "ring_run (_ # es) fl = ring_run es fl"

lemma ring_run_append:
  "ring_run (xs @ ys) fl = (case ring_run xs fl of None \<Rightarrow> None | Some fl' \<Rightarrow> ring_run ys fl')"
  by (induction xs fl rule: ring_run.induct) (auto split: list.split)

definition silent :: "gpu_event \<Rightarrow> bool" where
  "silent e \<longleftrightarrow> (case e of Sqe_write _ _ \<Rightarrow> False | Cqe_taken _ _ \<Rightarrow> False | _ \<Rightarrow> True)"

lemma silent_simps [simp]:
  "silent (Start_time i)" "silent (End_time i)" "silent (Prp_list_write a v)" "silent (Fill_pattern x)"
  "silent (Bridge_write t r off v)" "silent (Bar0_write off w)" "\<not> silent (Sqe_write s q)" "\<not> silent (Cqe_taken s c)"
  by (simp_all add: silent_def)

lemma ring_run_silent: "list_all silent es \<Longrightarrow> ring_run (es @ ys) fl = ring_run ys fl"
  by (induction es) (auto simp: silent_def split: gpu_event.splits)

lemma ring_run_silent' [simp]: "list_all silent es \<Longrightarrow> ring_run es fl = Some fl"
  using ring_run_silent [of es "[]"] by simp

lemma silent_doorbell [simp]: "list_all silent (ringDoorbell v d off)"
  by (simp add: ringDoorbell_def Let_def)

lemma silent_slot_prps: "slot_prps b i w k = Some (prps, es) \<Longrightarrow> list_all silent es"
  by (auto simp: slot_prps_def Let_def list_all_iff split: if_splits prod.splits)

lemma silent_single_prps: "single_prps cfg w k = Some (prps, es) \<Longrightarrow> list_all silent es"
  by (auto simp: single_prps_def dest: silent_slot_prps split: if_splits)

lemma silent_precompute: "list_all silent (precompute_events cfg)"
  by (auto simp: precompute_events_def list_all_iff split: option.splits
      dest!: silent_slot_prps [OF sym, unfolded list_all_iff])

text \<open>\<open>n\<close> entries submitted so far, \<open>m\<close> of them completed.\<close>

definition ring_ok :: "u16 \<Rightarrow> nat \<Rightarrow> nat \<Rightarrow> drive \<Rightarrow> bool" where
  "ring_ok qs n m st \<longleftrightarrow> sq_tail st = ring_slot qs n \<and> cq_head st = ring_slot qs m \<and>
     expected_phase st = ring_phase qs m \<and> ring_run (trace st) [] = Some (map (ring_slot qs) [m..<n])"

lemma ring_ok_silent: "ring_ok qs n m st \<Longrightarrow> list_all silent es \<Longrightarrow> ring_ok qs n m (emit es st)"
  by (simp add: ring_ok_def emit_def ring_run_append)

lemma ring_ok_submit:
  assumes "1 < unat qs" and "ring_ok qs n m st" and "m \<le> n" "n + 1 < m + unat qs" and "list_all silent es"
  shows "ring_ok qs (Suc n) m ((emit (es @ [Sqe_write (sq_tail st) q]) st)\<lparr>sq_tail := ring_next qs (sq_tail st)\<rparr>)"
proof -
  have "ring_slot qs n \<notin> ring_slot qs ` {m..<n}"
    using assms ring_slot_inj [of qs n] by force
  then show ?thesis
    using assms by (simp add: ring_ok_def emit_def ring_run_append ring_run_silent ring_next_slot)
qed

lemma ring_ok_take:
  assumes "1 < unat (queueSize (io cfg))" and "ring_ok (queueSize (io cfg)) n m st" and "m < n"
  shows "ring_ok (queueSize (io cfg)) n (Suc m) (take_cqe cfg i cqe st)"
  using assms
  by (auto simp: ring_ok_def take_cqe_def advance_cq_def emit_def ring_run_append ring_next_slot ring_phase_Suc Let_def
      upt_conv_Cons)

lemma single_submit_ring:
  assumes "1 < unat (queueSize (io cfg))" and "ring_ok (queueSize (io cfg)) n m st"
    and "m \<le> n" "n + length bs < m + unat (queueSize (io cfg))"
    and "single_submit cfg bs st = (st', r)"
  shows "\<exists>n'. n \<le> n' \<and> n' \<le> n + length bs \<and> ring_ok (queueSize (io cfg)) n' m st' \<and>
    ops_done st' = ops_done st \<and> (r = None \<longrightarrow> n' = n + length bs)"
  using assms(2-)
proof (induction bs arbitrary: n st)
  case Nil
  then show ?case by auto
next
  case (Cons b bs)
  let ?op = "ops_done st + b"
  show ?case
  proof (cases "single_prps cfg (\<not> op_is_read (io cfg) ?op) b")
    case None
    with Cons.prems show ?thesis by (auto simp: Let_def)
  next
    case (Some pe)
    obtain prps es where pe: "pe = (prps, es)" by (cases pe)
    let ?es = "es @ (if \<not> infiniteMode (io cfg) \<and> has_start_times cfg then [Start_time ?op] else [])"
    let ?st = "(emit (?es @ [Sqe_write (sq_tail st) (build_sqe (io cfg) ?op prps)]) st)
      \<lparr>sq_tail := ring_next (queueSize (io cfg)) (sq_tail st)\<rparr>"
    have "list_all silent ?es" using Some pe silent_single_prps by auto
    then have ok: "ring_ok (queueSize (io cfg)) (Suc n) m ?st"
      using Cons.prems by (intro ring_ok_submit [OF assms(1)]) auto
    have sub: "single_submit cfg bs ?st = (st', r)" using Cons.prems Some pe by (simp add: Let_def)
    obtain n' where "Suc n \<le> n'" "n' \<le> Suc n + length bs" "ring_ok (queueSize (io cfg)) n' m st'"
      "ops_done st' = ops_done ?st" "r = None \<longrightarrow> n' = Suc n + length bs"
      using Cons.IH [OF ok _ _ sub] Cons.prems by auto
    then show ?thesis by (intro exI [of _ n']) (auto simp: emit_def)
  qed
qed

lemma single_complete_ring:
  assumes "1 < unat (queueSize (io cfg))" and "ring_ok (queueSize (io cfg)) n m st" and "m + length bs \<le> n"
    and "single_complete cfg env bs st = (st', r)"
  shows "\<exists>m'. m \<le> m' \<and> m' \<le> m + length bs \<and> ring_ok (queueSize (io cfg)) n m' st' \<and>
    ops_done st' = ops_done st \<and> (r = None \<longrightarrow> m' = m + length bs)"
  using assms(2-)
proof (induction bs arbitrary: m st)
  case Nil
  then show ?case by auto
next
  case (Cons b bs)
  show ?case
  proof (cases "poll_from env st NVME_EP_MAX_POLLS 0")
    case (Poll_got cqe)
    show ?thesis
    proof (cases "cqeOk cqe")
      case True
      let ?st = "take_cqe cfg (ops_done st + b) cqe st"
      have ok: "ring_ok (queueSize (io cfg)) n (Suc m) ?st"
        using Cons.prems by (intro ring_ok_take [OF assms(1)]) auto
      have sub: "single_complete cfg env bs ?st = (st', r)" using Cons.prems Poll_got True by simp
      obtain m' where "Suc m \<le> m'" "m' \<le> Suc m + length bs" "ring_ok (queueSize (io cfg)) n m' st'"
        "ops_done st' = ops_done ?st" "r = None \<longrightarrow> m' = Suc m + length bs"
        using Cons.IH [OF ok _ sub] Cons.prems by auto
      then show ?thesis by (intro exI [of _ m']) (auto simp: take_cqe_def advance_cq_def emit_def Let_def)
    qed (use Cons.prems Poll_got in auto)
  qed (use Cons.prems in auto)
qed

lemma single_batch_size_bound:
  assumes "1 \<le> unat (queueSize (io cfg))"
  shows "unat (single_batch_size cfg) \<le> unat (queueSize (io cfg)) - 1"
proof -
  have q: "unat (ucast (queueSize (io cfg)) - 1 :: u32) = unat (queueSize (io cfg)) - 1"
    using assms by (subst unat_sub) (simp_all add: word_le_nat_alt unat_ucast_u16_u32)
  show ?thesis
    unfolding single_batch_size_def Let_def
    by (simp only: q [symmetric] word_le_nat_alt [symmetric]) auto
qed

definition batch_count :: "drive_cfg \<Rightarrow> drive \<Rightarrow> u32" where
  "batch_count cfg st =
     (if \<not> infiniteMode (io cfg) \<and> ops_done st + single_batch_size cfg > total_ops (io cfg)
      then total_ops (io cfg) - ops_done st else single_batch_size cfg)"

lemma clamp_le:
  assumes "(a :: u32) < t" and "a + n > t"
  shows "t - a \<le> n"
proof -
  have "unat (t - a) = unat t - unat a" using assms(1) by (intro unat_sub) simp
  moreover have "unat (a + n) \<le> unat a + unat n" by (simp add: unat_word_ariths)
  ultimately show ?thesis using assms by (simp add: word_less_nat_alt word_le_nat_alt)
qed

lemma batch_count_bound:
  assumes "infiniteMode (io cfg) \<or> ops_done st < total_ops (io cfg)" and "1 \<le> unat (queueSize (io cfg))"
  shows "unat (batch_count cfg st) \<le> unat (queueSize (io cfg)) - 1"
proof -
  have "batch_count cfg st \<le> single_batch_size cfg"
    using assms(1) clamp_le by (auto simp: batch_count_def)
  with single_batch_size_bound [OF assms(2)] show ?thesis by (simp add: word_le_nat_alt)
qed

lemma single_batch_ring:
  assumes "1 < unat (queueSize (io cfg))" and "ring_ok (queueSize (io cfg)) n n st"
    and "infiniteMode (io cfg) \<or> ops_done st < total_ops (io cfg)" and "single_batch cfg env st = (st', r)"
  shows "\<exists>n' m'. m' \<le> n' \<and> n' < m' + unat (queueSize (io cfg)) \<and> ring_ok (queueSize (io cfg)) n' m' st' \<and>
    (r = None \<longrightarrow> n' = m')"
proof -
  let ?q = "queueSize (io cfg)" and ?bs = "map of_nat [0..<unat (batch_count cfg st)] :: u32 list"
  have len: "n + length ?bs < n + unat ?q"
    using batch_count_bound [OF assms(3)] assms(1) by simp
  obtain st1 r1 where 1: "single_submit cfg ?bs st = (st1, r1)" by fastforce
  obtain n1 where n1: "n \<le> n1" "n1 \<le> n + length ?bs" "ring_ok ?q n1 n st1" "r1 = None \<longrightarrow> n1 = n + length ?bs"
    using single_submit_ring [OF assms(1,2) order_refl len 1] by blast
  let ?st1 = "emit (sq_doorbell (sq_tail st1) (db cfg)) st1"
  show ?thesis
  proof (cases r1)
    case (Some e)
    with 1 assms(4) have "st' = st1" "r \<noteq> None"
      by (auto simp: single_batch_def Let_def batch_count_def [symmetric])
    with n1 len show ?thesis by (intro exI [of _ n1] exI [of _ n]) auto
  next
    case None
    with n1 have ok: "ring_ok ?q (n + length ?bs) n ?st1" by (simp add: ring_ok_silent)
    obtain st2 r2 where 2: "single_complete cfg env ?bs ?st1 = (st2, r2)" by fastforce
    obtain m2 where m2: "n \<le> m2" "m2 \<le> n + length ?bs" "ring_ok ?q (n + length ?bs) m2 st2"
      "r2 = None \<longrightarrow> m2 = n + length ?bs"
      using single_complete_ring [OF assms(1) ok order_refl 2] by blast
    have r: "r = r2" using 1 2 None assms(4)
      by (auto simp: single_batch_def Let_def batch_count_def [symmetric] split: option.splits)
    have "ring_ok ?q (n + length ?bs) m2 st'"
    proof (cases r2)
      case None
      with 1 2 \<open>r1 = None\<close> assms(4) have "st' = (emit (cq_doorbell (cq_head st2) (db cfg)) st2)
          \<lparr>ops_done := ops_done st2 + batch_count cfg st\<rparr>"
        by (auto simp: single_batch_def Let_def batch_count_def [symmetric])
      with ring_ok_silent [OF m2(3), of "cq_doorbell (cq_head st2) (db cfg)"] show ?thesis
        by (simp add: ring_ok_def)
    next
      case (Some e)
      with 1 2 None assms(4) m2(3) show ?thesis
        by (auto simp: single_batch_def Let_def batch_count_def [symmetric])
    qed
    with m2 len r show ?thesis by (intro exI [of _ "n + length ?bs"] exI [of _ m2]) auto
  qed
qed

lemma single_loop_ring:
  assumes "1 < unat (queueSize (io cfg))" and "ring_ok (queueSize (io cfg)) n n st"
    and "single_loop cfg env fuel st = (st', e)"
  shows "\<exists>n' m'. m' \<le> n' \<and> n' < m' + unat (queueSize (io cfg)) \<and> ring_ok (queueSize (io cfg)) n' m' st'"
  using assms(2,3)
proof (induction fuel arbitrary: n st)
  case 0
  then show ?case using assms(1) by (intro exI [of _ n] exI [of _ n]) auto
next
  case (Suc fuel)
  obtain st1 r where 1: "single_batch cfg env st = (st1, r)" by fastforce
  show ?case
  proof (cases "(infiniteMode (io cfg) \<or> ops_done st < total_ops (io cfg)) \<and> \<not> stop_at_head env st")
    case True
    with single_batch_ring [OF assms(1) Suc.prems(1) _ 1] obtain n' m' where
      ok: "m' \<le> n'" "n' < m' + unat (queueSize (io cfg))" "ring_ok (queueSize (io cfg)) n' m' st1" "r = None \<longrightarrow> n' = m'"
      by blast
    show ?thesis
    proof (cases r)
      case None
      with ok True 1 Suc.prems(2) show ?thesis using Suc.IH [of n' st1] by auto
    next
      case (Some e')
      with True 1 Suc.prems(2) have "st' = st1" by auto
      with ok show ?thesis by blast
    qed
  next
    case False
    then have "st' = st" using Suc.prems(2) by (auto split: if_splits)
    with Suc.prems(1) assms(1) show ?thesis by (intro exI [of _ n] exI [of _ n]) auto
  qed
qed

lemma drive_start_ring: "ring_ok qs 0 0 (drive_start cfg)"
  by (simp add: ring_ok_def drive_start_def ring_slot_def ring_phase_def silent_precompute)

subsection \<open>Runs with an answering controller\<close>

fun sqe_writes :: "gpu_event list \<Rightarrow> (u16 \<times> nvme_sqe) list" where
  "sqe_writes [] = []"
| "sqe_writes (Sqe_write s q # es) = (s, q) # sqe_writes es"
| "sqe_writes (_ # es) = sqe_writes es"

fun completions :: "gpu_event list \<Rightarrow> nat" where
  "completions [] = 0"
| "completions (Cqe_taken s c # es) = Suc (completions es)"
| "completions (_ # es) = completions es"

lemma sqe_writes_append [simp]: "sqe_writes (xs @ ys) = sqe_writes xs @ sqe_writes ys"
  by (induction xs rule: sqe_writes.induct) auto

lemma completions_append [simp]: "completions (xs @ ys) = completions xs + completions ys"
  by (induction xs rule: completions.induct) auto

lemma silent_events: "list_all silent es \<Longrightarrow> sqe_writes es = [] \<and> completions es = 0"
  by (induction es) (auto simp: silent_def split: gpu_event.splits)

lemma silent_eventsD [simp]:
  "sqe_writes (ringDoorbell v d off) = []" "completions (ringDoorbell v d off) = 0"
  "sqe_writes (precompute_events cfg) = []" "completions (precompute_events cfg) = 0"
  using silent_events silent_doorbell silent_precompute by blast+

text \<open>
  The controller answers: each completion is posted, with the phase of its position in the ring
  and a success status, before the poll limit; until then the entry shows the other phase. Nobody
  asks to stop. The first \<open>n0\<close> completions of the queue are older than the run.
\<close>

definition device_answers :: "drive_cfg \<Rightarrow> nat \<Rightarrow> drive_env \<Rightarrow> bool" where
  "device_answers cfg n0 env \<longleftrightarrow>
     (\<forall>st. \<not> stop_at_head env st \<and>
       (\<exists>k<NVME_EP_MAX_POLLS. (\<forall>j. \<not> stop_at_poll env st j) \<and>
          (\<forall>j<k. NVME_CQE_STATUS_PHASE (cqe_status (cqe_seen env st j)) \<noteq>
                 ring_phase (queueSize (io cfg)) (n0 + completions (trace st))) \<and>
          NVME_CQE_STATUS_PHASE (cqe_status (cqe_seen env st k)) =
            ring_phase (queueSize (io cfg)) (n0 + completions (trace st)) \<and>
          cqeOk (cqe_seen env st k)))"

lemma poll_from_hit:
  assumes "k < n" and "\<And>j. \<not> stop_at_poll env st j"
    and "\<And>j. j < k \<Longrightarrow> NVME_CQE_STATUS_PHASE (cqe_status (cqe_seen env st (i + j))) \<noteq> expected_phase st"
    and "NVME_CQE_STATUS_PHASE (cqe_status (cqe_seen env st (i + k))) = expected_phase st"
  shows "poll_from env st n i = Poll_got (cqe_seen env st (i + k))"
  using assms(1,3,4)
proof (induction k arbitrary: n i)
  case 0
  then show ?case using assms(2) by (cases n) auto
next
  case (Suc k)
  obtain n' where n: "n = Suc n'" using Suc.prems(1) by (cases n) auto
  have "poll_from env st n' (Suc i) = Poll_got (cqe_seen env st (Suc i + k))"
    using Suc.prems(2) [of "Suc _"] Suc.prems by (intro Suc.IH) (auto simp: n)
  then show ?case using Suc.prems(2) [of 0] assms(2) by (simp add: n)
qed

lemma device_answers_poll:
  assumes "device_answers cfg n0 env"
    and "expected_phase st = ring_phase (queueSize (io cfg)) (n0 + completions (trace st))"
  obtains cqe where "poll_from env st NVME_EP_MAX_POLLS 0 = Poll_got cqe" "cqeOk cqe"
proof -
  from assms(1) obtain k where k: "k < NVME_EP_MAX_POLLS" "\<And>j. \<not> stop_at_poll env st j"
    "\<And>j. j < k \<Longrightarrow> NVME_CQE_STATUS_PHASE (cqe_status (cqe_seen env st j)) \<noteq> expected_phase st"
    "NVME_CQE_STATUS_PHASE (cqe_status (cqe_seen env st k)) = expected_phase st" "cqeOk (cqe_seen env st k)"
    unfolding device_answers_def assms(2) by blast
  from poll_from_hit [OF k(1,2), of 0] k(3-) that show ?thesis by auto
qed

definition op_prps :: "drive_cfg \<Rightarrow> nat \<Rightarrow> nat \<Rightarrow> ((u64 \<times> u64) \<times> gpu_event list) option" where
  "op_prps cfg i b = slot_prps (bp cfg) (io cfg) (\<not> op_is_read (io cfg) (of_nat i)) (of_nat b)"

definition op_sqe :: "drive_cfg \<Rightarrow> nat \<Rightarrow> nat \<Rightarrow> nvme_sqe" where
  "op_sqe cfg i b = build_sqe (io cfg) (of_nat i) (fst (the (op_prps cfg i b)))"

lemma single_prps_op:
  assumes "op_prps cfg i b \<noteq> None"
  shows "\<exists>es. single_prps cfg (\<not> op_is_read (io cfg) (of_nat i)) (of_nat b) = Some (fst (the (op_prps cfg i b)), es)"
  using assms by (auto simp: single_prps_def precomputed_prps_def op_prps_def)

lemma single_submit_done:
  assumes "0 < unat (queueSize (io cfg))" and "\<And>j. k \<le> j \<Longrightarrow> j < c \<Longrightarrow> op_prps cfg (n + j) j \<noteq> None"
    and "sq_tail st = ring_slot (queueSize (io cfg)) (n + k)" and "ops_done st = of_nat n"
  shows "\<exists>st'. single_submit cfg (map of_nat [k..<c]) st = (st', None) \<and>
    sqe_writes (trace st') = sqe_writes (trace st) @
      map (\<lambda>j. (ring_slot (queueSize (io cfg)) (n + j), op_sqe cfg (n + j) j)) [k..<c] \<and>
    completions (trace st') = completions (trace st)"
  using assms(2-)
proof (induction "c - k" arbitrary: k st)
  case 0
  then show ?case by simp
next
  case (Suc d)
  then have kc: "k < c" by simp
  then have bs: "[k..<c] = k # [Suc k..<c]" by (simp add: upt_conv_Cons)
  obtain es where es: "single_prps cfg (\<not> op_is_read (io cfg) (of_nat (n + k))) (of_nat k) =
      Some (fst (the (op_prps cfg (n + k) k)), es)"
    using single_prps_op Suc.prems(1) kc by blast
  let ?es = "es @ (if \<not> infiniteMode (io cfg) \<and> has_start_times cfg then [Start_time (of_nat (n + k))] else [])"
  let ?st = "(emit (?es @ [Sqe_write (sq_tail st) (op_sqe cfg (n + k) k)]) st)
    \<lparr>sq_tail := ring_next (queueSize (io cfg)) (sq_tail st)\<rparr>"
  have sil: "sqe_writes es = []" "completions es = 0"
    using silent_events silent_single_prps [OF es] by auto
  have step: "single_submit cfg (map of_nat [k..<c]) st = single_submit cfg (map of_nat [Suc k..<c]) ?st"
    using es Suc.prems(3) by (simp add: bs Let_def op_sqe_def)
  have "\<exists>st'. single_submit cfg (map of_nat [Suc k..<c]) ?st = (st', None) \<and>
    sqe_writes (trace st') = sqe_writes (trace ?st) @
      map (\<lambda>j. (ring_slot (queueSize (io cfg)) (n + j), op_sqe cfg (n + j) j)) [Suc k..<c] \<and>
    completions (trace st') = completions (trace ?st)"
    using Suc assms(1) by (intro Suc.hyps(1)) (auto simp: ring_next_slot emit_def)
  then show ?case
    unfolding step using Suc.prems(2) by (auto simp: emit_def sil bs)
qed

lemma single_complete_done:
  assumes "1 < unat (queueSize (io cfg))" and "device_answers cfg 0 env"
    and "expected_phase st = ring_phase (queueSize (io cfg)) m" and "completions (trace st) = m"
    and "cq_head st = ring_slot (queueSize (io cfg)) m"
  shows "\<exists>st'. single_complete cfg env bs st = (st', None) \<and> sqe_writes (trace st') = sqe_writes (trace st) \<and>
    completions (trace st') = m + length bs"
  using assms(3-)
proof (induction bs arbitrary: m st)
  case Nil
  then show ?case by simp
next
  case (Cons b bs)
  obtain cqe where cqe: "poll_from env st NVME_EP_MAX_POLLS 0 = Poll_got cqe" "cqeOk cqe"
    using device_answers_poll [OF assms(2), of st] Cons.prems by auto
  let ?st = "take_cqe cfg (ops_done st + b) cqe st"
  have "\<exists>st'. single_complete cfg env bs ?st = (st', None) \<and> sqe_writes (trace st') = sqe_writes (trace ?st) \<and>
      completions (trace st') = Suc m + length bs"
    using Cons.prems assms(1)
    by (intro Cons.IH) (auto simp: take_cqe_def advance_cq_def emit_def Let_def ring_next_slot ring_phase_Suc)
  with cqe show ?case by (auto simp: take_cqe_def advance_cq_def emit_def Let_def)
qed

lemma unat_of_nat_u32: "n < 2 ^ 32 \<Longrightarrow> unat (of_nat n :: u32) = n"
  by (simp add: unsigned_of_nat take_bit_nat_eq_self)

lemma single_batch_size_pos:
  assumes "1 < unat (queueSize (io cfg))" and "0 < unat (total_ops (io cfg))"
  shows "0 < unat (single_batch_size cfg)"
proof -
  have "ucast (queueSize (io cfg)) - 1 \<noteq> (0 :: u32)"
    using assms(1) unat_ucast_u16_u32 [of "queueSize (io cfg)"] by (metis eq_iff_diff_eq_0 less_irrefl unat_1)
  moreover have "total_ops (io cfg) \<noteq> 0" using assms(2) by auto
  ultimately have "single_batch_size cfg \<noteq> 0" by (auto simp: single_batch_size_def Let_def)
  then show ?thesis by (simp add: unat_gt_0)
qed

lemma unat_batch_count:
  assumes "\<not> infiniteMode (io cfg)" and "ops_done st = of_nat n" and "n < unat (total_ops (io cfg))"
    and "unat (total_ops (io cfg)) + 65536 < 2 ^ 32" and "1 < unat (queueSize (io cfg))"
  shows "unat (batch_count cfg st) = min (unat (single_batch_size cfg)) (unat (total_ops (io cfg)) - n)"
proof -
  have n: "unat (ops_done st) = n" using assms by (simp add: unat_of_nat_u32)
  have bs: "unat (single_batch_size cfg) < 65536"
    using single_batch_size_bound [of cfg] assms(5) unat_u16_bound [of "queueSize (io cfg)"] by linarith
  then have "unat (ops_done st + single_batch_size cfg) = n + unat (single_batch_size cfg)"
    using assms(3,4) by (subst unat_add_no_wrap) (simp_all add: n)
  moreover have "unat (total_ops (io cfg) - ops_done st) = unat (total_ops (io cfg)) - n"
    using assms(3) by (subst unat_sub) (simp_all add: n word_le_nat_alt)
  ultimately show ?thesis
    using assms(1) by (simp add: batch_count_def word_less_nat_alt)
qed

lemma single_batch_done:
  fixes cfg st
  defines "q \<equiv> queueSize (io cfg)" and "c \<equiv> unat (batch_count cfg st)"
  assumes q: "1 < unat q" and dev: "device_answers cfg 0 env" and ok: "ring_ok q n n st"
    and "completions (trace st) = n" and ops: "ops_done st = of_nat n" and c: "c < unat q"
    and prps: "\<And>j. j < c \<Longrightarrow> op_prps cfg (n + j) j \<noteq> None"
  shows "\<exists>st'. single_batch cfg env st = (st', None) \<and> ring_ok q (n + c) (n + c) st' \<and>
    completions (trace st') = n + c \<and> ops_done st' = of_nat (n + c) \<and>
    sqe_writes (trace st') = sqe_writes (trace st) @ map (\<lambda>j. (ring_slot q (n + j), op_sqe cfg (n + j) j)) [0..<c]"
proof -
  let ?bs = "map of_nat [0..<c] :: u32 list"
  obtain st1 where 1: "single_submit cfg ?bs st = (st1, None)"
    "sqe_writes (trace st1) = sqe_writes (trace st) @ map (\<lambda>j. (ring_slot q (n + j), op_sqe cfg (n + j) j)) [0..<c]"
    "completions (trace st1) = completions (trace st)"
    using single_submit_done [of cfg 0 c n st] q prps ok ops unfolding q_def by (auto simp: ring_ok_def)
  have ok1: "ring_ok q (n + c) n st1" "ops_done st1 = ops_done st"
    using single_submit_ring [of cfg n n st ?bs st1 None] q ok c 1(1) unfolding q_def by auto
  let ?st1 = "emit (sq_doorbell (sq_tail st1) (db cfg)) st1"
  have ok1': "ring_ok q (n + c) n ?st1" using ok1 by (simp add: ring_ok_silent)
  obtain st2 where 2: "single_complete cfg env ?bs ?st1 = (st2, None)"
    "sqe_writes (trace st2) = sqe_writes (trace ?st1)" "completions (trace st2) = n + c"
    using single_complete_done [of cfg env ?st1 n ?bs] q dev ok1' 1(3) \<open>completions (trace st) = n\<close>
    unfolding q_def by (auto simp: ring_ok_def emit_def)
  have ok2: "ring_ok q (n + c) (n + c) st2" "ops_done st2 = ops_done ?st1"
    using single_complete_ring [of cfg "n + c" n ?st1 ?bs env st2 None] q ok1' 2(1) unfolding q_def by auto
  let ?st' = "(emit (cq_doorbell (cq_head st2) (db cfg)) st2)\<lparr>ops_done := ops_done st2 + batch_count cfg st\<rparr>"
  have "single_batch cfg env st = (?st', None)"
    using 1(1) 2(1) by (simp add: single_batch_def Let_def batch_count_def [symmetric] c_def)
  moreover have "ring_ok q (n + c) (n + c) ?st'"
    using ring_ok_silent [OF ok2(1), of "cq_doorbell (cq_head st2) (db cfg)"] by (simp add: ring_ok_def)
  ultimately show ?thesis
    using 1 2 ok1(2) ok2(2) ops by (auto simp: emit_def c_def)
qed

lemma single_loop_done:
  fixes cfg
  defines "q \<equiv> queueSize (io cfg)" and "T \<equiv> unat (total_ops (io cfg))" and "B \<equiv> unat (single_batch_size cfg)"
  assumes q: "1 < unat q" and dev: "device_answers cfg 0 env" and fin: "\<not> infiniteMode (io cfg)" "T + 65536 < 2 ^ 32"
    and prps: "\<And>i. i < T \<Longrightarrow> op_prps cfg i (i mod B) \<noteq> None"
    and st: "ring_ok q n n st" "completions (trace st) = n" "ops_done st = of_nat n" "n \<le> T" "n = T \<or> B dvd n"
      "sqe_writes (trace st) = map (\<lambda>i. (ring_slot q i, op_sqe cfg i (i mod B))) [0..<n]" "T - n < fuel"
  shows "\<exists>st'. single_loop cfg env fuel st = (st', Completed) \<and> ring_ok q T T st' \<and> completions (trace st') = T \<and>
    sqe_writes (trace st') = map (\<lambda>i. (ring_slot q i, op_sqe cfg i (i mod B))) [0..<T]"
  using st
proof (induction fuel arbitrary: n st)
  case 0
  then show ?case by simp
next
  case (Suc fuel)
  have n: "unat (ops_done st) = n" using Suc.prems fin by (simp add: unat_of_nat_u32)
  show ?case
  proof (cases "n = T")
    case True
    with n fin have "\<not> ops_done st < total_ops (io cfg)" by (simp add: word_less_nat_alt T_def)
    with Suc.prems True fin show ?thesis by auto
  next
    case False
    with Suc.prems have nT: "n < T" and dvd: "B dvd n" by auto
    define c where "c = unat (batch_count cfg st)"
    have c: "c = min B (T - n)"
      using unat_batch_count [of cfg st n] fin Suc.prems(3) nT q unfolding c_def B_def T_def q_def by auto
    have "0 < B" using single_batch_size_pos [of cfg] q nT unfolding B_def T_def q_def by linarith
    then have c0: "0 < c" using c nT by simp
    have mod: "(n + j) mod B = j" if "j < c" for j using that c dvd by auto
    have "c < unat q" using single_batch_size_bound [of cfg] q c unfolding B_def q_def by linarith
    moreover have "op_prps cfg (n + j) j \<noteq> None" if "j < c" for j
      using prps [of "n + j"] mod [OF that] that c by auto
    ultimately obtain st1 where 1: "single_batch cfg env st = (st1, None)" "ring_ok q (n + c) (n + c) st1"
      "completions (trace st1) = n + c" "ops_done st1 = of_nat (n + c)"
      "sqe_writes (trace st1) = sqe_writes (trace st) @ map (\<lambda>j. (ring_slot q (n + j), op_sqe cfg (n + j) j)) [0..<c]"
      using single_batch_done [of cfg env n st] q dev Suc.prems unfolding q_def c_def by blast
    have "map (\<lambda>j. (ring_slot q (n + j), op_sqe cfg (n + j) j)) [0..<c] =
        map (\<lambda>i. (ring_slot q i, op_sqe cfg i (i mod B))) [n..<n + c]"
      by (rule nth_equalityI) (auto simp: mod)
    with 1(5) Suc.prems(6) have w: "sqe_writes (trace st1) = map (\<lambda>i. (ring_slot q i, op_sqe cfg i (i mod B))) [0..<n + c]"
      by (simp add: upt_add_eq_append [of 0 n c])
    have "\<not> stop_at_head env st" using dev by (simp add: device_answers_def)
    moreover have "ops_done st < total_ops (io cfg)" using n nT by (simp add: word_less_nat_alt T_def)
    ultimately have "single_loop cfg env (Suc fuel) st = single_loop cfg env fuel st1" using 1(1) by simp
    moreover have "n + c = T \<or> B dvd n + c" using c dvd nT by (auto simp: min_def)
    ultimately show ?thesis using Suc.IH [OF 1(2-4) _ _ w] c c0 nT Suc.prems(7) by auto
  qed
qed

lemma silent_stateful_prps: "stateful_prps p b i = (prps, es) \<Longrightarrow> list_all silent es"
  by (auto simp: stateful_prps_def Let_def list_all_iff split: if_splits prod.splits)

lemma stateful_submit_ring:
  assumes "1 < unat (queueSize (io cfg))" and "ring_ok (queueSize (io cfg)) n m st"
    and "m \<le> n" "n + length bs < m + unat (queueSize (io cfg))"
  shows "ring_ok (queueSize (io cfg)) (n + length bs) m (stateful_submit cfg bs st) \<and>
    completions (trace (stateful_submit cfg bs st)) = completions (trace st)"
  using assms(2-)
proof (induction bs arbitrary: n st)
  case Nil
  then show ?case by simp
next
  case (Cons b bs)
  obtain prps es where p: "stateful_prps (io cfg) (bp cfg) b = (prps, es)" by fastforce
  let ?st = "(emit (es @ [Sqe_write (sq_tail st) (stateful_sqe (io cfg) (sq_tail st) b prps)]) st)
    \<lparr>sq_tail := ring_next (queueSize (io cfg)) (sq_tail st)\<rparr>"
  have "ring_ok (queueSize (io cfg)) (Suc n) m ?st"
    using Cons.prems by (intro ring_ok_submit [OF assms(1)]) (auto simp: silent_stateful_prps [OF p])
  from Cons.IH [OF this] Cons.prems show ?case
    using silent_events [OF silent_stateful_prps [OF p]] by (simp add: p emit_def)
qed

lemma ring_ok_advance:
  assumes "1 < unat qs" and "ring_ok qs n m st" and "m < n"
  shows "ring_ok qs n (Suc m) (advance_cq qs (emit [Cqe_taken (cq_head st) cqe] st))"
  using assms
  by (auto simp: ring_ok_def advance_cq_def emit_def ring_run_append ring_next_slot ring_phase_Suc Let_def
      upt_conv_Cons)

lemma device_answers_no_stop:
  "device_answers cfg n0 env \<Longrightarrow> device_answers cfg n0 (env\<lparr>stop_at_poll := \<lambda>_ _. False\<rparr>)"
  unfolding device_answers_def by simp blast

lemma stateful_complete_ring:
  assumes "1 < unat (queueSize (io cfg))" and "device_answers cfg n0 env"
    and "ring_ok (queueSize (io cfg)) n m st" and "m + k \<le> n"
    and "n0 + completions (trace st) = m"
  shows "\<exists>st'. stateful_complete cfg env k st = Some st' \<and> ring_ok (queueSize (io cfg)) n (m + k) st' \<and>
    n0 + completions (trace st') = m + k"
  using assms(3-)
proof (induction k arbitrary: m st)
  case 0
  then show ?case by simp
next
  case (Suc k)
  obtain cqe where "poll_from (env\<lparr>stop_at_poll := \<lambda>_ _. False\<rparr>) st NVME_EP_MAX_POLLS 0 = Poll_got cqe"
    using device_answers_poll [OF device_answers_no_stop [OF assms(2)], of st] Suc.prems
    by (auto simp: ring_ok_def)
  moreover have "ring_ok (queueSize (io cfg)) n (Suc m)
      (advance_cq (queueSize (io cfg)) (emit [Cqe_taken (cq_head st) cqe] st))"
    using Suc.prems by (intro ring_ok_advance [OF assms(1)]) auto
  from Suc.IH [OF this] Suc.prems have "\<exists>st'. stateful_complete cfg env k
      (advance_cq (queueSize (io cfg)) (emit [Cqe_taken (cq_head st) cqe] st)) = Some st' \<and>
      ring_ok (queueSize (io cfg)) n (m + Suc k) st' \<and> n0 + completions (trace st') = m + Suc k"
    by (simp add: advance_cq_def emit_def Let_def)
  ultimately show ?case by simp
qed

text \<open>The words that encode the state of a queue after \<open>n\<close> operations.\<close>

definition stateful_words :: "u16 \<Rightarrow> nat \<Rightarrow> u32 \<times> u32" where
  "stateful_words qs n =
     (push_bit 16 (ucast (ring_slot qs n)) OR ucast (ring_slot qs n), ucast (ring_phase qs n))"

lemma stateful_load_words:
  "stateful_load (push_bit 16 (ucast (h :: u16)) OR ucast (t :: u16)) (if b then 1 else 0) =
     \<lparr>sq_tail = t, cq_head = h, expected_phase = (if b then 1 else 0), ops_done = 0, trace = []\<rparr>"
proof -
  have m: "(0xFFFF :: u32) = mask 16" by (simp add: mask_eq_exp_minus_1)
  have "(ucast ((push_bit 16 (ucast h) OR ucast t) AND 0xFFFF :: u32) :: u16) = t"
    unfolding m by (rule bit_word_eqI) (auto simp: bit_simps)
  moreover have "(ucast (drop_bit 16 (push_bit 16 (ucast h) OR ucast t :: u32)) :: u16) = h"
    by (rule bit_word_eqI) (auto simp: bit_simps dest: bit_imp_le_length)
  ultimately show ?thesis by (simp add: stateful_load_def)
qed

subsection \<open>Properties\<close>


text \<open>C8. Whatever the controller does, whenever the stop flag is raised, and however long the loop has
  run: no submission slot is written again before its command has been completed, no completion is
  taken that was not waited for, and fewer commands than the ring has slots are outstanding.\<close>

theorem single_ring_safe:
  assumes "1 < unat (queueSize (io cfg))"
  shows "\<exists>fl. ring_run (trace (fst (driveEndpointSingle cfg env fuel))) [] = Some fl \<and>
    length fl < unat (queueSize (io cfg))"
proof -
  obtain st e where st: "driveEndpointSingle cfg env fuel = (st, e)" by (rule prod.exhaust)
  then have "single_loop cfg env fuel (drive_start cfg) = (st, e)" by (simp only: driveEndpointSingle_def)
  from single_loop_ring [OF assms drive_start_ring this] obtain n m where
    "n < m + unat (queueSize (io cfg))" "ring_ok (queueSize (io cfg)) n m st" by blast
  moreover from this have "n - m < unat (queueSize (io cfg))" using assms by linarith
  ultimately show ?thesis
    unfolding st by (intro exI [of _ "map (ring_slot (queueSize (io cfg))) [m..<n]"]) (simp add: ring_ok_def)
qed


text \<open>C31. A random operation stays inside the configured range of blocks, if it fits into the range at
  all and the range does not wrap around.\<close>

theorem random_lba_in_range:
  assumes "useRandomAccess p" and "0 < blocks" and "unat blocks \<le> unat (lbaRangeLbas p)"
    and "unat (baseLba p) + unat (lbaRangeLbas p) < 2 ^ 64"
  shows "unat (baseLba p) \<le> unat (getRandomLba i c blocks p) \<and>
    unat (getRandomLba i c blocks p) + unat blocks \<le> unat (baseLba p) + unat (lbaRangeLbas p)"
proof -
  let ?R = "lbaRangeLbas p" and ?m = "lbaRangeLbas p - ucast blocks + 1"
  have b: "0 < unat blocks" using assms(2) by (simp add: word_less_nat_alt)
  have "unat (?R - ucast blocks) = unat ?R - unat blocks"
    using assms(3) by (subst unat_sub) (simp_all add: word_le_nat_alt)
  moreover have "unat ?R < 2 ^ 64" using assms(4) by linarith
  ultimately have m: "unat ?m = unat ?R - unat blocks + 1"
    using b assms(3) by (simp add: unat_word_ariths)
  let ?s = "lba_hash i c (lfsrSeed p) mod ?m"
  have "unat ?s < unat ?m" using m by (simp add: unat_mod)
  then have s: "unat ?s + unat blocks \<le> unat ?R" using m b assms(3) by linarith
  then have "unat (baseLba p + ?s) = unat (baseLba p) + unat ?s"
    using assms(4) by (simp add: unat_word_ariths)
  moreover have "getRandomLba i c blocks p = baseLba p + ?s"
    using assms b by (auto simp: getRandomLba_def Let_def word_less_nat_alt word_le_nat_alt)
  ultimately show ?thesis using s by simp
qed

text \<open>Sequential access ignores the length of the operation when it wraps around: if the range is
  not a multiple of it, the last operation of each pass reads or writes beyond the range.\<close>

theorem sequential_lba_overrun:
  assumes "\<not> useRandomAccess p" and "0 < unat blocks" and "\<not> unat blocks dvd unat (lbaRangeLbas p)"
    and "unat (lbaRangeLbas p) < 2 ^ 32" and "unat (baseLba p) + unat (lbaRangeLbas p) < 2 ^ 64"
  shows "unat (baseLba p) + unat (lbaRangeLbas p) <
    unat (getRandomLba (of_nat (unat (lbaRangeLbas p) div unat blocks)) c blocks p) + unat blocks"
proof -
  let ?R = "unat (lbaRangeLbas p)" and ?b = "unat blocks"
  define k where "k = ?R div ?b"
  have kb: "k * ?b + ?R mod ?b = ?R" by (simp add: k_def)
  have r: "0 < ?R mod ?b" "?R mod ?b < ?b" using assms(2,3) by (simp_all add: dvd_eq_mod_eq_0)
  then have lt: "k * ?b < ?R" "?R < k * ?b + ?b" using kb by linarith+
  have "k \<le> ?R" by (simp add: k_def)
  then have k: "unat (of_nat k :: u32) = k" using assms(4) by (intro unat_of_nat_u32) linarith
  then have "unat (of_nat k * blocks) = k * ?b" using lt assms(4) by (subst unat_mult_no_wrap) simp_all
  then have "unat (ucast (of_nat k * blocks) mod lbaRangeLbas p) = k * ?b"
    using lt by (simp add: unat_mod)
  moreover from this have "unat (baseLba p + ucast (of_nat k * blocks) mod lbaRangeLbas p) = unat (baseLba p) + k * ?b"
    using lt assms(5) by (simp add: unat_word_ariths)
  moreover have "lbaRangeLbas p > 0" using lt by (simp add: word_less_nat_alt)
  ultimately show ?thesis using assms(1) lt by (simp add: getRandomLba_def k_def)
qed

text \<open>C30. In a run of writes followed by reads, a read goes to the block that the write of the same
  number wrote, sequential or random.\<close>

theorem read_back_same_block:
  assumes "\<not> infiniteMode p" and "0 < writeIo p" "writeIo p < 2 ^ 31" and "0 < readIo p" "readIo p < 2 ^ 31"
    and "j < nat (readIo p)" and "j < nat (writeIo p)"
  shows "op_is_read p (of_nat (nat (writeIo p) + j)) \<and> \<not> op_is_read p (of_nat j) \<and>
    op_lba p (of_nat (nat (writeIo p) + j)) = op_lba p (of_nat j)"
proof -
  obtain W R where WR: "writeIo p = int W" "readIo p = int R"
    using assms(2,4) by (metis less_imp_le nonneg_int_cases)
  have w: "num_write_ops p = of_nat W" "num_read_ops p = of_nat R"
    by (simp_all add: num_write_ops_def num_read_ops_def WR)
  have u: "unat (of_nat W :: u32) = W" "unat (of_nat R :: u32) = R" "unat (of_nat j :: u32) = j"
    "unat (of_nat (W + j) :: u32) = W + j"
    using assms by (intro unat_of_nat_u32; simp add: WR)+
  have pos: "num_write_ops p > 0" "num_read_ops p > 0"
    using assms by (simp_all only: w word_less_nat_alt u) (simp_all add: WR)
  have "op_is_read p (of_nat (W + j))" "\<not> op_is_read p (of_nat j)"
    using assms pos by (simp_all only: op_is_read_def w word_le_nat_alt u simp_thms if_False if_True) (simp_all add: WR)
  then show ?thesis using pos(1) by (simp add: op_lba_def w WR)
qed

text \<open>A slot beyond the data buffer is not noticed in the precomputed part of a batch: the entry is
  submitted with whatever the stack held as its PRPs, where the fallback path traps.\<close>

theorem single_prps_uninitialised:
  assumes "b < precompute_count cfg"
    and "ucast b * transfer_size (io cfg) + transfer_size (io cfg) > bufferSize (bp cfg)"
  shows "single_prps cfg w b = Some (stack_prps cfg w b, []) \<and> slot_prps (bp cfg) (io cfg) w b = None"
proof -
  have "\<not> ucast b * transfer_size (io cfg) + transfer_size (io cfg) \<le> bufferSize (bp cfg)"
    using assms(2) by simp
  then have "slot_prps (bp cfg) (io cfg) w b = None" by (simp only: slot_prps_def Let_def simp_thms if_False)
  with assms(1) show ?thesis by (simp add: single_prps_def precomputed_prps_def)
qed

text \<open>Started on the zeroed words its documentation asks for, the stateful kernel takes completions
  from a completion queue that the controller has not written to.\<close>

theorem stateful_zero_state:
  assumes "\<And>st k. cqe_status (cqe_seen env st k) = 0" and "readIo (io cfg) = 1" and "1 < unat (queueSize (io cfg))"
  shows "\<exists>tr w. gpuKernelStateful cfg env 0 0 = Some (tr, w) \<and> completions tr = 1"
proof -
  have n: "unat (stateful_ops (io cfg)) = 1" using assms(2) by (simp add: stateful_ops_def)
  have p: "poll_from (env\<lparr>stop_at_poll := \<lambda>_ _. False\<rparr>) st NVME_EP_MAX_POLLS 0 = Poll_got (cqe_seen env st 0)"
    if "expected_phase st = 0" for st
    using poll_from_hit [of 0 NVME_EP_MAX_POLLS "env\<lparr>stop_at_poll := \<lambda>_ _. False\<rparr>" st 0] that
    by (simp add: assms(1) NVME_EP_MAX_POLLS_def NVME_CQE_STATUS_PHASE_def)
  obtain prps es where sp: "stateful_prps (io cfg) (bp cfg) 0 = (prps, es)" by fastforce
  have "completions es = 0" using silent_events [OF silent_stateful_prps [OF sp]] by simp
  then show ?thesis
    by (simp add: gpuKernelStateful_def n sp Let_def p emit_def stateful_load_def advance_cq_def)
qed

text \<open>For a buffer given as a table of pages, the stateful kernel drops the offset inside the page:
  two operations of half a page address the same memory.\<close>

theorem stateful_drops_page_offset:
  assumes "readIo p > 0" and "readPagePhysAddrs b = Some pa" and "readBuffer b \<noteq> NULL" "bufferSize b > 0"
    and "transfer_size p = 2048"
  shows "fst (fst (stateful_prps p b 1)) = fst (fst (stateful_prps p b 0))"
  using assms
  by (simp add: stateful_prps_def Let_def stateful_addr_def NVME_PAGE_SIZE_def calculatePrps_def
      split: prod.split)

subsection \<open>Concrete runs\<close>

definition sample_io :: nvmeIoParams where
  "sample_io = \<lparr>lbaSize = 512, baseLba = 1000, lbaRangeLbas = 30, useRandomAccess = False, readIo = 2,
     writeIo = 3, lfsrSeed = 7, queueSize = 4, nsid = 1, lbasPerIo = 4, infiniteMode = False, batchSize = 0,
     wavefrontSize = 64\<rparr>"

definition sample_cfg :: drive_cfg where
  "sample_cfg = \<lparr>io = sample_io,
     db = \<lparr>doorbellOffset = 0x1008, nvmeTargetBdf = 0x30, shadowBufferVirt = NULL, nvmeBar0Gpu = 0x9000,
           usePciMmioBridge = False\<rparr>,
     bp = sample_buffer_params, has_start_times = True, has_end_times = True, has_timing_stats = False,
     stack_prps = \<lambda>_ _. (0xDEAD, 0xBEEF)\<rparr>"

text \<open>A controller that has always just posted the next completion.\<close>

definition sample_drive_env :: "u16 \<Rightarrow> nat \<Rightarrow> drive_env" where
  "sample_drive_env qs n0 = \<lparr>stop_at_head = \<lambda>_. False, stop_at_poll = \<lambda>_ _. False,
     cqe_seen = \<lambda>st k. \<lparr>cqe_sq_head = 0, cqe_command_id = 0,
       cqe_status = ucast (ring_phase qs (n0 + completions (trace st)))\<rparr>\<rparr>"

lemma sample_answers: "device_answers cfg n0 (sample_drive_env (queueSize (io cfg)) n0)"
  unfolding device_answers_def
proof (intro allI conjI exI [of _ 0])
  fix st
  show "NVME_CQE_STATUS_PHASE (cqe_status (cqe_seen (sample_drive_env (queueSize (io cfg)) n0) st 0)) =
      ring_phase (queueSize (io cfg)) (n0 + completions (trace st))"
    by (simp add: sample_drive_env_def ring_phase_def NVME_CQE_STATUS_PHASE_def)
qed (simp_all add: sample_drive_env_def NVME_EP_MAX_POLLS_def ring_phase_def cqeOk_def NVME_CQE_STATUS_SC_def
    NVME_CQE_STATUS_SCT_def)

lemma sample_cfg_facts:
  "total_ops (io sample_cfg) = 5" "single_batch_size sample_cfg = 3" "queueSize (io sample_cfg) = 4"
  "infiniteMode (io sample_cfg) = False"
  by code_simp+

lemma slot_prps_fits:
  assumes "(if w then writeBuffer b else readBuffer b) \<noteq> NULL" and "bufferSize b > 0"
    and "ucast i * transfer_size p + transfer_size p \<le> bufferSize b"
  shows "slot_prps b p w i \<noteq> None"
  using assms by (simp add: slot_prps_def Let_def split: prod.split)

lemma sample_prps: "i < 5 \<Longrightarrow> op_prps sample_cfg i (i mod 3) \<noteq> None"
proof -
  have "slot_prps sample_buffer_params sample_io w (of_nat b) \<noteq> None" if "b < 3" for w b
  proof (rule slot_prps_fits)
    have "transfer_size sample_io = 0x800" by code_simp
    moreover have "b = 0 \<or> b = 1 \<or> b = 2" using that by linarith
    ultimately show "ucast (of_nat b :: u32) * transfer_size sample_io + transfer_size sample_io \<le>
        bufferSize sample_buffer_params"
      by (auto simp: sample_buffer_params_def)
  qed (simp_all add: sample_buffer_params_def)
  then show ?thesis by (simp add: op_prps_def sample_cfg_def)
qed


theorem single_ring_safe_witness:
  "\<exists>fl. ring_run (trace (fst (driveEndpointSingle sample_cfg (sample_drive_env 4 0) 2))) [] = Some fl \<and> length fl < 4"
  using single_ring_safe [of sample_cfg "sample_drive_env 4 0" 2] by (simp add: sample_cfg_facts)


theorem random_lba_in_range_witness:
  "unat (getRandomLba 17 18 4 (sample_io\<lparr>useRandomAccess := True\<rparr>)) + 4 \<le> 1030"
  using random_lba_in_range [of "sample_io\<lparr>useRandomAccess := True\<rparr>" 4 17 18] by (simp add: sample_io_def)

theorem sequential_lba_overrun_witness: "1030 < unat (getRandomLba 7 8 4 sample_io) + 4"
  using sequential_lba_overrun [of sample_io 4 8] by (simp add: sample_io_def dvd_eq_mod_eq_0)

theorem read_back_same_block_witness: "op_is_read sample_io 4 \<and> op_lba sample_io 4 = op_lba sample_io 1"
  using read_back_same_block [of sample_io 1] by (simp add: sample_io_def)

theorem single_prps_uninitialised_witness:
  "single_prps (sample_cfg\<lparr>bp := sample_buffer_params\<lparr>bufferSize := 0x1000\<rparr>\<rparr>) False 2 = Some ((0xDEAD, 0xBEEF), [])"
proof -
  let ?cfg = "sample_cfg\<lparr>bp := sample_buffer_params\<lparr>bufferSize := 0x1000\<rparr>\<rparr>"
  have "precompute_count ?cfg = 3" "transfer_size (io ?cfg) = 0x800" by code_simp+
  with single_prps_uninitialised [of 2 ?cfg False] show ?thesis by (simp add: sample_cfg_def)
qed

theorem stateful_zero_state_witness:
  "\<exists>tr w. gpuKernelStateful (sample_cfg\<lparr>io := sample_io\<lparr>readIo := 1\<rparr>\<rparr>)
     \<lparr>stop_at_head = \<lambda>_. False, stop_at_poll = \<lambda>_ _. False,
      cqe_seen = \<lambda>_ _. \<lparr>cqe_sq_head = 0, cqe_command_id = 0, cqe_status = 0\<rparr>\<rparr> 0 0 = Some (tr, w) \<and> completions tr = 1"
  by (rule stateful_zero_state) (simp_all add: sample_io_def)

theorem stateful_drops_page_offset_witness:
  "fst (fst (stateful_prps sample_io (sample_buffer_params\<lparr>readPagePhysAddrs := Some [0xA000, 0xB000]\<rparr>) 1)) =
   fst (fst (stateful_prps sample_io (sample_buffer_params\<lparr>readPagePhysAddrs := Some [0xA000, 0xB000]\<rparr>) 0))"
  by (rule stateful_drops_page_offset [of _ _ "[0xA000, 0xB000]"])
    (simp_all add: sample_io_def sample_buffer_params_def transfer_size_def)

end
