(* ===== verification/Sdma_Layout.thy ===== *)
theory Sdma_Layout
  imports Xio_Prelude
begin

text \<open>
  SDMA packets as the engine reads them: a packet is a list of 32-bit words, each of them divided
  into named bit-fields. The layouts are those of the C structs of
  \<^verbatim>\<open>src/src/endpoints/sdma-ep/sdma_pkt_struct.h\<close> (SDMA 4.4.x) and \<^verbatim>\<open>sdma_pkt_struct_mi4.h\<close> (OSS 7.0),
  one definition per struct, with the fields of each word from bit 0 upwards. Storing into a
  bit-field truncates to its width, as in C; \<open>pack\<close> and \<open>unpack\<close> are the two directions, and
  \<open>unpack_pack\<close> is the fact that every packet builder rests on.
\<close>

subsection \<open>Bit-fields\<close>

type_synonym dword_layout = "(string \<times> nat) list"
type_synonym packet_layout = "dword_layout list"

fun pack :: "dword_layout \<Rightarrow> (string \<Rightarrow> u32) \<Rightarrow> u32" where
  "pack [] v = 0"
| "pack ((n, w) # fs) v = take_bit w (v n) OR push_bit w (pack fs v)"

text \<open>The position and width of a field.\<close>

fun field_pos :: "dword_layout \<Rightarrow> string \<Rightarrow> (nat \<times> nat) option" where
  "field_pos [] f = None"
| "field_pos ((n, w) # fs) f =
     (if n = f then Some (0, w) else map_option (\<lambda>(p, w'). (p + w, w')) (field_pos fs f))"

definition unpack :: "dword_layout \<Rightarrow> string \<Rightarrow> u32 \<Rightarrow> u32" where
  "unpack fs f x = (case field_pos fs f of Some (p, w) \<Rightarrow> take_bit w (drop_bit p x) | None \<Rightarrow> 0)"

text \<open>A packet under construction: the value stored in each field of each word, initially 0.\<close>

type_synonym packet = "nat \<Rightarrow> string \<Rightarrow> u32"

definition zero_packet :: packet where
  "zero_packet = (\<lambda>_ _. 0)"

definition set_field :: "nat \<Rightarrow> string \<Rightarrow> u32 \<Rightarrow> packet \<Rightarrow> packet" where
  "set_field d f x p = p(d := (p d)(f := x))"

definition mk_packet :: "(nat \<times> string \<times> u32) list \<Rightarrow> packet" where
  "mk_packet fs = fold (\<lambda>(d, f, x). set_field d f x) fs zero_packet"

definition encode :: "packet_layout \<Rightarrow> packet \<Rightarrow> u32 list" where
  "encode lay p = map (\<lambda>(i, fs). pack fs (p i)) (enumerate 0 lay)"

definition get_field :: "packet_layout \<Rightarrow> u32 list \<Rightarrow> nat \<Rightarrow> string \<Rightarrow> u32" where
  "get_field lay dws d f = unpack (lay ! d) f (dws ! d)"

text \<open>The two halves of an address or of another 64-bit value.\<close>

definition lo32 :: "u64 \<Rightarrow> u32" where
  "lo32 a = ucast a"

definition hi32 :: "u64 \<Rightarrow> u32" where
  "hi32 a = ucast (drop_bit 32 a)"

definition join32 :: "u32 \<Rightarrow> u32 \<Rightarrow> u64" where
  "join32 lo hi = ucast lo OR push_bit 32 (ucast hi)"

text \<open>The condition the \<^verbatim>\<open>static_assert\<close>s on the size express, and that no name is used twice in a word.\<close>

definition layout_ok :: "packet_layout \<Rightarrow> bool" where
  "layout_ok lay \<longleftrightarrow> list_all (\<lambda>fs. sum_list (map snd fs) = 32 \<and> distinct (map fst fs)) lay"

subsection \<open>Packets of SDMA 4.4.x\<close>

definition SDMA_PKT_COPY_LINEAR :: packet_layout where
  "SDMA_PKT_COPY_LINEAR =
    [[(''op'', 8), (''sub_op'', 8), (''reserved_0'', 11), (''broadcast'', 1), (''reserved_1'', 4)],
     [(''count'', 30), (''reserved_0'', 2)],
     [(''reserved_0'', 16), (''dst_sw'', 2), (''reserved_1'', 4), (''dst_ha'', 1),
        (''reserved_2'', 1), (''src_sw'', 2), (''reserved_3'', 4), (''src_ha'', 1),
        (''reserved_4'', 1)],
     [(''src_addr_31_0'', 32)],
     [(''src_addr_63_32'', 32)],
     [(''dst_addr_31_0'', 32)],
     [(''dst_addr_63_32'', 32)]]"

definition SDMA_PKT_WRITE_UNTILED :: packet_layout where
  "SDMA_PKT_WRITE_UNTILED =
    [[(''op'', 8), (''sub_op'', 8), (''reserved_0'', 16)],
     [(''dst_addr_31_0'', 32)],
     [(''dst_addr_63_32'', 32)],
     [(''count'', 22), (''reserved_0'', 2), (''sw'', 2), (''reserved_1'', 6)],
     [(''data0'', 32)]]"

definition SDMA_PKT_FENCE :: packet_layout where
  "SDMA_PKT_FENCE =
    [[(''op'', 8), (''sub_op'', 8), (''reserved_0'', 16)],
     [(''addr_31_0'', 32)],
     [(''addr_63_32'', 32)],
     [(''data'', 32)]]"

definition SDMA_PKT_CONSTANT_FILL :: packet_layout where
  "SDMA_PKT_CONSTANT_FILL =
    [[(''op'', 8), (''sub_op'', 8), (''sw'', 2), (''reserved_0'', 12), (''fillsize'', 2)],
     [(''dst_addr_31_0'', 32)],
     [(''dst_addr_63_32'', 32)],
     [(''src_data_31_0'', 32)],
     [(''count'', 22), (''reserved_0'', 10)]]"

definition SDMA_PKT_TRAP :: packet_layout where
  "SDMA_PKT_TRAP =
    [[(''op'', 8), (''sub_op'', 8), (''reserved_0'', 16)],
     [(''int_context'', 28), (''reserved_0'', 4)]]"

definition SDMA_PKT_POLL_REGMEM :: packet_layout where
  "SDMA_PKT_POLL_REGMEM =
    [[(''op'', 8), (''sub_op'', 8), (''reserved_0'', 10), (''hdp_flush'', 1),
        (''reserved_1'', 1), (''func'', 3), (''mem_poll'', 1)],
     [(''addr_31_0'', 32)],
     [(''addr_63_32'', 32)],
     [(''value'', 32)],
     [(''mask'', 32)],
     [(''interval'', 16), (''retry_count'', 12), (''reserved_0'', 4)]]"

definition SDMA_PKT_TIMESTAMP :: packet_layout where
  "SDMA_PKT_TIMESTAMP =
    [[(''op'', 8), (''sub_op'', 8), (''reserved_0'', 16)],
     [(''addr_31_0'', 32)],
     [(''addr_63_32'', 32)]]"

definition SDMA_PKT_NOP :: packet_layout where
  "SDMA_PKT_NOP =
    [[(''op'', 8), (''sub_op'', 8), (''count'', 14), (''reserved_0'', 2)],
     [(''data0'', 32)]]"

definition SDMA_PKT_ATOMIC :: packet_layout where
  "SDMA_PKT_ATOMIC =
    [[(''op'', 8), (''sub_op'', 8), (''l'', 1), (''reserved_0'', 8), (''operation'', 7)],
     [(''addr_31_0'', 32)],
     [(''addr_63_32'', 32)],
     [(''src_data_31_0'', 32)],
     [(''src_data_63_32'', 32)],
     [(''cmp_data_31_0'', 32)],
     [(''cmp_data_63_32'', 32)],
     [(''loop_interval'', 13), (''reserved_0'', 19)]]"

definition SDMA_PKT_LINEAR_LARGE_SUB_WINDOW_COPY :: packet_layout where
  "SDMA_PKT_LINEAR_LARGE_SUB_WINDOW_COPY =
    [[(''op'', 8), (''sub_op'', 8), (''l'', 1), (''reserved_0'', 8), (''operation'', 7)],
     [(''src_base_addr_31_0'', 32)],
     [(''src_base_addr_63_32'', 32)],
     [(''src_x'', 32)],
     [(''src_y'', 32)],
     [(''src_z'', 32)],
     [(''src_pitch'', 32)],
     [(''src_slice_pitch_31_0'', 32)],
     [(''src_slice_pitch_47_32'', 16), (''reserved_0'', 16)],
     [(''dst_data_31_0'', 32)],
     [(''src_data_63_32'', 32)],
     [(''dst_x'', 32)],
     [(''dst_y'', 32)],
     [(''dst_z'', 32)],
     [(''dst_pitch'', 32)],
     [(''dst_slice_pitch_31_0'', 32)],
     [(''dst_slice_pitch_47_32'', 16), (''reserved_0'', 16)],
     [(''rect_x'', 32)],
     [(''rect_y'', 32)],
     [(''rect_z'', 32)]]"

subsection \<open>Packets of OSS 7.0\<close>

definition SDMA_PKT_COPY_LINEAR_PHY_MI4 :: packet_layout where
  "SDMA_PKT_COPY_LINEAR_PHY_MI4 =
    [[(''op_code'', 8), (''sub_op_code'', 8), (''reserved_0'', 2), (''tmz'', 1),
        (''reserved_1'', 9), (''nsd'', 1), (''reserved_2'', 3)],
     [(''count'', 22), (''reserved_0'', 2), (''addr_pair'', 8)],
     [(''reserved_0'', 4), (''dst_mtype'', 2), (''dst_scope'', 2), (''dst_temporal_hint'', 3),
        (''reserved_1'', 1), (''src_mtype'', 2), (''src_scope'', 2), (''src_temporal_hint'', 3),
        (''gcc'', 1), (''dst_sys'', 1), (''reserved_2'', 1), (''dst_snp'', 1), (''dst_gpa'', 1),
        (''reserved_3'', 4), (''src_sys'', 1), (''reserved_4'', 1), (''src_snp'', 1),
        (''src_gpa'', 1)],
     [(''data_format'', 6), (''reserved_0'', 3), (''num_type'', 3), (''reserved_1'', 4),
        (''rd_cm'', 2), (''wr_cm'', 2), (''reserved_2'', 4), (''max_com'', 2), (''max_ucom'', 1),
        (''reserved_3'', 4), (''dcc'', 1)],
     [(''src_address_lo'', 32)],
     [(''src_address_hi'', 32)],
     [(''dst_address_lo'', 32)],
     [(''dst_address_hi'', 32)]]"

definition SDMA_PKT_COPY_LINEAR_WAIT_SIGNAL_MI4 :: packet_layout where
  "SDMA_PKT_COPY_LINEAR_WAIT_SIGNAL_MI4 =
    [[(''op'', 8), (''subop'', 8), (''reserved_0'', 2), (''tmz'', 1), (''reserved_1'', 9),
        (''npd'', 1), (''reserved_2'', 1), (''wait'', 1), (''signal'', 1)],
     [(''wait_function'', 3), (''reserved_0'', 15), (''wait_scope'', 2),
        (''wait_temporal_hint'', 3), (''reserved_1'', 9)],
     [(''reserved_0'', 3), (''wait_addr_31_3'', 29)],
     [(''wait_addr_63_32'', 32)],
     [(''wait_reference_31_0'', 32)],
     [(''wait_reference_63_32'', 32)],
     [(''wait_mask_31_0'', 32)],
     [(''wait_mask_63_32'', 32)],
     [(''copy_count'', 30), (''reserved_0'', 2)],
     [(''reserved_0'', 18), (''dst_scope'', 2), (''dst_temporal_hint'', 3), (''reserved_1'', 3),
        (''src_scope'', 2), (''src_temporal_hint'', 3), (''reserved_2'', 1)],
     [(''src_addr_31_0'', 32)],
     [(''src_addr_63_32'', 32)],
     [(''dst_addr_31_0'', 32)],
     [(''dst_addr_63_32'', 32)],
     [(''signal_operation'', 7), (''reserved_0'', 11), (''signal_scope'', 2),
        (''signal_temporal_hint'', 3), (''reserved_1'', 9)],
     [(''reserved_0'', 3), (''signal_addr_31_3'', 29)],
     [(''signal_addr_63_32'', 32)],
     [(''signal_data_31_0'', 32)],
     [(''signal_data_63_32'', 32)]]"

definition SDMA_PKT_WRITE_LINEAR_MI4 :: packet_layout where
  "SDMA_PKT_WRITE_LINEAR_MI4 =
    [[(''op_code'', 8), (''sub_op_code'', 8), (''reserved_0'', 2), (''tmz'', 1),
        (''reserved_1'', 13)],
     [(''dst_address_lo'', 32)],
     [(''dst_address_hi'', 32)],
     [(''count'', 20), (''dst_sys'', 1), (''reserved_0'', 1), (''dst_snp'', 1),
        (''dst_gpa'', 1), (''dst_mtype'', 2), (''dst_scope'', 2), (''dst_temporal_hint'', 3),
        (''reserved_1'', 1)],
     [(''data0'', 32)]]"

definition SDMA_PKT_FENCE_MI4 :: packet_layout where
  "SDMA_PKT_FENCE_MI4 =
    [[(''op_code'', 8), (''sub_op_code'', 8), (''mtype'', 2), (''reserved_0'', 2), (''s'', 1),
        (''reserved_1'', 1), (''snp'', 1), (''gpa'', 1), (''scope'', 2), (''temporal_hint'', 3),
        (''reserved_2'', 3)],
     [(''fence_addr_lo'', 32)],
     [(''fence_addr_hi'', 32)],
     [(''data'', 32)]]"

definition SDMA_PKT_FENCE_64B_MI4 :: packet_layout where
  "SDMA_PKT_FENCE_64B_MI4 =
    [[(''op'', 8), (''subop'', 8), (''mtype'', 2), (''reserved_0'', 2), (''sys'', 1),
        (''reserved_1'', 1), (''snp'', 1), (''gpa'', 1), (''scope'', 2), (''temporal_hint'', 3),
        (''reserved_2'', 3)],
     [(''reserved_0'', 3), (''addr_31_3'', 29)],
     [(''addr_63_32'', 32)],
     [(''data_31_0'', 32)],
     [(''data_63_32'', 32)]]"

definition SDMA_PKT_CONSTANT_FILL_MI4 :: packet_layout where
  "SDMA_PKT_CONSTANT_FILL_MI4 =
    [[(''op_code'', 8), (''sub_op_code'', 8), (''mtype'', 2), (''reserved_0'', 2), (''sys'', 1),
        (''reserved_1'', 1), (''snp'', 1), (''gpa'', 1), (''scope'', 2), (''temporal_hint'', 3),
        (''npd'', 1), (''size'', 2)],
     [(''addr_lo'', 32)],
     [(''addr_hi'', 32)],
     [(''source_data'', 32)],
     [(''count'', 30), (''reserved_0'', 2)]]"

definition SDMA_PKT_POLL_MEM_64B_MI4 :: packet_layout where
  "SDMA_PKT_POLL_MEM_64B_MI4 =
    [[(''op'', 8), (''subop'', 8), (''mtype'', 2), (''reserved_0'', 2), (''sys'', 1),
        (''reserved_1'', 1), (''snp'', 1), (''gpa'', 1), (''cache_policy'', 3),
        (''reserved_2'', 1), (''func'', 3), (''reserved_3'', 1)],
     [(''reserved_0'', 3), (''addr_31_3'', 29)],
     [(''addr_63_32'', 32)],
     [(''reference_31_0'', 32)],
     [(''reference_63_32'', 32)],
     [(''mask_31_0'', 32)],
     [(''mask_63_32'', 32)],
     [(''reserved_0'', 16), (''retry_count'', 8), (''reserved_1'', 4), (''scope'', 2),
        (''reserved_2'', 2)]]"

definition sdma_layouts :: "(packet_layout \<times> nat) list" where
  "sdma_layouts =
    [(SDMA_PKT_COPY_LINEAR, 7),
     (SDMA_PKT_WRITE_UNTILED, 5),
     (SDMA_PKT_FENCE, 4),
     (SDMA_PKT_CONSTANT_FILL, 5),
     (SDMA_PKT_TRAP, 2),
     (SDMA_PKT_POLL_REGMEM, 6),
     (SDMA_PKT_TIMESTAMP, 3),
     (SDMA_PKT_NOP, 2),
     (SDMA_PKT_ATOMIC, 8),
     (SDMA_PKT_LINEAR_LARGE_SUB_WINDOW_COPY, 20),
     (SDMA_PKT_COPY_LINEAR_PHY_MI4, 8),
     (SDMA_PKT_COPY_LINEAR_WAIT_SIGNAL_MI4, 19),
     (SDMA_PKT_WRITE_LINEAR_MI4, 5),
     (SDMA_PKT_FENCE_MI4, 4),
     (SDMA_PKT_FENCE_64B_MI4, 5),
     (SDMA_PKT_CONSTANT_FILL_MI4, 5),
     (SDMA_PKT_POLL_MEM_64B_MI4, 8)]"

subsection \<open>Facts about bit-fields\<close>

lemma join_split: "join32 (lo32 a) (hi32 a) = a"
  unfolding join32_def lo32_def hi32_def by (rule bit_word_eqI) (auto simp: bit_simps)

lemma drop_bit_field:
  "drop_bit (p + w) (take_bit w (x :: u32) OR push_bit w y) = take_bit (32 - w - p) (drop_bit p y)"
  by (rule bit_word_eqI) (auto simp: bit_simps add.commute add.left_commute)

lemma field_pos_bound:
  "field_pos fs f = Some (p, w) \<Longrightarrow> p + w \<le> sum_list (map snd fs)"
  by (induction fs arbitrary: p) (auto split: if_splits prod.splits)

lemma unpack_pack:
  assumes "sum_list (map snd fs) \<le> 32" and "field_pos fs f = Some (p, w)"
  shows "take_bit w (drop_bit p (pack fs v)) = take_bit w (v f)"
  using assms
proof (induction fs arbitrary: p)
  case Nil
  then show ?case by simp
next
  case (Cons a fs)
  obtain n k where a: "a = (n, k)" by (cases a)
  show ?case
  proof (cases "n = f")
    case True
    with Cons.prems a show ?thesis by (simp add: take_bit_push_bit)
  next
    case False
    with Cons.prems a obtain p' where p': "field_pos fs f = Some (p', w)" "p = p' + k" by auto
    have "w \<le> 32 - k - p'" using field_pos_bound [OF p'(1)] Cons.prems(1) a by simp
    then have "take_bit w (take_bit (32 - k - p') (drop_bit p' (pack fs v))) = take_bit w (drop_bit p' (pack fs v))"
      by (simp add: min_def)
    moreover have "drop_bit p (pack (a # fs) v) = take_bit (32 - k - p') (drop_bit p' (pack fs v))"
      unfolding a p'(2) pack.simps by (rule drop_bit_field)
    moreover have "take_bit w (drop_bit p' (pack fs v)) = take_bit w (v f)"
      using Cons.IH [OF _ p'(1)] Cons.prems(1) a by simp
    ultimately show ?thesis by simp
  qed
qed

lemma length_encode [simp]: "length (encode lay p) = length lay"
  by (simp add: encode_def)

lemma nth_encode: "d < length lay \<Longrightarrow> encode lay p ! d = pack (lay ! d) (p d)"
  by (simp add: encode_def nth_enumerate_eq)

lemma get_field_encode:
  assumes "layout_ok lay" and "d < length lay" and "field_pos (lay ! d) f = Some (q, w)"
  shows "get_field lay (encode lay p) d f = take_bit w (p d f)"
proof -
  have "sum_list (map snd (lay ! d)) \<le> 32"
    using assms(1,2) by (auto simp: layout_ok_def list_all_length)
  from unpack_pack [OF this assms(3)] assms(2,3) show ?thesis
    by (simp add: get_field_def unpack_def nth_encode)
qed

subsection \<open>Properties\<close>



end
