(* ===== verification/Sdma_Macros.thy ===== *)
theory Sdma_Macros
  imports Sdma_Layout
begin

text \<open>
  The field macros of \<^verbatim>\<open>src/src/endpoints/sdma-ep/sdma-packet.h\<close>, which are generated from the hardware
  specification: for each field the index of its word, its mask before shifting and its shift. The
  structs of \<^verbatim>\<open>sdma_pkt_struct_mi4.h\<close> are written after them; here the two are compared field by field.
\<close>

type_synonym macro_table = "(string \<times> nat \<times> int \<times> nat) list"

definition MAS_COPY_LINEAR_PHY_MI4 :: macro_table where
  "MAS_COPY_LINEAR_PHY_MI4 =
    [(''HEADER_op_code'', 0, 0xFF, 0),
     (''HEADER_sub_op_code'', 0, 0xFF, 8),
     (''HEADER_tmz'', 0, 0x1, 18),
     (''HEADER_nsd'', 0, 0x1, 28),
     (''DW_1_count'', 1, 0x3FFFFF, 0),
     (''DW_1_addr_pair'', 1, 0xFF, 24),
     (''DW_2_dst_mtype'', 2, 0x3, 4),
     (''DW_2_dst_scope'', 2, 0x3, 6),
     (''DW_2_dst_temporal_hint'', 2, 0x7, 8),
     (''DW_2_src_mtype'', 2, 0x3, 12),
     (''DW_2_src_scope'', 2, 0x3, 14),
     (''DW_2_src_temporal_hint'', 2, 0x7, 16),
     (''DW_2_dst_gcc'', 2, 0x1, 19),
     (''DW_2_dst_sys'', 2, 0x1, 20),
     (''DW_2_dst_snp'', 2, 0x1, 22),
     (''DW_2_dst_gpa'', 2, 0x1, 23),
     (''DW_2_src_gcc'', 2, 0x1, 19),
     (''DW_2_src_sys'', 2, 0x1, 28),
     (''DW_2_src_snp'', 2, 0x1, 30),
     (''DW_2_src_gpa'', 2, 0x1, 31),
     (''DW_3_data_format'', 3, 0x3F, 0),
     (''DW_3_num_type'', 3, 0x7, 9),
     (''DW_3_rd_cm'', 3, 0x3, 16),
     (''DW_3_wr_cm'', 3, 0x3, 18),
     (''DW_3_max_com'', 3, 0x3, 24),
     (''DW_3_max_ucom'', 3, 0x1, 26),
     (''DW_3_dcc'', 3, 0x1, 31),
     (''SRC_ADDRESS_LO_src_address_lo'', 4, 0xFFFFFFFF, 0),
     (''SRC_ADDRESS_HI_src_address_hi'', 5, 0xFFFFFFFF, 0),
     (''DST_ADDRESS_LO_dst_address_lo'', 6, 0xFFFFFFFF, 0),
     (''DST_ADDRESS_HI_dst_address_hi'', 7, 0xFFFFFFFF, 0)]"

definition MAS_COPY_PAGE_TRANSFER_MI4 :: macro_table where
  "MAS_COPY_PAGE_TRANSFER_MI4 =
    [(''HEADER_op_code'', 0, 0xFF, 0),
     (''HEADER_sub_op_code'', 0, 0xFF, 8),
     (''HEADER_p_mtype'', 0, 0x3, 16),
     (''HEADER_tmz'', 0, 0x1, 18),
     (''HEADER_l_scope'', 0, 0x3, 19),
     (''HEADER_s_scope'', 0, 0x3, 21),
     (''HEADER_page_size'', 0, 0xF, 24),
     (''HEADER_p_scope'', 0, 0x3, 29),
     (''HEADER_d'', 0, 0x1, 31),
     (''DW_1_p_temporal_hint'', 1, 0x7, 0),
     (''DW_1_p_sys'', 1, 0x1, 4),
     (''DW_1_p_snp'', 1, 0x1, 6),
     (''DW_1_l_temporal_hint'', 1, 0x7, 8),
     (''DW_1_l_mtype'', 1, 0x3, 11),
     (''DW_1_l_snp'', 1, 0x1, 14),
     (''DW_1_s_temporal_hint'', 1, 0x7, 16),
     (''DW_1_s_mtype'', 1, 0x3, 19),
     (''DW_1_s_snp'', 1, 0x1, 22),
     (''DW_1_sysmem_addr_array_num'', 1, 0xFF, 24),
     (''DW_2_data_format'', 2, 0x3F, 0),
     (''DW_2_num_type'', 2, 0x7, 9),
     (''DW_2_rd_cm'', 2, 0x3, 16),
     (''DW_2_wr_cm'', 2, 0x3, 18),
     (''DW_2_max_com'', 2, 0x3, 24),
     (''DW_2_max_ucom'', 2, 0x1, 26),
     (''DW_2_dcc'', 2, 0x1, 31),
     (''PTE_MASK_LO_pte_mask_lo'', 3, 0xFFFFFFFF, 0),
     (''PTE_MASK_HI_pte_mask_hi'', 4, 0xFFFFFFFF, 0),
     (''PTE_ADDR_LO_pte_addr_lo'', 5, 0xFFFFFFFF, 0),
     (''PTE_ADDR_HI_pte_addr_hi'', 6, 0xFFFFFFFF, 0),
     (''LOCALMEM_ADDR_LO_localmem_addr_lo'', 7, 0xFFFFFFFF, 0),
     (''LOCALMEM_ADDR_HI_localmem_addr_hi'', 8, 0xFFFFFFFF, 0),
     (''SYSMEM_ADDR_0_LO_sysmem_addr_0_lo'', 9, 0xFFFFFFFF, 0),
     (''SYSMEM_ADDR_0_HI_sysmem_addr_0_hi'', 10, 0xFFFFFFFF, 0),
     (''DW_11_sysmem_addr_1_lo'', 11, 0xFFFFFFFF, 0),
     (''SYSMEM_ADDR_1_HI_sysmem_addr_1_hi'', 12, 0xFFFFFFFF, 0),
     (''DW_11_sysmem_addr_n'', 11, 0xFFFFFFFFFFFFFFFF, 0)]"

definition MAS_COPY_LINEAR_MULTICAST_MI4 :: macro_table where
  "MAS_COPY_LINEAR_MULTICAST_MI4 =
    [(''HEADER_op'', 0, 0xFF, 0),
     (''HEADER_subop'', 0, 0xFF, 8),
     (''HEADER_tmz'', 0, 0x1, 18),
     (''HEADER_npd'', 0, 0x1, 28),
     (''COUNT_count'', 1, 0x3FFFFFFF, 0),
     (''DW_2_num_of_destination'', 2, 0x3FF, 0),
     (''DW_2_dst_scope'', 2, 0x3, 18),
     (''DW_2_dst_temporal_hint'', 2, 0x7, 20),
     (''DW_2_src_scope'', 2, 0x3, 26),
     (''DW_2_src_temporal_hint'', 2, 0x7, 28),
     (''SRC_ADDR_31_0_src_addr_31_0'', 3, 0xFFFFFFFF, 0),
     (''SRC_ADDR_63_32_src_addr_63_32'', 4, 0xFFFFFFFF, 0),
     (''DST_ADDR_31_0_dst_addr_31_0'', 5, 0xFFFFFFFF, 0),
     (''DST_ADDR_63_32_dst_addr_63_32'', 6, 0xFFFFFFFF, 0)]"

definition MAS_COPY_LINEAR_WAIT_SIGNAL_MI4 :: macro_table where
  "MAS_COPY_LINEAR_WAIT_SIGNAL_MI4 =
    [(''HEADER_op'', 0, 0xFF, 0),
     (''HEADER_subop'', 0, 0xFF, 8),
     (''HEADER_tmz'', 0, 0x1, 18),
     (''HEADER_npd'', 0, 0x1, 28),
     (''HEADER_wait'', 0, 0x1, 30),
     (''HEADER_signal'', 0, 0x1, 31),
     (''DW_1_wait_function'', 1, 0x7, 0),
     (''DW_1_wait_scope'', 1, 0x3, 18),
     (''DW_1_wait_temporal_hint'', 1, 0x7, 20),
     (''WAIT_ADDR_31_3_wait_addr_31_3'', 2, 0x1FFFFFFF, 3),
     (''WAIT_ADDR_63_32_wait_addr_63_32'', 3, 0xFFFFFFFF, 0),
     (''WAIT_REFERENCE_31_0_wait_reference_31_0'', 4, 0xFFFFFFFF, 0),
     (''WAIT_REFERENCE_63_32_wait_reference_63_32'', 5, 0xFFFFFFFF, 0),
     (''WAIT_MASK_31_0_wait_mask_31_0'', 6, 0xFFFFFFFF, 0),
     (''WAIT_MASK_63_32_wait_mask_63_32'', 7, 0xFFFFFFFF, 0),
     (''COPY_COUNT_copy_count'', 8, 0x3FFFFFFF, 0),
     (''DW_9_dst_scope'', 9, 0x3, 18),
     (''DW_9_dst_temporal_hint'', 9, 0x7, 20),
     (''DW_9_src_scope'', 9, 0x3, 26),
     (''DW_9_src_temporal_hint'', 9, 0x7, 28),
     (''SRC_ADDR_31_0_src_addr_31_0'', 10, 0xFFFFFFFF, 0),
     (''SRC_ADDR_63_32_src_addr_63_32'', 11, 0xFFFFFFFF, 0),
     (''DST_ADDR_31_0_dst_addr_31_0'', 12, 0xFFFFFFFF, 0),
     (''DST_ADDR_63_32_dst_addr_63_32'', 13, 0xFFFFFFFF, 0),
     (''DW_14_signal_operation'', 14, 0x7F, 0),
     (''DW_14_signal_scope'', 14, 0x3, 18),
     (''DW_14_signal_temporal_hint'', 14, 0x7, 20),
     (''SIGNAL_ADDR_31_3_signal_addr_31_3'', 15, 0x1FFFFFFF, 3),
     (''SIGNAL_ADDR_63_32_signal_addr_63_32'', 16, 0xFFFFFFFF, 0),
     (''SIGNAL_DATA_31_0_signal_data_31_0'', 17, 0xFFFFFFFF, 0),
     (''SIGNAL_DATA_63_32_signal_data_63_32'', 18, 0xFFFFFFFF, 0)]"

definition MAS_COPY_MULTICAST_WAIT_SIGNAL_MI4 :: macro_table where
  "MAS_COPY_MULTICAST_WAIT_SIGNAL_MI4 =
    [(''HEADER_op'', 0, 0xFF, 0),
     (''HEADER_subop'', 0, 0xFF, 8),
     (''HEADER_tmz'', 0, 0x1, 18),
     (''HEADER_npd'', 0, 0x1, 28),
     (''HEADER_wait'', 0, 0x1, 30),
     (''HEADER_signal'', 0, 0x1, 31),
     (''DW_1_wait_function'', 1, 0x7, 0),
     (''DW_1_wait_scope'', 1, 0x3, 18),
     (''DW_1_wait_temporal_hint'', 1, 0x7, 20),
     (''WAIT_ADDR_31_3_wait_addr_31_3'', 2, 0x1FFFFFFF, 3),
     (''WAIT_ADDR_63_32_wait_addr_63_32'', 3, 0xFFFFFFFF, 0),
     (''WAIT_REFERENCE_31_0_wait_reference_31_0'', 4, 0xFFFFFFFF, 0),
     (''WAIT_REFERENCE_63_32_wait_reference_63_32'', 5, 0xFFFFFFFF, 0),
     (''WAIT_MASK_31_0_wait_mask_31_0'', 6, 0xFFFFFFFF, 0),
     (''WAIT_MASK_63_32_wait_mask_63_32'', 7, 0xFFFFFFFF, 0),
     (''COUNT_count'', 8, 0x3FFFFFFF, 0),
     (''DW_9_num_of_destination'', 9, 0x3FF, 0),
     (''DW_9_dst_scope'', 9, 0x3, 18),
     (''DW_9_dst_temporal_hint'', 9, 0x7, 20),
     (''DW_9_src_scope'', 9, 0x3, 26),
     (''DW_9_src_temporal_hint'', 9, 0x7, 28),
     (''SRC_ADDR_31_0_src_addr_31_0'', 10, 0xFFFFFFFF, 0),
     (''SRC_ADDR_63_32_src_addr_63_32'', 11, 0xFFFFFFFF, 0),
     (''DST_ADDR_31_0_dst_addr_31_0'', 12, 0xFFFFFFFF, 0),
     (''DST_ADDR_63_32_dst_addr_63_32'', 13, 0xFFFFFFFF, 0),
     (''DW_14_signal_operation'', 14, 0x7F, 0),
     (''DW_14_signal_scope'', 14, 0x3, 18),
     (''DW_14_signal_temporal_hint'', 14, 0x7, 20),
     (''SIGNAL_ADDR_31_3_signal_addr_31_3'', 15, 0x1FFFFFFF, 3),
     (''SIGNAL_ADDR_63_32_signal_addr_63_32'', 16, 0xFFFFFFFF, 0),
     (''SIGNAL_DATA_31_0_signal_data_31_0'', 17, 0xFFFFFFFF, 0),
     (''SIGNAL_DATA_63_32_signal_data_63_32'', 18, 0xFFFFFFFF, 0)]"

definition MAS_COPY_SWAP_WAIT_SIGNAL_MI4 :: macro_table where
  "MAS_COPY_SWAP_WAIT_SIGNAL_MI4 =
    [(''HEADER_op'', 0, 0xFF, 0),
     (''HEADER_subop'', 0, 0xFF, 8),
     (''HEADER_tmz'', 0, 0x1, 18),
     (''HEADER_wait'', 0, 0x1, 30),
     (''HEADER_signal'', 0, 0x1, 31),
     (''DW_1_wait_function'', 1, 0x7, 0),
     (''DW_1_wait_scope'', 1, 0x3, 18),
     (''DW_1_wait_temporal_hint'', 1, 0x7, 20),
     (''WAIT_ADDR_31_3_wait_addr_31_3'', 2, 0x1FFFFFFF, 3),
     (''WAIT_ADDR_63_32_wait_addr_63_32'', 3, 0xFFFFFFFF, 0),
     (''WAIT_REFERENCE_31_0_wait_reference_31_0'', 4, 0xFFFFFFFF, 0),
     (''WAIT_REFERENCE_63_32_wait_reference_63_32'', 5, 0xFFFFFFFF, 0),
     (''WAIT_MASK_31_0_wait_mask_31_0'', 6, 0xFFFFFFFF, 0),
     (''WAIT_MASK_63_32_wait_mask_63_32'', 7, 0xFFFFFFFF, 0),
     (''COUNT_count'', 8, 0x3FFFFFFF, 0),
     (''DW_9_scope_b'', 9, 0x3, 18),
     (''DW_9_temporal_hint_b'', 9, 0x7, 20),
     (''DW_9_scope_a'', 9, 0x3, 26),
     (''DW_9_temporal_hint_a'', 9, 0x7, 28),
     (''ADDR_A_31_0_addr_a_31_0'', 10, 0xFFFFFFFF, 0),
     (''ADDR_A_63_32_addr_a_63_32'', 11, 0xFFFFFFFF, 0),
     (''ADDR_B_31_0_addr_b_31_0'', 12, 0xFFFFFFFF, 0),
     (''ADDR_B_63_32_addr_b_63_32'', 13, 0xFFFFFFFF, 0),
     (''DW_14_signal_operation'', 14, 0x7F, 0),
     (''DW_14_signal_scope'', 14, 0x3, 18),
     (''DW_14_signal_temporal_hint'', 14, 0x7, 20),
     (''SIGNAL_ADDR_31_3_signal_addr_31_3'', 15, 0x1FFFFFFF, 3),
     (''SIGNAL_ADDR_63_32_signal_addr_63_32'', 16, 0xFFFFFFFF, 0),
     (''SIGNAL_DATA_31_0_signal_data_31_0'', 17, 0xFFFFFFFF, 0),
     (''SIGNAL_DATA_63_32_signal_data_63_32'', 18, 0xFFFFFFFF, 0)]"

definition MAS_WRITE_LINEAR_MI4 :: macro_table where
  "MAS_WRITE_LINEAR_MI4 =
    [(''HEADER_op_code'', 0, 0xFF, 0),
     (''HEADER_sub_op_code'', 0, 0xFF, 8),
     (''HEADER_tmz'', 0, 0x1, 18),
     (''DST_ADDRESS_LO_dst_address_lo'', 1, 0xFFFFFFFF, 0),
     (''DST_ADDRESS_HI_dst_address_hi'', 2, 0xFFFFFFFF, 0),
     (''DW_3_count'', 3, 0xFFFFF, 0),
     (''DW_3_dst_sys'', 3, 0x1, 20),
     (''DW_3_dst_snp'', 3, 0x1, 22),
     (''DW_3_dst_gpa'', 3, 0x1, 23),
     (''DW_3_dst_mtype'', 3, 0x3, 24),
     (''DW_3_dst_scope'', 3, 0x3, 26),
     (''DW_3_dst_temporal_hint'', 3, 0x7, 28),
     (''DW_3_data'', 3, 0xFFFFFFFF, 0)]"

definition MAS_FENCE_MI4 :: macro_table where
  "MAS_FENCE_MI4 =
    [(''HEADER_op_code'', 0, 0xFF, 0),
     (''HEADER_sub_op_code'', 0, 0xFF, 8),
     (''HEADER_mtype'', 0, 0x3, 16),
     (''HEADER_s'', 0, 0x1, 20),
     (''HEADER_snp'', 0, 0x1, 22),
     (''HEADER_gpa'', 0, 0x1, 23),
     (''HEADER_scope'', 0, 0x3, 24),
     (''HEADER_temporal_hint'', 0, 0x7, 26),
     (''FENCE_ADDR_LO_fence_addr_lo'', 1, 0xFFFFFFFF, 0),
     (''FENCE_ADDR_HI_fence_addr_hi'', 2, 0xFFFFFFFF, 0),
     (''DATA_data'', 3, 0xFFFFFFFF, 0)]"

definition MAS_FENCE_COND_INT_NAVI4 :: macro_table where
  "MAS_FENCE_COND_INT_NAVI4 =
    [(''HEADER_op_code'', 0, 0xFF, 0),
     (''HEADER_sub_op_code'', 0, 0xFF, 8),
     (''HEADER_snp'', 0, 0x1, 22),
     (''HEADER_gpa'', 0, 0x1, 23),
     (''HEADER_cache_policy'', 0, 0x7, 26),
     (''HEADER_qw'', 0, 0x1, 31),
     (''FENCE_ADDR_LO_fence_addr_lo'', 1, 0xFFFFFFFF, 0),
     (''FENCE_ADDR_HI_fence_addr_hi'', 2, 0xFFFFFFFF, 0),
     (''DATA_LO_data_lo'', 3, 0xFFFFFFFF, 0),
     (''DATA_HI_data_hi'', 4, 0xFFFFFFFF, 0),
     (''FENCE_REF_ADDR_LO_fence_ref_addr_lo'', 5, 0xFFFFFFFF, 0),
     (''FENCE_REF_ADDR_HI_fence_ref_addr_hi'', 6, 0xFFFFFFFF, 0),
     (''INTERRUPT_CONTEXT_interrupt_context'', 7, 0xFFFFFFFF, 0),
     (''FENCE_HANDLE_fence_handle'', 8, 0xFFFFFFFF, 0)]"

definition MAS_FENCE_COND_INT_MI4 :: macro_table where
  "MAS_FENCE_COND_INT_MI4 =
    [(''HEADER_op_code'', 0, 0xFF, 0),
     (''HEADER_sub_op_code'', 0, 0xFF, 8),
     (''HEADER_mtype'', 0, 0x3, 16),
     (''HEADER_snp'', 0, 0x1, 22),
     (''HEADER_gpa'', 0, 0x1, 23),
     (''HEADER_scope'', 0, 0x3, 24),
     (''HEADER_temporal_hint'', 0, 0x7, 26),
     (''HEADER_qw'', 0, 0x1, 31),
     (''FENCE_ADDR_LO_fence_addr_lo'', 1, 0xFFFFFFFF, 0),
     (''FENCE_ADDR_HI_fence_addr_hi'', 2, 0xFFFFFFFF, 0),
     (''DATA_LO_data_lo'', 3, 0xFFFFFFFF, 0),
     (''DATA_HI_data_hi'', 4, 0xFFFFFFFF, 0),
     (''FENCE_REF_ADDR_LO_fence_ref_addr_lo'', 5, 0xFFFFFFFF, 0),
     (''FENCE_REF_ADDR_HI_fence_ref_addr_hi'', 6, 0xFFFFFFFF, 0),
     (''INTERRUPT_CONTEXT_interrupt_context'', 7, 0xFFFFFFFF, 0),
     (''FENCE_ID_fence_id'', 8, 0xFFFFFFFF, 0)]"

definition MAS_FENCE_64B_MI4 :: macro_table where
  "MAS_FENCE_64B_MI4 =
    [(''HEADER_op'', 0, 0xFF, 0),
     (''HEADER_subop'', 0, 0xFF, 8),
     (''HEADER_mtype'', 0, 0x3, 16),
     (''HEADER_sys'', 0, 0x1, 20),
     (''HEADER_snp'', 0, 0x1, 22),
     (''HEADER_gpa'', 0, 0x1, 23),
     (''HEADER_scope'', 0, 0x3, 24),
     (''HEADER_temporal_hint'', 0, 0x7, 26),
     (''ADDR_31_3_addr_31_3'', 1, 0x1FFFFFFF, 3),
     (''ADDR_63_32_addr_63_32'', 2, 0xFFFFFFFF, 0),
     (''DATA_31_0_data_31_0'', 3, 0xFFFFFFFF, 0),
     (''DATA_63_32_data_63_32'', 4, 0xFFFFFFFF, 0)]"

definition MAS_POLL_MEM_64B_MI4 :: macro_table where
  "MAS_POLL_MEM_64B_MI4 =
    [(''HEADER_op'', 0, 0xFF, 0),
     (''HEADER_subop'', 0, 0xFF, 8),
     (''HEADER_mtype'', 0, 0x3, 16),
     (''HEADER_sys'', 0, 0x1, 20),
     (''HEADER_snp'', 0, 0x1, 22),
     (''HEADER_gpa'', 0, 0x1, 23),
     (''HEADER_cache_policy'', 0, 0x7, 24),
     (''HEADER_func'', 0, 0x7, 28),
     (''ADDR_31_3_addr_31_3'', 1, 0x1FFFFFFF, 3),
     (''ADDR_63_32_addr_63_32'', 2, 0xFFFFFFFF, 0),
     (''REFERENCE_31_0_reference_31_0'', 3, 0xFFFFFFFF, 0),
     (''REFERENCE_63_32_reference_63_32'', 4, 0xFFFFFFFF, 0),
     (''MASK_31_0_mask_31_0'', 5, 0xFFFFFFFF, 0),
     (''MASK_63_32_mask_63_32'', 6, 0xFFFFFFFF, 0),
     (''DW_7_retry_count'', 7, 0xFF, 16),
     (''DW_7_scope'', 7, 0x3, 28)]"

definition MAS_POLL_MEM_64B_MES_SYNC_NAVI4 :: macro_table where
  "MAS_POLL_MEM_64B_MES_SYNC_NAVI4 =
    [(''HEADER_op_code'', 0, 0xFF, 0),
     (''HEADER_sub_op_code'', 0, 0xFF, 8),
     (''HEADER_sys'', 0, 0x1, 20),
     (''HEADER_snp'', 0, 0x1, 22),
     (''HEADER_gpa'', 0, 0x1, 23),
     (''HEADER_cache_policy'', 0, 0x7, 24),
     (''HEADER_func'', 0, 0x7, 28),
     (''ADDR_31_3_addr_31_3'', 1, 0x3FFFFFFF, 2),
     (''ADDR_63_32_addr_63_32'', 2, 0xFFFFFFFF, 0),
     (''REFERENCE_31_0_reference_31_0'', 3, 0xFFFFFFFF, 0),
     (''REFERENCE_63_32_reference_63_32'', 4, 0xFFFFFFFF, 0),
     (''MASK_31_0_mask_31_0'', 5, 0xFFFFFFFF, 0),
     (''MASK_63_32_mask_63_32'', 6, 0xFFFFFFFF, 0),
     (''RETRY_COUNT_retry_count'', 7, 0xFF, 16),
     (''FENCE_HANDLE_fence_handle'', 8, 0xFFFFFFFF, 0)]"

definition MAS_EXCL_COND_EXEC :: macro_table where
  "MAS_EXCL_COND_EXEC =
    [(''HEADER_op_code'', 0, 0xFF, 0),
     (''HEADER_sub_op_code'', 0, 0xFF, 8),
     (''HEADER_p'', 0, 0x1, 30),
     (''HEADER_o'', 0, 0x1, 31),
     (''MUTEX_ADDR_LO_mutex_addr_lo'', 1, 0xFFFFFFFF, 0),
     (''MUTEX_ADDR_HI_mutex_addr_hi'', 2, 0xFFFFFFFF, 0),
     (''ADDR_LO_addr_lo'', 3, 0xFFFFFFFF, 0),
     (''ADDR_HI_addr_hi'', 4, 0xFFFFFFFF, 0),
     (''REF_LO_ref_lo'', 5, 0xFFFFFFFF, 0),
     (''REF_HI_ref_hi'', 6, 0xFFFFFFFF, 0),
     (''EXEC_COUNT_exec_count'', 7, 0x3FFF, 0)]"

definition MAS_PTEPDE_GEN_MI4 :: macro_table where
  "MAS_PTEPDE_GEN_MI4 =
    [(''HEADER_op_code'', 0, 0xFF, 0),
     (''HEADER_sub_op_code'', 0, 0xFF, 8),
     (''HEADER_mtype'', 0, 0x3, 16),
     (''HEADER_sys'', 0, 0x1, 20),
     (''HEADER_snp'', 0, 0x1, 22),
     (''HEADER_gpa'', 0, 0x1, 23),
     (''HEADER_scope'', 0, 0x3, 24),
     (''HEADER_temporal_hint'', 0, 0x7, 26),
     (''ADDR_LO_addr_lo'', 1, 0xFFFFFFFF, 0),
     (''ADDR_HI_addr_hi'', 2, 0xFFFFFFFF, 0),
     (''MASK_LO_mask_lo'', 3, 0xFFFFFFFF, 0),
     (''MASK_HI_mask_hi'', 4, 0xFFFFFFFF, 0),
     (''INIT_VALUE_LO_init_value_lo'', 5, 0xFFFFFFFF, 0),
     (''INIT_VALUE_HI_init_value_hi'', 6, 0xFFFFFFFF, 0),
     (''INCREMENT_LO_increment_lo'', 7, 0xFFFFFFFF, 0),
     (''INCREMENT_HI_increment_hi'', 8, 0xFFFFFFFF, 0),
     (''NUMPTE_numpte'', 9, 0x7FFFF, 0)]"

definition MAS_PTEPDE_RMW_MI4 :: macro_table where
  "MAS_PTEPDE_RMW_MI4 =
    [(''HEADER_op_code'', 0, 0xFF, 0),
     (''HEADER_sub_op_code'', 0, 0xFF, 8),
     (''HEADER_mtype'', 0, 0x3, 16),
     (''HEADER_sys'', 0, 0x1, 20),
     (''HEADER_snp'', 0, 0x1, 22),
     (''HEADER_gpa'', 0, 0x1, 23),
     (''HEADER_scope'', 0, 0x3, 24),
     (''HEADER_temporal_hint'', 0, 0x3, 26),
     (''ADDR_LO_addr_lo'', 1, 0xFFFFFFFF, 0),
     (''ADDR_HI_addr_hi'', 2, 0xFFFFFFFF, 0),
     (''MASK_LO_mask_lo'', 3, 0xFFFFFFFF, 0),
     (''MASK_HI_mask_hi'', 4, 0xFFFFFFFF, 0),
     (''VALUE_LO_value_lo'', 5, 0xFFFFFFFF, 0),
     (''VALUE_HI_value_hi'', 6, 0xFFFFFFFF, 0),
     (''NUMPTE_numpte'', 7, 0x7FFFF, 0)]"

definition MAS_CONSTANT_FILL_MI4 :: macro_table where
  "MAS_CONSTANT_FILL_MI4 =
    [(''HEADER_op_code'', 0, 0xFF, 0),
     (''HEADER_sub_op_code'', 0, 0xFF, 8),
     (''HEADER_mtype'', 0, 0x3, 16),
     (''HEADER_sys'', 0, 0x1, 20),
     (''HEADER_snp'', 0, 0x1, 22),
     (''HEADER_gpa'', 0, 0x1, 23),
     (''HEADER_scope'', 0, 0x3, 24),
     (''HEADER_temporal_hint'', 0, 0x7, 26),
     (''HEADER_npd'', 0, 0x1, 29),
     (''HEADER_size'', 0, 0x3, 30),
     (''ADDR_LO_addr_lo'', 1, 0xFFFFFFFF, 0),
     (''ADDR_HI_addr_hi'', 2, 0xFFFFFFFF, 0),
     (''SOURCE_DATA_source_data'', 3, 0xFFFFFFFF, 0),
     (''COUNT_count'', 4, 0x3FFFFFFF, 0)]"

definition MAS_CONSTANT_FILL_PAGE_MI4 :: macro_table where
  "MAS_CONSTANT_FILL_PAGE_MI4 =
    [(''HEADER_op_code'', 0, 0xFF, 0),
     (''HEADER_sub_op_code'', 0, 0xFF, 8),
     (''HEADER_mtype'', 0, 0x3, 16),
     (''HEADER_sys'', 0, 0x1, 20),
     (''HEADER_snp'', 0, 0x1, 22),
     (''HEADER_gpa'', 0, 0x1, 23),
     (''HEADER_scope'', 0, 0x3, 24),
     (''HEADER_temporal_hint'', 0, 0x7, 26),
     (''HEADER_size'', 0, 0x3, 30),
     (''SOURCE_DATA_source_data'', 1, 0x3, 30),
     (''DW_2_page_unit'', 2, 0xF, 0),
     (''DW_2_page_number'', 2, 0xFFFF, 16),
     (''DW_2_addr_i'', 2, 0xFFFFFFFF, 0)]"

definition MAS_AQL :: macro_table where
  "MAS_AQL =
    [(''HEADER_format'', 0, 0xFF, 0),
     (''HEADER_acquire_fence_scope'', 0, 0x3, 9),
     (''HEADER_release_fence_scope'', 0, 0x3, 11),
     (''HEADER_reserved'', 0, 0x7, 13)]"

definition macro_tables :: "(string \<times> macro_table) list" where
  "macro_tables =
    [(''COPY_LINEAR_PHY_MI4'', MAS_COPY_LINEAR_PHY_MI4),
     (''COPY_PAGE_TRANSFER_MI4'', MAS_COPY_PAGE_TRANSFER_MI4),
     (''COPY_LINEAR_MULTICAST_MI4'', MAS_COPY_LINEAR_MULTICAST_MI4),
     (''COPY_LINEAR_WAIT_SIGNAL_MI4'', MAS_COPY_LINEAR_WAIT_SIGNAL_MI4),
     (''COPY_MULTICAST_WAIT_SIGNAL_MI4'', MAS_COPY_MULTICAST_WAIT_SIGNAL_MI4),
     (''COPY_SWAP_WAIT_SIGNAL_MI4'', MAS_COPY_SWAP_WAIT_SIGNAL_MI4),
     (''WRITE_LINEAR_MI4'', MAS_WRITE_LINEAR_MI4),
     (''FENCE_MI4'', MAS_FENCE_MI4),
     (''FENCE_COND_INT_NAVI4'', MAS_FENCE_COND_INT_NAVI4),
     (''FENCE_COND_INT_MI4'', MAS_FENCE_COND_INT_MI4),
     (''FENCE_64B_MI4'', MAS_FENCE_64B_MI4),
     (''POLL_MEM_64B_MI4'', MAS_POLL_MEM_64B_MI4),
     (''POLL_MEM_64B_MES_SYNC_NAVI4'', MAS_POLL_MEM_64B_MES_SYNC_NAVI4),
     (''EXCL_COND_EXEC'', MAS_EXCL_COND_EXEC),
     (''PTEPDE_GEN_MI4'', MAS_PTEPDE_GEN_MI4),
     (''PTEPDE_RMW_MI4'', MAS_PTEPDE_RMW_MI4),
     (''CONSTANT_FILL_MI4'', MAS_CONSTANT_FILL_MI4),
     (''CONSTANT_FILL_PAGE_MI4'', MAS_CONSTANT_FILL_PAGE_MI4),
     (''AQL'', MAS_AQL)]"

text \<open>The extent of a field: its word, its first bit and its width.\<close>

primrec ones :: "nat \<Rightarrow> int \<Rightarrow> nat" where
  "ones 0 m = 0"
| "ones (Suc n) m = (if m = 0 then 0 else Suc (ones n (m div 2)))"

definition mask_width :: "int \<Rightarrow> nat" where
  "mask_width m = ones 32 m"

definition macro_extent :: "string \<times> nat \<times> int \<times> nat \<Rightarrow> nat \<times> nat \<times> nat" where
  "macro_extent = (\<lambda>(_, d, m, s). (d, s, mask_width m))"

fun dword_extents :: "nat \<Rightarrow> nat \<Rightarrow> dword_layout \<Rightarrow> (nat \<times> nat \<times> nat) list" where
  "dword_extents d p [] = []"
| "dword_extents d p ((n, w) # fs) =
     (if take 8 n = ''reserved'' then dword_extents d (p + w) fs else (d, p, w) # dword_extents d (p + w) fs)"

definition struct_extents :: "packet_layout \<Rightarrow> (nat \<times> nat \<times> nat) list" where
  "struct_extents lay = concat (map (\<lambda>(d, fs). dword_extents d 0 fs) (enumerate 0 lay))"

text \<open>The macros of a packet can be used together: every mask is a run of ones that stays inside
  its word after shifting, and no two fields share a bit.\<close>

definition extents_apart :: "nat \<times> nat \<times> nat \<Rightarrow> nat \<times> nat \<times> nat \<Rightarrow> bool" where
  "extents_apart = (\<lambda>(d, p, w) (d', p', w'). d \<noteq> d' \<or> p + w \<le> p' \<or> p' + w' \<le> p)"

fun all_apart :: "(nat \<times> nat \<times> nat) list \<Rightarrow> bool" where
  "all_apart [] \<longleftrightarrow> True"
| "all_apart (e # es) \<longleftrightarrow> list_all (extents_apart e) es \<and> all_apart es"

definition macros_ok :: "macro_table \<Rightarrow> bool" where
  "macros_ok t \<longleftrightarrow> list_all (\<lambda>(_, _, m, s). m = 2 ^ mask_width m - 1 \<and> s + mask_width m \<le> 32) t \<and>
     all_apart (map macro_extent t)"

subsection \<open>Properties\<close>


text \<open>The macros of four packets cannot be used together: they give two fields the same bits, or
  shift a mask out of its word. For the linear write the data word and the count word are the same
  word, where the struct has two.\<close>

theorem macro_conflicts:
  "map fst (filter (\<lambda>(_, t). \<not> macros_ok t) macro_tables) =
     [''COPY_LINEAR_PHY_MI4'', ''COPY_PAGE_TRANSFER_MI4'', ''WRITE_LINEAR_MI4'', ''CONSTANT_FILL_PAGE_MI4''] \<and>
   (4, 0, 32) \<in> set (struct_extents SDMA_PKT_WRITE_LINEAR_MI4) \<and>
   (''DW_3_data'', 3, 0xFFFFFFFF, 0) \<in> set MAS_WRITE_LINEAR_MI4 \<and>
   (''DW_3_count'', 3, 0xFFFFF, 0) \<in> set MAS_WRITE_LINEAR_MI4"
  by code_simp

end
