(* ===== verification/Sdma_Ring.thy ===== *)
theory Sdma_Ring
  imports Xio_Prelude
begin

text \<open>
  The command ring of an SDMA queue, which any number of producers fill concurrently while the engine
  drains it: the device handle \<^verbatim>\<open>SdmaQueueHandle\<close> (\<^verbatim>\<open>src/src/endpoints/sdma-ep/sdma_device.hpp\<close>) and the host
  handle \<^verbatim>\<open>SdmaQueueHostHandle\<close> (\<^verbatim>\<open>sdma-host-queue.hip\<close>). The two follow the same protocol (reserve with a
  compare-and-swap, place, wait for the turn, publish) and differ in how they get over the end of the
  ring: the device pads inside of the reservation, the host submits the padding on its own and tries
  again. The protocol is a step relation in which every atomic access to shared memory is one step, in
  any interleaving; the differences are a record of operations.

  The engine is hardware: it reads words below the last doorbell value, in order, and moves its read
  pointer no further than it has read. Accesses are taken as sequentially consistent; the wait-count
  and fence instructions between the stores of \<^verbatim>\<open>submitPacket\<close> are what provides for that.
\<close>

subsection \<open>Indices\<close>

definition SDMA_QUEUE_SIZE :: u64 where
  "SDMA_QUEUE_SIZE = 8 * 1024 * 1024"

text \<open>The number of 32-bit words of the ring.\<close>

definition ring_dwords :: nat where
  "ring_dwords = unat SDMA_QUEUE_SIZE div 4"

definition WrapIntoRing :: "u64 \<Rightarrow> u64" where
  "WrapIntoRing index = index mod SDMA_QUEUE_SIZE"

text \<open>The cache is the optional \<^verbatim>\<open>cachedHwReadIndex\<close> of the caller; the result has its new content.\<close>

definition CanWriteUpto :: "u64 \<Rightarrow> u64 option \<Rightarrow> u64 \<Rightarrow> bool \<times> u64 option" where
  "CanWriteUpto hwRead cache uptoIndex =
     (case cache of
        Some c \<Rightarrow> if uptoIndex - c < SDMA_QUEUE_SIZE then (True, cache)
                  else (uptoIndex - hwRead < SDMA_QUEUE_SIZE, Some hwRead)
      | None \<Rightarrow> (uptoIndex - hwRead < SDMA_QUEUE_SIZE, None))"

definition packets_bytes :: "u32 list list \<Rightarrow> nat" where
  "packets_bytes ps = 4 * length (concat ps)"

subsection \<open>Reservation and placement, device\<close>

definition ring_offset :: "u64 \<Rightarrow> u64 \<Rightarrow> u64" where
  "ring_offset cur_index bytes =
     (if WrapIntoRing cur_index + bytes > SDMA_QUEUE_SIZE then SDMA_QUEUE_SIZE - WrapIntoRing cur_index else 0)"

text \<open>The stores a call makes, as word indices and values, and the advanced write pointer.\<close>

definition placePacket :: "u32 list \<Rightarrow> u64 \<Rightarrow> u64 \<Rightarrow> (nat \<times> u32) list \<times> u64" where
  "placePacket pkt pendingWptr offset =
     (let numOffsetDwords = (ucast (offset div 4) :: u32);
          base_idx = unat (WrapIntoRing pendingWptr div 4);
          nops = map (\<lambda>i. (base_idx + i, if i = 0 then push_bit 16 ((numOffsetDwords - 1) AND 0xFFFF) else 0))
                   [0..<unat numOffsetDwords];
          pendingWptr = pendingWptr + offset;
          base_idx = unat (WrapIntoRing pendingWptr div 4)
      in (nops @ map (\<lambda>i. (base_idx + i, pkt ! i)) [0..<length pkt], pendingWptr + of_nat (4 * length pkt)))"

fun place_all :: "u32 list list \<Rightarrow> u64 \<Rightarrow> u64 \<Rightarrow> (nat \<times> u32) list \<times> u64" where
  "place_all [] pendingWptr offset = ([], pendingWptr)"
| "place_all (p # ps) pendingWptr offset =
     (let (ws, pend) = placePacket p pendingWptr offset; (ws', pend') = place_all ps pend 0 in (ws @ ws', pend'))"

text \<open>
  A plan for the packets of a request at the current index: the bytes to reserve, the stores to make,
  and whether the packets are among them.
\<close>

definition device_plan :: "u64 \<Rightarrow> u32 list list \<Rightarrow> u64 \<times> (nat \<times> u32) list \<times> bool" where
  "device_plan cur_index ps =
     (let bytes = of_nat (packets_bytes ps); offset = ring_offset cur_index bytes
      in (bytes + offset, fst (place_all ps cur_index offset), True))"

subsection \<open>Reservation and placement, host\<close>

definition kMaxSubmitBytes :: nat where
  "kMaxSubmitBytes = unat SDMA_QUEUE_SIZE - 4"

definition host_pad :: "u64 \<Rightarrow> (nat \<times> u32) list" where
  "host_pad cur_index =
     map (\<lambda>i. (unat (WrapIntoRing cur_index div 4) + i, 0))
       [0..<unat ((SDMA_QUEUE_SIZE - WrapIntoRing cur_index) div 4)]"

fun host_place :: "u32 list list \<Rightarrow> u64 \<Rightarrow> (nat \<times> u32) list" where
  "host_place [] index = []"
| "host_place (p # ps) index =
     map (\<lambda>i. (unat (WrapIntoRing index) div 4 + i, p ! i)) [0..<length p] @
     host_place ps (index + of_nat (4 * length p))"

definition host_plan :: "u64 \<Rightarrow> u32 list list \<Rightarrow> u64 \<times> (nat \<times> u32) list \<times> bool" where
  "host_plan cur_index ps =
     (let bytes = of_nat (packets_bytes ps)
      in if WrapIntoRing cur_index + bytes > SDMA_QUEUE_SIZE
         then (SDMA_QUEUE_SIZE - WrapIntoRing cur_index, host_pad cur_index, False)
         else (bytes, host_place ps cur_index, True))"

text \<open>
  What the callers hand over: a host batch that passes \<^verbatim>\<open>check_submit_size\<close>, and on the device at most the
  three packets of \<^verbatim>\<open>put_signal_counter_impl\<close>, each within the bound that \<^verbatim>\<open>placePacket\<close> asserts.
\<close>

definition host_accepts :: "u32 list list \<Rightarrow> bool" where
  "host_accepts ps \<longleftrightarrow> ps \<noteq> [] \<and> [] \<notin> set ps \<and> packets_bytes ps \<le> kMaxSubmitBytes"

definition device_accepts :: "u32 list list \<Rightarrow> bool" where
  "device_accepts ps \<longleftrightarrow> ps \<noteq> [] \<and> [] \<notin> set ps \<and> length ps \<le> 3 \<and> list_all (\<lambda>p. length p \<le> 64) ps"

subsection \<open>State\<close>

text \<open>A request: its packets, and whether a \<^verbatim>\<open>SdmaQueueState\<close> is given to reservation and to submission.\<close>

type_synonym request = "u32 list list \<times> bool \<times> bool"

datatype phase = Placing | Waiting | Publishing | Ringing | Committing

datatype producer_pc =
    Idle
  | Loading request
  | Checking request u64
  | Reserving request u64
  | Active phase request u64 u64 bool "(nat \<times> u32) list"
  | Quieting u64

record producer =
  pc :: producer_pc
  cachedHwReadIndex :: u64
  maxWritePtr :: u64

text \<open>
  The shared memory of a queue and its producers. The last two fields are history: the words reserved
  so far in the order of their reservation, and the words the engine has read.
\<close>

record sdma_ring =
  queueBuf :: "nat \<Rightarrow> u32"
  rptr :: u64
  wptr :: u64
  doorbell :: u64
  cachedWptr :: u64
  committedWptr :: u64
  producers :: "nat \<Rightarrow> producer"
  reserved :: "u32 list"
  fetched :: "u32 list"

record handle_ops =
  accepts :: "u32 list list \<Rightarrow> bool"
  plan :: "u64 \<Rightarrow> u32 list list \<Rightarrow> u64 \<times> (nat \<times> u32) list \<times> bool"
  weak_cas :: bool
  takes_state :: bool
  quiet_target :: "sdma_ring \<Rightarrow> producer \<Rightarrow> bool \<Rightarrow> u64"
  quiet_done :: "u64 \<Rightarrow> u64 \<Rightarrow> bool"

definition device_ops :: handle_ops where
  "device_ops = \<lparr>accepts = device_accepts, plan = device_plan, weak_cas = False, takes_state = True,
     quiet_target = (\<lambda>s p has_state. if has_state then maxWritePtr p else wptr s),
     quiet_done = (\<lambda>hw_read_index target. \<not> hw_read_index < target)\<rparr>"

definition host_ops :: handle_ops where
  "host_ops = \<lparr>accepts = host_accepts, plan = host_plan, weak_cas = True, takes_state = False,
     quiet_target = (\<lambda>s p has_state. committedWptr s),
     quiet_done = (\<lambda>hw_read_index target. hw_read_index = target)\<rparr>"

text \<open>A freshly created queue: all indices are the write pointer the queue was created with.\<close>

definition sdma_init :: "u64 \<Rightarrow> (nat \<Rightarrow> u32) \<Rightarrow> u32 list \<Rightarrow> sdma_ring" where
  "sdma_init initial_wptr mem past =
     \<lparr>queueBuf = mem, rptr = initial_wptr, wptr = initial_wptr, doorbell = initial_wptr,
      cachedWptr = initial_wptr, committedWptr = initial_wptr,
      producers = (\<lambda>_. \<lparr>pc = Idle, cachedHwReadIndex = 0, maxWritePtr = 0\<rparr>), reserved = past, fetched = past\<rparr>"

definition goto :: "nat \<Rightarrow> producer_pc \<Rightarrow> sdma_ring \<Rightarrow> sdma_ring" where
  "goto t p s = s\<lparr>producers := (producers s)(t := (producers s t)\<lparr>pc := p\<rparr>)\<rparr>"

definition set_cache :: "nat \<Rightarrow> u64 option \<Rightarrow> sdma_ring \<Rightarrow> sdma_ring" where
  "set_cache t c s = (case c of None \<Rightarrow> s
     | Some r \<Rightarrow> s\<lparr>producers := (producers s)(t := (producers s t)\<lparr>cachedHwReadIndex := r\<rparr>)\<rparr>)"

definition set_max :: "nat \<Rightarrow> bool \<Rightarrow> u64 \<Rightarrow> sdma_ring \<Rightarrow> sdma_ring" where
  "set_max t has_state w s =
     (if has_state then s\<lparr>producers := (producers s)(t := (producers s t)\<lparr>maxWritePtr := w\<rparr>)\<rparr> else s)"

abbreviation pc_of :: "sdma_ring \<Rightarrow> nat \<Rightarrow> producer_pc" where
  "pc_of s t \<equiv> pc (producers s t)"

subsection \<open>Steps\<close>

definition check_space :: "handle_ops \<Rightarrow> sdma_ring \<Rightarrow> nat \<Rightarrow> request \<Rightarrow> u64 \<Rightarrow> bool \<times> u64 option" where
  "check_space ops s t rq cur =
     CanWriteUpto (rptr s) (if fst (snd rq) then Some (cachedHwReadIndex (producers s t)) else None)
       (cur + fst (plan ops cur (fst rq)))"

inductive producer_step :: "handle_ops \<Rightarrow> nat \<Rightarrow> sdma_ring \<Rightarrow> sdma_ring \<Rightarrow> bool" for ops t where
  p_start: "pc_of s t = Idle \<Longrightarrow> accepts ops (fst rq) \<Longrightarrow> snd rq = (False, False) \<or> takes_state ops \<Longrightarrow>
    producer_step ops t s (goto t (Loading rq) s)"
| p_load: "pc_of s t = Loading rq \<Longrightarrow> producer_step ops t s (goto t (Checking rq (cachedWptr s)) s)"
| p_check: "pc_of s t = Checking rq cur \<Longrightarrow> check_space ops s t rq cur = (ok, cache) \<Longrightarrow>
    producer_step ops t s (goto t (if ok then Reserving rq cur else Loading rq) (set_cache t cache s))"
| p_cas: "pc_of s t = Reserving rq cur \<Longrightarrow> cachedWptr s = cur \<Longrightarrow> plan ops cur (fst rq) = (bytes, ws, final) \<Longrightarrow>
    producer_step ops t s (goto t (Active Placing rq cur (cur + bytes) final ws)
      (s\<lparr>cachedWptr := cur + bytes, reserved := reserved s @ map snd ws\<rparr>))"
| p_cas_fail: "pc_of s t = Reserving rq cur \<Longrightarrow> cachedWptr s \<noteq> cur \<or> weak_cas ops \<Longrightarrow>
    producer_step ops t s (goto t (Loading rq) s)"
| p_store: "pc_of s t = Active Placing rq base pend final ((i, v) # ws) \<Longrightarrow>
    producer_step ops t s (goto t (Active Placing rq base pend final ws) (s\<lparr>queueBuf := (queueBuf s)(i := v)\<rparr>))"
| p_placed: "pc_of s t = Active Placing rq base pend final [] \<Longrightarrow>
    producer_step ops t s (goto t (Active Waiting rq base pend final []) s)"
| p_turn: "pc_of s t = Active Waiting rq base pend final [] \<Longrightarrow> committedWptr s = base \<Longrightarrow>
    producer_step ops t s (goto t (Active Publishing rq base pend final []) s)"
| p_wptr: "pc_of s t = Active Publishing rq base pend final [] \<Longrightarrow>
    producer_step ops t s (goto t (Active Ringing rq base pend final []) (s\<lparr>wptr := pend\<rparr>))"
| p_doorbell: "pc_of s t = Active Ringing rq base pend final [] \<Longrightarrow>
    producer_step ops t s (goto t (Active Committing rq base pend final []) (s\<lparr>doorbell := pend\<rparr>))"
| p_commit: "pc_of s t = Active Committing rq base pend final [] \<Longrightarrow>
    producer_step ops t s (goto t (if final then Idle else Loading rq)
      (set_max t (snd (snd rq)) pend (s\<lparr>committedWptr := pend\<rparr>)))"
| p_quiet: "pc_of s t = Idle \<Longrightarrow>
    producer_step ops t s (goto t (Quieting (quiet_target ops s (producers s t) has_state)) s)"
| p_quiet_done: "pc_of s t = Quieting target \<Longrightarrow> quiet_done ops (rptr s) target \<Longrightarrow>
    producer_step ops t s (goto t Idle s)"

inductive engine_step :: "sdma_ring \<Rightarrow> sdma_ring \<Rightarrow> bool" where
  e_fetch: "4 * length (fetched s) < unat (doorbell s) \<Longrightarrow>
    engine_step s (s\<lparr>fetched := fetched s @ [queueBuf s (length (fetched s) mod ring_dwords)]\<rparr>)"
| e_retire: "rptr s \<le> r \<Longrightarrow> unat r \<le> 4 * length (fetched s) \<Longrightarrow> engine_step s (s\<lparr>rptr := r\<rparr>)"

text \<open>The runs from a given state.\<close>

inductive ring_run :: "handle_ops \<Rightarrow> sdma_ring \<Rightarrow> sdma_ring \<Rightarrow> bool" for ops s0 where
  run_start: "ring_run ops s0 s0"
| run_producer: "ring_run ops s0 s \<Longrightarrow> producer_step ops t s s' \<Longrightarrow> ring_run ops s0 s'"
| run_engine: "ring_run ops s0 s \<Longrightarrow> engine_step s s' \<Longrightarrow> ring_run ops s0 s'"

end
