(* ===== verification/Sdma_Ring_Safety.thy ===== *)
theory Sdma_Ring_Safety
  imports Sdma_Ring
begin

text \<open>
  Safety of the SDMA ring: the invariant of the protocol of \<^verbatim>\<open>Sdma_Ring\<close>, proved once for every lawful plan
  of a reservation (locale \<open>ring_handle\<close>) and interpreted for the device and the host handle.
\<close>

subsection \<open>Invariant\<close>

text \<open>What a producer owns: its reserved bytes, and the words it has still to store.\<close>

definition region :: "producer \<Rightarrow> (nat \<times> nat) option" where
  "region p = (case pc p of Active _ _ base pend _ _ \<Rightarrow> Some (unat base, unat pend) | _ \<Rightarrow> None)"

definition phase_of :: "producer \<Rightarrow> phase option" where
  "phase_of p = (case pc p of Active ph _ _ _ _ _ \<Rightarrow> Some ph | _ \<Rightarrow> None)"

definition pending :: "producer \<Rightarrow> nat \<Rightarrow> bool" where
  "pending p i = (case pc p of
     Active _ _ _ pend _ ws \<Rightarrow> unat pend div 4 - length ws \<le> i \<and> i < unat pend div 4 | _ \<Rightarrow> False)"

definition cells :: "u32 list \<Rightarrow> nat \<Rightarrow> nat \<Rightarrow> (nat \<times> u32) list" where
  "cells str k e = map (\<lambda>i. (i mod ring_dwords, str ! i)) [k..<e]"

definition space_checked :: "handle_ops \<Rightarrow> sdma_ring \<Rightarrow> request \<Rightarrow> u64 \<Rightarrow> bool" where
  "space_checked ops s rq cur \<longleftrightarrow> (\<exists>r. r \<le> rptr s \<and> cur + fst (plan ops cur (fst rq)) - r < SDMA_QUEUE_SIZE)"

definition active_ok :: "sdma_ring \<Rightarrow> phase \<Rightarrow> u64 \<Rightarrow> u64 \<Rightarrow> (nat \<times> u32) list \<Rightarrow> bool" where
  "active_ok s ph base pend ws \<longleftrightarrow>
     unat (committedWptr s) \<le> unat base \<and> unat base < unat pend \<and> unat pend \<le> unat (cachedWptr s) \<and>
     4 dvd unat base \<and> 4 dvd unat pend \<and> unat base + 4 * length ws \<le> unat pend \<and>
     cells (reserved s) (unat pend div 4 - length ws) (unat pend div 4) = ws \<and>
     (ph \<noteq> Placing \<longrightarrow> ws = []) \<and>
     (ph \<in> {Publishing, Ringing, Committing} \<longrightarrow> base = committedWptr s) \<and>
     (ph \<in> {Ringing, Committing} \<longrightarrow> wptr s = pend) \<and> (ph = Committing \<longrightarrow> doorbell s = pend)"

definition pc_ok :: "handle_ops \<Rightarrow> sdma_ring \<Rightarrow> producer_pc \<Rightarrow> bool" where
  "pc_ok ops s p = (case p of
       Idle \<Rightarrow> True
     | Loading rq \<Rightarrow> accepts ops (fst rq)
     | Checking rq cur \<Rightarrow> accepts ops (fst rq) \<and> cur \<le> cachedWptr s \<and> 4 dvd unat cur
     | Reserving rq cur \<Rightarrow> accepts ops (fst rq) \<and> cur \<le> cachedWptr s \<and> 4 dvd unat cur \<and> space_checked ops s rq cur
     | Active ph rq base pend _ ws \<Rightarrow> accepts ops (fst rq) \<and> active_ok s ph base pend ws
     | Quieting target \<Rightarrow> target \<le> cachedWptr s)"

definition producer_ok :: "handle_ops \<Rightarrow> sdma_ring \<Rightarrow> producer \<Rightarrow> bool" where
  "producer_ok ops s p \<longleftrightarrow> cachedHwReadIndex p \<le> rptr s \<and> maxWritePtr p \<le> committedWptr s \<and> pc_ok ops s (pc p)"

definition indices_ok :: "sdma_ring \<Rightarrow> bool" where
  "indices_ok s \<longleftrightarrow>
     unat (cachedWptr s) = 4 * length (reserved s) \<and> 4 dvd unat (committedWptr s) \<and>
     committedWptr s \<le> doorbell s \<and> doorbell s \<le> wptr s \<and> wptr s \<le> cachedWptr s \<and>
     unat (cachedWptr s) < unat (rptr s) + unat SDMA_QUEUE_SIZE \<and>
     unat (rptr s) \<le> 4 * length (fetched s) \<and> 4 * length (fetched s) \<le> unat (doorbell s) \<and>
     take (length (fetched s)) (reserved s) = fetched s \<and>
     (doorbell s = committedWptr s \<or> (\<exists>t. phase_of (producers s t) = Some Committing)) \<and>
     (wptr s = committedWptr s \<or> (\<exists>t. phase_of (producers s t) \<in> {Some Ringing, Some Committing}))"

definition regions_apart :: "(nat \<Rightarrow> producer) \<Rightarrow> bool" where
  "regions_apart ps \<longleftrightarrow> (\<forall>t t' b e b' e'. t \<noteq> t' \<longrightarrow> region (ps t) = Some (b, e) \<longrightarrow>
     region (ps t') = Some (b', e') \<longrightarrow> e \<le> b' \<or> e' \<le> b)"

definition regions_cover :: "sdma_ring \<Rightarrow> bool" where
  "regions_cover s \<longleftrightarrow> (\<forall>x. unat (committedWptr s) \<le> x \<longrightarrow> x < unat (cachedWptr s) \<longrightarrow>
     (\<exists>t b e. region (producers s t) = Some (b, e) \<and> b \<le> x \<and> x < e))"

definition content_ok :: "sdma_ring \<Rightarrow> bool" where
  "content_ok s \<longleftrightarrow> (\<forall>i < length (reserved s). unat (rptr s) \<le> 4 * i \<longrightarrow>
     (\<exists>t. pending (producers s t) i) \<or> queueBuf s (i mod ring_dwords) = reserved s ! i)"

definition ring_inv :: "handle_ops \<Rightarrow> sdma_ring \<Rightarrow> bool" where
  "ring_inv ops s \<longleftrightarrow> indices_ok s \<and> (\<forall>t. producer_ok ops s (producers s t)) \<and>
     regions_apart (producers s) \<and> regions_cover s \<and> content_ok s"

subsection \<open>The protocol for any lawful plan\<close>

lemma queue_size: "unat SDMA_QUEUE_SIZE = 4 * ring_dwords" "0 < ring_dwords"
  by (simp_all add: SDMA_QUEUE_SIZE_def ring_dwords_def)

lemma mod_apart:
  assumes "i < j" and "j < i + n"
  shows "i mod n \<noteq> j mod (n :: nat)"
proof
  assume "i mod n = j mod n"
  then have "n dvd j - i" using assms(1) mod_eq_dvd_iff_nat [of i j n] by (simp add: eq_commute)
  then show False using assms by (auto dest: dvd_imp_le)
qed

lemma mod_apart':
  assumes "i \<noteq> j" and "j < i + n" and "i < j + n"
  shows "i mod n \<noteq> j mod (n :: nat)"
  using mod_apart [of i j n] mod_apart [of j i n] assms by (metis linorder_neqE_nat)

lemma producers_goto [simp]: "producers (goto t p s) = (producers s)(t := (producers s t)\<lparr>pc := p\<rparr>)"
  by (simp add: goto_def)

lemma goto_same [simp]:
  "queueBuf (goto t p s) = queueBuf s" "rptr (goto t p s) = rptr s" "wptr (goto t p s) = wptr s"
  "doorbell (goto t p s) = doorbell s" "cachedWptr (goto t p s) = cachedWptr s"
  "committedWptr (goto t p s) = committedWptr s" "reserved (goto t p s) = reserved s" "fetched (goto t p s) = fetched s"
  by (simp_all add: goto_def)

lemma cells_append: "e \<le> length str \<Longrightarrow> cells (str @ xs) k e = cells str k e"
  by (auto simp: cells_def nth_append)

text \<open>A producer's condition survives what the others and the engine do.\<close>

lemma pc_ok_mono:
  assumes "pc_ok ops s p" and "indices_ok s" and "reserved s' = reserved s @ xs" and "rptr s \<le> rptr s'" and "cachedWptr s \<le> cachedWptr s'"
    and "committedWptr s' = committedWptr s" and "wptr s' = wptr s" and "doorbell s' = doorbell s"
  shows "pc_ok ops s' p"
proof (cases p)
  case (Active ph rq base pend final ws)
  then have a: "active_ok s ph base pend ws" "accepts ops (fst rq)" using assms(1) by (simp_all add: pc_ok_def)
  have "unat pend div 4 \<le> length (reserved s)"
  proof -
    have "unat pend \<le> unat (cachedWptr s)" using a(1) unfolding active_ok_def by blast
    moreover have "unat (cachedWptr s) = 4 * length (reserved s)" using assms(2) unfolding indices_ok_def by blast
    ultimately show ?thesis by linarith
  qed
  moreover have "unat pend \<le> unat (cachedWptr s')"
    using a(1) assms(5) by (simp add: active_ok_def word_le_nat_alt)
  ultimately have "active_ok s' ph base pend ws"
    using a(1) assms(3,6-8) by (simp add: active_ok_def cells_append)
  then show ?thesis using Active a(2) by (simp add: pc_ok_def)
next
  case (Reserving rq cur)
  then have "space_checked ops s rq cur" using assms(1) by (simp add: pc_ok_def)
  then obtain r where "r \<le> rptr s" and r: "cur + fst (plan ops cur (fst rq)) - r < SDMA_QUEUE_SIZE"
    by (auto simp: space_checked_def)
  from this(1) assms(4) have "r \<le> rptr s'" by (rule order_trans)
  with r have "space_checked ops s' rq cur" by (auto simp: space_checked_def)
  then show ?thesis using Reserving assms(1,5) by (auto simp: pc_ok_def)
qed (use assms(1,5) in \<open>auto simp: pc_ok_def\<close>)

lemma phase_region: "phase_of p = Some ph \<Longrightarrow> \<exists>b e. region p = Some (b, e)"
  by (auto simp: phase_of_def region_def split: producer_pc.splits)

lemma regions_apartD:
  assumes "regions_apart ps" and "t \<noteq> t'" and "region (ps t) = Some (b, e)" and "region (ps t') = Some (b', e')"
  shows "e \<le> b' \<or> e' \<le> b"
  using assms unfolding regions_apart_def by blast

lemma region_ok:
  assumes "ring_inv ops s" and "region (producers s t) = Some (b, e)"
  shows "unat (committedWptr s) \<le> b \<and> b < e \<and> e \<le> unat (cachedWptr s)"
proof -
  have "pc_ok ops s (pc_of s t)" using assms(1) by (simp add: ring_inv_def producer_ok_def)
  then show ?thesis using assms(2) by (auto simp: pc_ok_def active_ok_def region_def split: producer_pc.splits)
qed

text \<open>At most one producer is between its turn and its commit.\<close>

lemma turn_unique:
  assumes "ring_inv ops s" and "phase_of (producers s t) = Some ph" and "ph \<in> {Publishing, Ringing, Committing}"
    and "region (producers s t') = Some (b', e')" and "t' \<noteq> t" and "region (producers s t) = Some (b, e)"
  shows "e \<le> b'"
proof -
  have "pc_ok ops s (pc_of s t)" "pc_ok ops s (pc_of s t')"
    using assms(1) by (simp_all add: ring_inv_def producer_ok_def)
  then have "b = unat (committedWptr s)" "unat (committedWptr s) \<le> b'" "b' < e'"
    using assms(2,3,4,6)
    by (auto simp: pc_ok_def active_ok_def phase_of_def region_def split: producer_pc.splits)
  moreover have "e \<le> b' \<or> e' \<le> b"
    using assms(1,4,5,6) regions_apartD [of "producers s" t t'] by (simp add: ring_inv_def)
  ultimately show ?thesis by linarith
qed

lemma turn_only:
  assumes "ring_inv ops s" and "phase_of (producers s t) = Some ph" and "ph \<in> {Publishing, Ringing, Committing}"
    and "phase_of (producers s t') = Some ph'" and "ph' \<in> {Publishing, Ringing, Committing}"
  shows "t' = t"
proof (rule ccontr)
  assume "t' \<noteq> t"
  obtain b e b' e' where r: "region (producers s t) = Some (b, e)" "region (producers s t') = Some (b', e')"
    using phase_region assms(2,4) by blast
  have "e \<le> b'" "e' \<le> b"
    using turn_unique [OF assms(1-3) r(2) \<open>t' \<noteq> t\<close> r(1)] turn_unique [OF assms(1,4,5) r(1) _ r(2)] \<open>t' \<noteq> t\<close> by auto
  moreover have "b < e" "b' < e'" using region_ok [OF assms(1)] r by blast+
  ultimately show False by linarith
qed

lemma indices_facts:
  assumes "indices_ok s"
  shows "unat (cachedWptr s) = 4 * length (reserved s)" "4 dvd unat (committedWptr s)"
    "unat (committedWptr s) \<le> unat (doorbell s)" "unat (doorbell s) \<le> unat (wptr s)" "unat (wptr s) \<le> unat (cachedWptr s)"
    "unat (cachedWptr s) < unat (rptr s) + unat SDMA_QUEUE_SIZE"
    "unat (rptr s) \<le> 4 * length (fetched s)" "4 * length (fetched s) \<le> unat (doorbell s)"
    "take (length (fetched s)) (reserved s) = fetched s"
    "doorbell s = committedWptr s \<or> (\<exists>t. phase_of (producers s t) = Some Committing)"
    "wptr s = committedWptr s \<or> (\<exists>t. phase_of (producers s t) \<in> {Some Ringing, Some Committing})"
  using assms unfolding indices_ok_def word_le_nat_alt by blast+

lemma ring_inv_parts:
  assumes "ring_inv ops s"
  shows "indices_ok s" "producer_ok ops s (producers s t)" "pc_ok ops s (pc_of s t)" "regions_apart (producers s)"
    "regions_cover s" "content_ok s"
  using assms unfolding ring_inv_def producer_ok_def by blast+

lemma late_phase:
  assumes "ring_inv ops s" and "phase_of (producers s t) = Some ph" and "ph \<in> {Publishing, Ringing, Committing}"
  obtains e where "region (producers s t) = Some (unat (committedWptr s), e)" and "4 dvd e"
    and "ph \<in> {Ringing, Committing} \<Longrightarrow> unat (wptr s) = e" and "ph = Committing \<Longrightarrow> unat (doorbell s) = e"
  using ring_inv_parts(3) [OF assms(1), of t] assms(2,3)
  by (auto simp: phase_of_def region_def pc_ok_def active_ok_def split: producer_pc.splits)

lemma doorbell_aligned:
  assumes "ring_inv ops s"
  shows "4 dvd unat (doorbell s)"
  using indices_facts(10) [OF ring_inv_parts(1) [OF assms]]
proof
  assume "doorbell s = committedWptr s"
  then show ?thesis using indices_facts(2) [OF ring_inv_parts(1) [OF assms]] by simp
next
  assume "\<exists>t. phase_of (producers s t) = Some Committing"
  then obtain t where t: "phase_of (producers s t) = Some Committing" by blast
  show ?thesis by (rule late_phase [OF assms t]) auto
qed

text \<open>The words a producer has still to store lie above everything the engine has been told of.\<close>

lemma pending_above:
  assumes inv: "ring_inv ops s" and p: "pending (producers s t) i"
  shows "unat (doorbell s) \<le> 4 * i \<and> i < length (reserved s)"
proof -
  obtain ph rq base pend final ws where a: "pc_of s t = Active ph rq base pend final ws"
    and i: "unat pend div 4 - length ws \<le> i" "i < unat pend div 4"
    using p by (auto simp: pending_def split: producer_pc.splits)
  have ok: "active_ok s ph base pend ws" using ring_inv_parts(3) [OF inv, of t] a by (simp add: pc_ok_def)
  have w: "ph = Placing" using ok i by (cases ph) (auto simp: active_ok_def)
  have e: "unat base + 4 * length ws \<le> unat pend" "4 dvd unat pend" "unat pend \<le> unat (cachedWptr s)"
    using ok unfolding active_ok_def by blast+
  have r: "region (producers s t) = Some (unat base, unat pend)" using a by (simp add: region_def)
  have "unat (doorbell s) \<le> unat base"
    using indices_facts(10) [OF ring_inv_parts(1) [OF inv]]
  proof
    assume "doorbell s = committedWptr s"
    then show ?thesis using region_ok [OF inv r] by simp
  next
    assume "\<exists>u. phase_of (producers s u) = Some Committing"
    then obtain u where u: "phase_of (producers s u) = Some Committing" by blast
    have "u \<noteq> t" using u a w by (auto simp: phase_of_def)
    obtain e where "region (producers s u) = Some (unat (committedWptr s), e)" "unat (doorbell s) = e"
      by (rule late_phase [OF inv u]) auto
    then show ?thesis using turn_unique [OF inv u _ r \<open>u \<noteq> t\<close> [symmetric]] by auto
  qed
  moreover have "unat base \<le> 4 * i" using e(1,2) i(1) by (auto elim!: dvdE)
  moreover have "i < length (reserved s)"
    using i(2) e(3) indices_facts(1) [OF ring_inv_parts(1) [OF inv]] by linarith
  ultimately show ?thesis by linarith
qed

subsubsection \<open>Engine steps\<close>

lemma fetch_inv:
  assumes inv: "ring_inv ops s" and lt: "4 * length (fetched s) < unat (doorbell s)"
  shows "ring_inv ops (s\<lparr>fetched := fetched s @ [queueBuf s (length (fetched s) mod ring_dwords)]\<rparr>)" (is "ring_inv ops ?s'")
proof -
  note f = indices_facts [OF ring_inv_parts(1) [OF inv]]
  let ?n = "length (fetched s)"
  have n: "?n < length (reserved s)" using f(1,4,5) lt by linarith
  have "\<not> pending (producers s t) ?n" for t using pending_above [OF inv, of t ?n] lt by linarith
  then have "queueBuf s (?n mod ring_dwords) = reserved s ! ?n"
    using ring_inv_parts(6) [OF inv] n f(7) unfolding content_ok_def by blast
  then have "take (Suc ?n) (reserved s) = fetched s @ [queueBuf s (?n mod ring_dwords)]"
    using f(9) n by (simp add: take_Suc_conv_app_nth)
  moreover have "4 * Suc ?n \<le> unat (doorbell s)"
    using doorbell_aligned [OF inv] lt by (auto elim!: dvdE)
  ultimately have "indices_ok ?s'"
    using ring_inv_parts(1) [OF inv] by (simp add: indices_ok_def)
  then show ?thesis
    using inv by (simp add: ring_inv_def producer_ok_def pc_ok_def active_ok_def space_checked_def regions_cover_def content_ok_def
        cong: producer_pc.case_cong)
qed

lemma retire_inv:
  assumes inv: "ring_inv ops s" and r: "rptr s \<le> r" "unat r \<le> 4 * length (fetched s)"
  shows "ring_inv ops (s\<lparr>rptr := r\<rparr>)" (is "ring_inv ops ?s'")
proof -
  have "unat (rptr s) \<le> unat r" using r(1) by (simp add: word_le_nat_alt)
  then have "indices_ok ?s'"
    using ring_inv_parts(1) [OF inv] r(2) by (auto simp: indices_ok_def)
  moreover have "producer_ok ops ?s' (producers s t)" for t
  proof -
    have "pc_ok ops ?s' (pc_of s t)"
      by (rule pc_ok_mono [OF ring_inv_parts(3) [OF inv] ring_inv_parts(1) [OF inv], where xs = "[]"]) (use r in simp_all)
    moreover have "cachedHwReadIndex (producers s t) \<le> r" "maxWritePtr (producers s t) \<le> committedWptr s"
      using ring_inv_parts(2) [OF inv, of t] r(1) by (auto simp: producer_ok_def)
    ultimately show ?thesis by (simp add: producer_ok_def)
  qed
  moreover have "content_ok ?s'"
    using ring_inv_parts(6) [OF inv] \<open>unat (rptr s) \<le> unat r\<close> by (auto simp: content_ok_def)
  ultimately show ?thesis using inv by (simp add: ring_inv_def regions_cover_def)
qed

lemma engine_step_inv: "engine_step s s' \<Longrightarrow> ring_inv ops s \<Longrightarrow> ring_inv ops s'"
  by (induction rule: engine_step.induct) (auto intro: fetch_inv retire_inv)

subsubsection \<open>Producer steps\<close>

abbreviation set_producer :: "nat \<Rightarrow> producer \<Rightarrow> sdma_ring \<Rightarrow> sdma_ring" where
  "set_producer t p s \<equiv> s\<lparr>producers := (producers s)(t := p)\<rparr>"

text \<open>Steps that touch no shared memory and no reservation.\<close>

lemma local_inv:
  assumes inv: "ring_inv ops s" and ok: "producer_ok ops s p"
    and same: "region p = region (producers s t)" "\<And>i. pending p i = pending (producers s t) i"
    and early: "phase_of p \<notin> {Some Ringing, Some Committing}" "phase_of (producers s t) \<notin> {Some Ringing, Some Committing}"
  shows "ring_inv ops (set_producer t p s)" (is "ring_inv ops ?s'")
proof -
  have ex: "(\<exists>u. phase_of (((producers s)(t := p)) u) = Some x) = (\<exists>u. phase_of (producers s u) = Some x)"
    if "x \<in> {Ringing, Committing}" for x
    using that early by auto
  have rg: "region (((producers s)(t := p)) u) = region (producers s u)" for u using same(1) by simp
  have pd: "pending (((producers s)(t := p)) u) i = pending (producers s u) i" for u i
    using same(2) by simp
  have "indices_ok ?s'"
    using ring_inv_parts(1) [OF inv] ex [of Ringing] ex [of Committing]
    by (simp add: indices_ok_def ex_disj_distrib del: fun_upd_apply)
  moreover have "producer_ok ops ?s' (((producers s)(t := p)) u)" for u
    using ok ring_inv_parts(2) [OF inv, of u]
    by (simp add: producer_ok_def pc_ok_def active_ok_def space_checked_def cong: producer_pc.case_cong)
  moreover have "regions_apart ((producers s)(t := p))"
    using ring_inv_parts(4) [OF inv] by (simp add: regions_apart_def rg del: fun_upd_apply)
  moreover have "regions_cover ?s'"
    using ring_inv_parts(5) [OF inv] by (simp add: regions_cover_def rg del: fun_upd_apply)
  moreover have "content_ok ?s'"
    using ring_inv_parts(6) [OF inv] by (simp add: content_ok_def pd del: fun_upd_apply)
  ultimately show ?thesis by (simp add: ring_inv_def)
qed

lemma goto_inv:
  assumes inv: "ring_inv ops s" and ok: "pc_ok ops s p'"
    and "region (producers s t) = None" and "\<And>ph rq b e f ws. p' \<noteq> Active ph rq b e f ws"
  shows "ring_inv ops (goto t p' s)"
proof -
  have "ring_inv ops (set_producer t ((producers s t)\<lparr>pc := p'\<rparr>) s)"
    using ring_inv_parts(2) [OF inv, of t] assms(2-4)
    by (intro local_inv [OF inv])
      (auto simp: producer_ok_def region_def pending_def phase_of_def split: producer_pc.splits)
  then show ?thesis by (simp add: goto_def)
qed

lemma store_inv:
  assumes inv: "ring_inv ops s" and at: "pc_of s t = Active Placing rq base pend final ((i, v) # ws)"
  shows "ring_inv ops (goto t (Active Placing rq base pend final ws) (s\<lparr>queueBuf := (queueBuf s)(i := v)\<rparr>))"
    (is "ring_inv ops ?s'")
proof -
  let ?p = "(producers s t)\<lparr>pc := Active Placing rq base pend final ws\<rparr>"
  define k where "k = unat pend div 4 - length ((i, v) # ws)"
  have ok: "active_ok s Placing base pend ((i, v) # ws)" "accepts ops (fst rq)"
    using ring_inv_parts(3) [OF inv, of t] at by (simp_all add: pc_ok_def)
  have e: "unat base + 4 * length ((i, v) # ws) \<le> unat pend" "unat pend \<le> unat (cachedWptr s)" "4 dvd unat pend"
    and cl: "cells (reserved s) k (unat pend div 4) = (i, v) # ws"
    using ok(1) unfolding active_ok_def k_def by blast+
  have k: "k < unat pend div 4" "Suc k = unat pend div 4 - length ws" using e(1) by (auto simp: k_def)
  then have hd: "i = k mod ring_dwords" "v = reserved s ! k" and tl: "cells (reserved s) (Suc k) (unat pend div 4) = ws"
    using cl by (simp_all add: cells_def upt_conv_Cons)
  have "active_ok s Placing base pend ws"
    using ok(1) tl k(2) by (simp add: active_ok_def)
  then have pok: "producer_ok ops s ?p" using ring_inv_parts(2) [OF inv, of t] ok(2) by (simp add: producer_ok_def pc_ok_def)
  have pend_k: "pending (producers s t) k" using at k e(1) by (simp add: pending_def k_def)
  have lo: "unat (rptr s) \<le> 4 * k" "k < length (reserved s)"
    using pending_above [OF inv pend_k] indices_facts(7,8) [OF ring_inv_parts(1) [OF inv]] by linarith+
  have "content_ok ?s'"
    unfolding content_ok_def
  proof (intro allI impI)
    fix j assume j: "j < length (reserved ?s')" "unat (rptr ?s') \<le> 4 * j"
    show "(\<exists>u. pending (producers ?s' u) j) \<or> queueBuf ?s' (j mod ring_dwords) = reserved ?s' ! j"
    proof (cases "j = k")
      case True
      then show ?thesis using hd by simp
    next
      case False
      have "j < k + ring_dwords" "k < j + ring_dwords"
        using j lo indices_facts(1,6) [OF ring_inv_parts(1) [OF inv]] queue_size(1) by simp_all
      with False have "j mod ring_dwords \<noteq> i" using mod_apart' [of j k ring_dwords] hd(1) by simp
      then have q: "queueBuf ?s' (j mod ring_dwords) = queueBuf s (j mod ring_dwords)" by simp
      have p: "pending (producers ?s' u) j" if "pending (producers s u) j" for u
        using that False at k by (auto simp: pending_def k_def)
      have "(\<exists>u. pending (producers s u) j) \<or> queueBuf s (j mod ring_dwords) = reserved s ! j"
        using ring_inv_parts(6) [OF inv] j by (simp add: content_ok_def)
      then show ?thesis
      proof
        assume "\<exists>u. pending (producers s u) j"
        then have "\<exists>u. pending (producers ?s' u) j" using p by blast
        then show ?thesis ..
      next
        assume "queueBuf s (j mod ring_dwords) = reserved s ! j"
        then show ?thesis using q by simp
      qed
    qed
  qed
  moreover have "indices_ok ?s'"
  proof -
    have "phase_of (((producers s)(t := ?p)) u) = phase_of (producers s u)" for u using at by (simp add: phase_of_def)
    then show ?thesis
      using ring_inv_parts(1) [OF inv] by (simp add: indices_ok_def del: fun_upd_apply)
  qed
  moreover have rg: "region (((producers s)(t := ?p)) u) = region (producers s u)" for u using at by (simp add: region_def)
  have "regions_apart (producers ?s')" "regions_cover ?s'"
    using ring_inv_parts(4,5) [OF inv] by (simp_all add: regions_apart_def regions_cover_def rg del: fun_upd_apply)
  moreover have "producer_ok ops ?s' (producers ?s' u)" for u
    using pok ring_inv_parts(2) [OF inv, of u]
    by (simp add: producer_ok_def pc_ok_def active_ok_def space_checked_def cong: producer_pc.case_cong)
  ultimately show ?thesis by (simp add: ring_inv_def)
qed

text \<open>The three stores of \<^verbatim>\<open>submitPacket\<close>.\<close>

lemma late_others:
  assumes inv: "ring_inv ops s" and ph: "phase_of (producers s t) = Some ph" "ph \<in> {Publishing, Ringing, Committing}"
    and "u \<noteq> t" and "pc_of s u = Active ph' rq base pend final ws"
  shows "ph' \<notin> {Publishing, Ringing, Committing}"
  using turn_only [OF inv ph, of u ph'] assms(4,5) by (auto simp: phase_of_def)

lemma publish_inv:
  assumes inv: "ring_inv ops s" and at: "pc_of s t = Active ph rq base pend final []"
    and s': "(ph, ph', w, d) = (Publishing, Ringing, pend, doorbell s) \<or> (ph, ph', w, d) = (Ringing, Committing, wptr s, pend)"
  shows "ring_inv ops (goto t (Active ph' rq base pend final []) (s\<lparr>wptr := w, doorbell := d\<rparr>))"
    (is "ring_inv ops ?s'")
proof -
  let ?p = "(producers s t)\<lparr>pc := Active ph' rq base pend final []\<rparr>"
  note f = indices_facts [OF ring_inv_parts(1) [OF inv]]
  have pht: "phase_of (producers s t) = Some ph" "ph \<in> {Publishing, Ringing, Committing}" "ph \<noteq> Committing"
    using at s' by (auto simp: phase_of_def)
  have ok: "active_ok s ph base pend []" "accepts ops (fst rq)"
    using ring_inv_parts(3) [OF inv, of t] at by (simp_all add: pc_ok_def)
  have ok': "base = committedWptr s" "unat base < unat pend" "unat pend \<le> unat (cachedWptr s)" "ph = Ringing \<Longrightarrow> wptr s = pend"
    using ok(1) pht(2) unfolding active_ok_def by blast+
  have others: "phase_of (producers s u) \<notin> {Some Ringing, Some Committing}" if "u \<noteq> t" for u
    using late_others [OF inv pht(1,2) that] by (auto simp: phase_of_def split: producer_pc.splits)
  have db: "doorbell s = committedWptr s"
    using f(10) others pht(1,3) by auto (metis option.inject)
  have "indices_ok ?s'"
  proof -
    have "phase_of (producers ?s' t) = Some ph'" by (simp add: phase_of_def)
    moreover have "unat (committedWptr s) \<le> unat d" "unat d \<le> unat w" "unat w \<le> unat (cachedWptr s)" "4 * length (fetched s) \<le> unat d"
      using s' ok' f db by auto
    moreover have "ph' = Committing \<or> d = committedWptr s" "ph' \<in> {Ringing, Committing}" using s' db by auto
    ultimately show ?thesis
      using ring_inv_parts(1) [OF inv] unfolding indices_ok_def word_le_nat_alt by auto
  qed
  moreover have "producer_ok ops ?s' (producers ?s' u)" for u
  proof (cases "u = t")
    case True
    have "active_ok ?s' ph' base pend []" using ok(1) s' by (auto simp: active_ok_def)
    then show ?thesis using True ok(2) ring_inv_parts(2) [OF inv, of t] by (simp add: producer_ok_def pc_ok_def)
  next
    case False
    have "pc_ok ops ?s' (pc_of s u)"
      using ring_inv_parts(3) [OF inv, of u] late_others [OF inv pht(1,2) False]
      by (cases "pc_of s u") (auto simp: pc_ok_def active_ok_def space_checked_def)
    then show ?thesis using False ring_inv_parts(2) [OF inv, of u] by (simp add: producer_ok_def)
  qed
  moreover have rg: "region (((producers s)(t := ?p)) u) = region (producers s u)"
    and pd: "pending (((producers s)(t := ?p)) u) i = pending (producers s u) i" for u i
    using at by (simp_all add: region_def pending_def)
  have "regions_apart (producers ?s')" "regions_cover ?s'" "content_ok ?s'"
    using ring_inv_parts(4-6) [OF inv]
    by (simp_all add: regions_apart_def regions_cover_def content_ok_def rg pd del: fun_upd_apply)
  ultimately show ?thesis by (simp add: ring_inv_def)
qed

lemma commit_inv:
  assumes inv: "ring_inv ops s" and at: "pc_of s t = Active Committing rq base pend final []"
    and p: "pc p \<in> {Idle, Loading rq}" "cachedHwReadIndex p = cachedHwReadIndex (producers s t)"
      "maxWritePtr p \<in> {maxWritePtr (producers s t), pend}"
  shows "ring_inv ops (set_producer t p (s\<lparr>committedWptr := pend\<rparr>))" (is "ring_inv ops ?s'")
proof -
  note f = indices_facts [OF ring_inv_parts(1) [OF inv]]
  have pht: "phase_of (producers s t) = Some Committing" using at by (simp add: phase_of_def)
  have rt: "region (producers s t) = Some (unat base, unat pend)" using at by (simp add: region_def)
  have ok: "active_ok s Committing base pend []" "accepts ops (fst rq)"
    using ring_inv_parts(3) [OF inv, of t] at by (simp_all add: pc_ok_def)
  have ok': "base = committedWptr s" "unat base < unat pend" "wptr s = pend" "doorbell s = pend" "4 dvd unat pend"
    using ok(1) unfolding active_ok_def by blast+
  have up: "committedWptr s \<le> pend" using ok'(1,2) by (simp add: word_le_nat_alt)
  have none: "region p = None" "pending p = (\<lambda>_. False)"
    using p(1) by (auto simp: region_def pending_def)
  have "indices_ok ?s'"
    using ring_inv_parts(1) [OF inv] ok' unfolding indices_ok_def by simp
  moreover have "producer_ok ops ?s' (producers ?s' u)" for u
  proof (cases "u = t")
    case True
    have "maxWritePtr p \<le> pend" "cachedHwReadIndex p \<le> rptr s"
      using p(2,3) ring_inv_parts(2) [OF inv, of t] up by (auto simp: producer_ok_def)
    moreover have "pc_ok ops ?s' (pc p)" using p(1) ok(2) by (auto simp: pc_ok_def)
    ultimately show ?thesis using True by (simp add: producer_ok_def)
  next
    case False
    have "pc_ok ops ?s' (pc_of s u)"
    proof (cases "pc_of s u")
      case (Active ph' rq' base' pend' final' ws')
      have "unat pend \<le> unat base'"
        using turn_unique [OF inv pht _ _ False rt, of "unat base'" "unat pend'"] Active by (simp add: region_def)
      then show ?thesis
        using ring_inv_parts(3) [OF inv, of u] late_others [OF inv pht _ False Active] Active
        by (auto simp: pc_ok_def active_ok_def)
    qed (use ring_inv_parts(3) [OF inv, of u] in \<open>auto simp: pc_ok_def space_checked_def\<close>)
    then show ?thesis
      using False ring_inv_parts(2) [OF inv, of u] up by (auto simp: producer_ok_def)
  qed
  moreover have "regions_apart (producers ?s')"
    using ring_inv_parts(4) [OF inv] none(1) by (auto simp: regions_apart_def)
  moreover have "regions_cover ?s'"
    unfolding regions_cover_def
  proof (intro allI impI)
    fix x assume x: "unat (committedWptr ?s') \<le> x" "x < unat (cachedWptr ?s')"
    then have "unat (committedWptr s) \<le> x" "x < unat (cachedWptr s)" using ok'(1,2) by simp_all
    then obtain u b e where u: "region (producers s u) = Some (b, e)" "b \<le> x" "x < e"
      using ring_inv_parts(5) [OF inv] unfolding regions_cover_def by blast
    then have "u \<noteq> t" using rt x(1) by auto
    then have "region (producers ?s' u) = Some (b, e)" using u(1) by simp
    then show "\<exists>u b e. region (producers ?s' u) = Some (b, e) \<and> b \<le> x \<and> x < e" using u(2,3) by blast
  qed
  moreover have "content_ok ?s'"
  proof -
    have "pending (producers s t) i = False" for i using at by (simp add: pending_def)
    then have pd: "pending (((producers s)(t := p)) u) i = pending (producers s u) i" for u i using none(2) by simp
    show ?thesis using ring_inv_parts(6) [OF inv] by (simp add: content_ok_def pd del: fun_upd_apply)
  qed
  ultimately show ?thesis by (simp add: ring_inv_def)
qed

text \<open>Words that the engine skips: NOP packets, each with the number of words after its header.\<close>

function nops :: "u32 list \<Rightarrow> bool" where
  "nops [] \<longleftrightarrow> True"
| "nops (w # ws) \<longleftrightarrow> w AND 0xFFFF = 0 \<and> unat (drop_bit 16 w AND 0x3FFF) \<le> length ws \<and>
     nops (drop (unat (drop_bit 16 w AND 0x3FFF)) ws)"
  by pat_completeness auto
termination by (relation "measure length") auto

subsubsection \<open>Specification: a queue of words\<close>

text \<open>
  All words ever enqueued, and those read so far. Batches are enqueued in one piece and do not cross the
  end of the ring; what is enqueued besides them is padding up to that end; words are read in order.
\<close>

inductive fifo_step :: "(u32 list list \<Rightarrow> bool) \<Rightarrow> u32 list \<times> u32 list \<Rightarrow> u32 list \<times> u32 list \<Rightarrow> bool" for acc where
  fifo_pad: "nops pad \<Longrightarrow> ring_dwords dvd length q + length pad \<Longrightarrow> length q mod ring_dwords + length pad \<le> ring_dwords \<Longrightarrow>
    fifo_step acc (q, r) (q @ pad, r)"
| fifo_batch: "acc ps \<Longrightarrow> length q mod ring_dwords + length (concat ps) \<le> ring_dwords \<Longrightarrow>
    fifo_step acc (q, r) (q @ concat ps, r)"
| fifo_read: "length r < length q \<Longrightarrow> fifo_step acc (q, r) (q, r @ [q ! length r])"

definition fifo_of :: "sdma_ring \<Rightarrow> u32 list \<times> u32 list" where
  "fifo_of s = (reserved s, fetched s)"

definition plan_ok :: "u64 \<Rightarrow> u32 list list \<Rightarrow> u64 \<times> (nat \<times> u32) list \<times> bool \<Rightarrow> bool" where
  "plan_ok cur ps = (\<lambda>(bytes, ws, final).
     unat bytes = 4 * length ws \<and> ws \<noteq> [] \<and> unat bytes < unat SDMA_QUEUE_SIZE \<and>
     map fst ws = map (\<lambda>i. i mod ring_dwords) [unat cur div 4..<unat cur div 4 + length ws] \<and>
     (\<exists>pad. map snd ws = pad @ (if final then concat ps else []) \<and> nops pad \<and>
        (pad \<noteq> [] \<longrightarrow> ring_dwords dvd unat cur div 4 + length pad \<and>
           (unat cur div 4) mod ring_dwords + length pad \<le> ring_dwords) \<and>
        (final \<longrightarrow> (unat cur div 4 + length pad) mod ring_dwords + length (concat ps) \<le> ring_dwords) \<and>
        (\<not> final \<longrightarrow> pad \<noteq> [])))"

text \<open>
  The contract of a handle: its plans are lawful, and the target of \<^verbatim>\<open>quiet\<close> is one of the published indices.
\<close>

locale ring_handle =
  fixes ops :: handle_ops
  assumes plan_lawful: "accepts ops ps \<Longrightarrow> 4 dvd unat cur \<Longrightarrow> plan_ok cur ps (plan ops cur ps)"
    and pad_once: "accepts ops ps \<Longrightarrow> plan ops cur ps = (bytes, ws, False) \<Longrightarrow> snd (snd (plan ops (cur + bytes) ps))"
    and quiet_target_lawful: "quiet_target ops s p h \<in> {maxWritePtr p, wptr s, committedWptr s}"
begin

lemma plan_facts:
  assumes "accepts ops ps" and "4 dvd unat cur" and "plan ops cur ps = (bytes, ws, final)"
  shows "unat bytes = 4 * length ws" "ws \<noteq> []" "unat bytes < unat SDMA_QUEUE_SIZE"
    "map fst ws = map (\<lambda>i. i mod ring_dwords) [unat cur div 4..<unat cur div 4 + length ws]"
  using plan_lawful [OF assms(1,2)] assms(3) by (simp_all add: plan_ok_def)

lemma cas_inv:
  assumes inv: "ring_inv ops s" and at: "pc_of s t = Reserving rq cur" and cur: "cachedWptr s = cur"
    and pl: "plan ops cur (fst rq) = (bytes, ws, final)" and room: "4 * (length (reserved s) + length ws) < 2 ^ 64"
  shows "ring_inv ops (goto t (Active Placing rq cur (cur + bytes) final ws)
    (s\<lparr>cachedWptr := cur + bytes, reserved := reserved s @ map snd ws\<rparr>))" (is "ring_inv ops ?s'")
proof -
  let ?p = "(producers s t)\<lparr>pc := Active Placing rq cur (cur + bytes) final ws\<rparr>"
  let ?n = "length (reserved s)"
  note f = indices_facts [OF ring_inv_parts(1) [OF inv]]
  have acc: "accepts ops (fst rq)" "4 dvd unat cur" "space_checked ops s rq cur"
    using ring_inv_parts(3) [OF inv, of t] at by (simp_all add: pc_ok_def)
  note pf = plan_facts [OF acc(1,2) pl]
  have c: "unat cur = 4 * ?n" using f(1) cur by simp
  have new: "unat (cur + bytes) = 4 * (?n + length ws)"
    using room c pf(1) by (simp add: unat_word_ariths)
  obtain r where r: "r \<le> rptr s" "cur + bytes - r < SDMA_QUEUE_SIZE"
    using acc(3) pl by (auto simp: space_checked_def)
  have "unat r \<le> unat (cur + bytes)" using r(1) f cur c new by (simp add: word_le_nat_alt)
  then have "unat (cur + bytes) - unat r < unat SDMA_QUEUE_SIZE"
    using r(2) by (simp add: word_less_nat_alt word_le_nat_alt unat_sub)
  then have win: "unat (cur + bytes) < unat (rptr s) + unat SDMA_QUEUE_SIZE"
    using r(1) by (simp add: word_le_nat_alt)
  have le: "cachedWptr s \<le> cur + bytes" using cur c new by (simp add: word_le_nat_alt)
  have "indices_ok ?s'"
  proof -
    have "phase_of (producers ?s' u) = Some x" if "phase_of (producers s u) = Some x" for u x
      using that at by (auto simp: phase_of_def)
    then have ex: "\<exists>u. phase_of (producers s u) = Some x \<Longrightarrow> \<exists>u. phase_of (producers ?s' u) = Some x" for x by blast
    have "doorbell s = committedWptr s \<or> (\<exists>u. phase_of (producers ?s' u) = Some Committing)"
      using f(10) ex by blast
    moreover have "wptr s = committedWptr s \<or> (\<exists>u. phase_of (producers ?s' u) \<in> {Some Ringing, Some Committing})"
      using f(11) ex [of Ringing] ex [of Committing] by blast
    moreover have "take (length (fetched s)) (reserved s @ map snd ws) = fetched s"
      using f(1,4,5,8,9) by simp
    ultimately show ?thesis
      unfolding indices_ok_def word_le_nat_alt using f(2-5,7,8) win new cur c by (simp del: fun_upd_apply producers_goto)
  qed
  moreover have "producer_ok ops ?s' (producers ?s' u)" for u
  proof (cases "u = t")
    case True
    have "cells (reserved s @ map snd ws) ?n (?n + length ws) = ws"
    proof (rule nth_equalityI)
      fix k assume "k < length (cells (reserved s @ map snd ws) ?n (?n + length ws))"
      then have k: "k < length ws" by (simp add: cells_def)
      moreover have "fst (ws ! k) = (?n + k) mod ring_dwords"
        using arg_cong [OF pf(4), of "\<lambda>xs. xs ! k"] k c by simp
      ultimately show "cells (reserved s @ map snd ws) ?n (?n + length ws) ! k = ws ! k"
        by (simp add: cells_def nth_append prod_eq_iff)
    qed (simp add: cells_def)
    then have "active_ok ?s' Placing cur (cur + bytes) ws"
      using f(3-5) cur c new pf(2) by (simp add: active_ok_def)
    then show ?thesis using True acc(1) ring_inv_parts(2) [OF inv, of t] by (simp add: producer_ok_def pc_ok_def)
  next
    case False
    have "pc_ok ops ?s' (pc_of s u)"
      by (rule pc_ok_mono [OF ring_inv_parts(3) [OF inv] ring_inv_parts(1) [OF inv]]) (use le in simp_all)
    then show ?thesis using False ring_inv_parts(2) [OF inv, of u] by (simp add: producer_ok_def)
  qed
  moreover have rt: "region (producers s t) = None" "region ?p = Some (unat cur, unat (cur + bytes))"
    using at by (simp_all add: region_def)
  have "regions_apart (producers ?s')"
    unfolding regions_apart_def
  proof (intro allI impI)
    fix u v b e b' e'
    assume uv: "u \<noteq> v" "region (producers ?s' u) = Some (b, e)" "region (producers ?s' v) = Some (b', e')"
    have old: "y \<le> unat cur" if "region (producers s w) = Some (x, y)" for w x y using region_ok [OF inv that] cur by simp
    show "e \<le> b' \<or> e' \<le> b"
      using uv old rt(2) regions_apartD [OF ring_inv_parts(4) [OF inv] uv(1)] by (auto split: if_splits)
  qed
  moreover have "regions_cover ?s'"
    unfolding regions_cover_def
  proof (intro allI impI)
    fix x assume x: "unat (committedWptr ?s') \<le> x" "x < unat (cachedWptr ?s')"
    show "\<exists>u b e. region (producers ?s' u) = Some (b, e) \<and> b \<le> x \<and> x < e"
    proof (cases "x < unat cur")
      case True
      then obtain u b e where u: "region (producers s u) = Some (b, e)" "b \<le> x" "x < e"
        using ring_inv_parts(5) [OF inv] x(1) cur unfolding regions_cover_def by auto
      then have "region (producers ?s' u) = Some (b, e)" using rt(1) by auto
      then show ?thesis using u(2,3) by blast
    next
      case False
      have "region (producers ?s' t) = Some (unat cur, unat (cur + bytes))" using rt(2) by simp
      then show ?thesis using False x(2) by auto
    qed
  qed
  moreover have "content_ok ?s'"
    unfolding content_ok_def
  proof (intro allI impI)
    fix i assume i: "i < length (reserved ?s')" "unat (rptr ?s') \<le> 4 * i"
    show "(\<exists>u. pending (producers ?s' u) i) \<or> queueBuf ?s' (i mod ring_dwords) = reserved ?s' ! i"
    proof (cases "i < ?n")
      case True
      have "pending (producers ?s' u) i" if "pending (producers s u) i" for u
        using that at by (auto simp: pending_def)
      then have "\<exists>u. pending (producers s u) i \<Longrightarrow> \<exists>u. pending (producers ?s' u) i" by blast
      moreover have "(\<exists>u. pending (producers s u) i) \<or> queueBuf s (i mod ring_dwords) = reserved s ! i"
        using ring_inv_parts(6) [OF inv] True i(2) by (simp add: content_ok_def)
      ultimately show ?thesis using True by (auto simp: nth_append simp del: fun_upd_apply producers_goto)
    next
      case False
      have "pending (producers ?s' t) i" using False i(1) new by (simp add: pending_def)
      then show ?thesis by blast
    qed
  qed
  ultimately show ?thesis by (simp add: ring_inv_def)
qed

lemma check_inv:
  assumes inv: "ring_inv ops s" and at: "pc_of s t = Checking rq cur" and ck: "check_space ops s t rq cur = (ok, cache)"
  shows "ring_inv ops (goto t (if ok then Reserving rq cur else Loading rq) (set_cache t cache s))"
proof -
  let ?c = "case cache of None \<Rightarrow> cachedHwReadIndex (producers s t) | Some r \<Rightarrow> r"
  let ?p = "(producers s t)\<lparr>cachedHwReadIndex := ?c, pc := (if ok then Reserving rq cur else Loading rq)\<rparr>"
  have pok: "accepts ops (fst rq)" "cur \<le> cachedWptr s" "4 dvd unat cur"
    "cachedHwReadIndex (producers s t) \<le> rptr s" "maxWritePtr (producers s t) \<le> committedWptr s"
    using ring_inv_parts(2) [OF inv, of t] at by (simp_all add: producer_ok_def pc_ok_def)
  have c: "?c \<le> rptr s" and sp: "ok \<Longrightarrow> space_checked ops s rq cur"
    using ck pok(4) by (auto simp: check_space_def CanWriteUpto_def space_checked_def split: if_splits option.splits)
  have "ring_inv ops (set_producer t ?p s)"
    by (rule local_inv [OF inv]) (use at pok c sp in \<open>auto simp: producer_ok_def pc_ok_def region_def pending_def phase_of_def\<close>)
  moreover have "set_producer t ?p s = goto t (if ok then Reserving rq cur else Loading rq) (set_cache t cache s)"
    by (cases cache) (simp_all add: goto_def set_cache_def)
  ultimately show ?thesis by simp
qed

lemma wait_inv:
  assumes inv: "ring_inv ops s" and at: "pc_of s t = Active ph rq base pend final []"
    and "(ph, ph') = (Placing, Waiting) \<or> (ph, ph') = (Waiting, Publishing) \<and> committedWptr s = base"
  shows "ring_inv ops (goto t (Active ph' rq base pend final []) s)"
proof -
  have "ring_inv ops (set_producer t ((producers s t)\<lparr>pc := Active ph' rq base pend final []\<rparr>) s)"
    using ring_inv_parts(2) [OF inv, of t] at assms(3)
    by (intro local_inv [OF inv]) (auto simp: producer_ok_def pc_ok_def active_ok_def region_def pending_def phase_of_def)
  then show ?thesis by (simp add: goto_def)
qed

lemma commit_step_inv:
  assumes inv: "ring_inv ops s" and at: "pc_of s t = Active Committing rq base pend final []"
  shows "ring_inv ops (goto t (if final then Idle else Loading rq)
    (set_max t (snd (snd rq)) pend (s\<lparr>committedWptr := pend\<rparr>)))"
proof -
  let ?p = "(producers s t)\<lparr>maxWritePtr := (if snd (snd rq) then pend else maxWritePtr (producers s t)),
    pc := (if final then Idle else Loading rq)\<rparr>"
  have "ring_inv ops (set_producer t ?p (s\<lparr>committedWptr := pend\<rparr>))"
    by (rule commit_inv [OF inv at]) auto
  moreover have "set_producer t ?p (s\<lparr>committedWptr := pend\<rparr>) = goto t (if final then Idle else Loading rq)
      (set_max t (snd (snd rq)) pend (s\<lparr>committedWptr := pend\<rparr>))"
    by (simp add: goto_def set_max_def)
  ultimately show ?thesis by simp
qed

lemma quiet_inv:
  assumes inv: "ring_inv ops s" and at: "pc_of s t = Idle"
  shows "ring_inv ops (goto t (Quieting (quiet_target ops s (producers s t) h)) s)"
proof (rule goto_inv [OF inv])
  note f = indices_facts [OF ring_inv_parts(1) [OF inv]]
  have "maxWritePtr (producers s t) \<le> committedWptr s"
    using ring_inv_parts(2) [OF inv, of t] by (simp add: producer_ok_def)
  then show "pc_ok ops s (Quieting (quiet_target ops s (producers s t) h))"
    using quiet_target_lawful [of s "producers s t" h] f(3-5) by (auto simp: pc_ok_def word_le_nat_alt)
qed (use at in \<open>simp_all add: region_def\<close>)

lemma reserved_grows: "producer_step ops t s s' \<Longrightarrow> length (reserved s) \<le> length (reserved s')"
  by (induction rule: producer_step.induct) (auto simp: set_cache_def set_max_def split: option.splits)

lemma producer_step_inv:
  assumes "producer_step ops t s s'" and inv: "ring_inv ops s" and room: "4 * length (reserved s') < 2 ^ 64"
  shows "ring_inv ops s'"
  using assms(1)
proof cases
  case (p_start rq)
  then show ?thesis by (auto intro!: goto_inv [OF inv] simp: pc_ok_def region_def)
next
  case (p_load rq)
  have "4 dvd unat (cachedWptr s)" using indices_facts(1) [OF ring_inv_parts(1) [OF inv]] by simp
  then show ?thesis
    using p_load ring_inv_parts(3) [OF inv, of t] by (auto intro!: goto_inv [OF inv] simp: pc_ok_def region_def)
next
  case (p_check rq cur ok cache)
  then show ?thesis using check_inv [OF inv] by simp
next
  case (p_cas rq cur bytes ws final)
  have "4 * (length (reserved s) + length ws) < 2 ^ 64" using room p_cas(1) by simp
  then show ?thesis using cas_inv [OF inv p_cas(2-4)] p_cas(1) by simp
next
  case (p_cas_fail rq cur)
  then show ?thesis
    using ring_inv_parts(3) [OF inv, of t] by (auto intro!: goto_inv [OF inv] simp: pc_ok_def region_def)
next
  case (p_store rq base pend final i v ws)
  then show ?thesis using store_inv [OF inv] by simp
next
  case (p_placed rq base pend final)
  then show ?thesis using wait_inv [OF inv] by simp
next
  case (p_turn rq base pend final)
  then show ?thesis using wait_inv [OF inv] by simp
next
  case (p_wptr rq base pend final)
  have "s\<lparr>wptr := pend\<rparr> = s\<lparr>wptr := pend, doorbell := doorbell s\<rparr>" by simp
  then show ?thesis using publish_inv [OF inv p_wptr(2), of Ringing pend "doorbell s"] p_wptr(1) by simp
next
  case (p_doorbell rq base pend final)
  have "s\<lparr>doorbell := pend\<rparr> = s\<lparr>wptr := wptr s, doorbell := pend\<rparr>" by simp
  then show ?thesis using publish_inv [OF inv p_doorbell(2), of Committing "wptr s" pend] p_doorbell(1) by simp
next
  case (p_commit rq base pend final)
  then show ?thesis using commit_step_inv [OF inv] by simp
next
  case (p_quiet has_state)
  then show ?thesis using quiet_inv [OF inv] by simp
next
  case (p_quiet_done target)
  then show ?thesis by (auto intro!: goto_inv [OF inv] simp: pc_ok_def region_def)
qed

lemma run_inv:
  assumes "ring_run ops s0 s" and "ring_inv ops s0" and "4 * length (reserved s) < 2 ^ 64"
  shows "ring_inv ops s"
  using assms
proof (induction rule: ring_run.induct)
  case run_start
  then show ?case by simp
next
  case (run_producer s t s')
  have "4 * length (reserved s) < 2 ^ 64" using reserved_grows [OF run_producer.hyps(2)] run_producer.prems(2) by linarith
  then show ?case using producer_step_inv [OF run_producer.hyps(2)] run_producer by blast
next
  case (run_engine s s')
  have "reserved s = reserved s'" using run_engine.hyps(2) by (auto elim: engine_step.cases)
  then show ?case using engine_step_inv [OF run_engine.hyps(2)] run_engine by simp
qed

text \<open>Every step is steps of the specified queue.\<close>

lemma producer_step_fifo:
  assumes "producer_step ops t s s'" and inv: "ring_inv ops s"
  shows "(fifo_step (accepts ops))\<^sup>*\<^sup>* (fifo_of s) (fifo_of s')"
  using assms(1)
proof cases
  case (p_cas rq cur bytes ws final)
  have acc: "accepts ops (fst rq)" "4 dvd unat cur"
    using ring_inv_parts(3) [OF inv, of t] p_cas(2) by (simp_all add: pc_ok_def)
  have n: "unat cur div 4 = length (reserved s)"
    using indices_facts(1) [OF ring_inv_parts(1) [OF inv]] p_cas(3) by simp
  obtain pad where pad: "map snd ws = pad @ (if final then concat (fst rq) else [])" "nops pad"
      "pad \<noteq> [] \<longrightarrow> ring_dwords dvd length (reserved s) + length pad \<and> length (reserved s) mod ring_dwords + length pad \<le> ring_dwords"
      "final \<longrightarrow> (length (reserved s) + length pad) mod ring_dwords + length (concat (fst rq)) \<le> ring_dwords"
    using plan_lawful [OF acc] p_cas(4) n by (auto simp: plan_ok_def)
  let ?q = "reserved s" and ?r = "fetched s"
  have "(fifo_step (accepts ops))\<^sup>*\<^sup>* (?q, ?r) (?q @ pad, ?r)"
    using pad(2,3) fifo_step.fifo_pad [of pad ?q "accepts ops" ?r] by (cases "pad = []") auto
  also have "(fifo_step (accepts ops))\<^sup>*\<^sup>* (?q @ pad, ?r) (?q @ map snd ws, ?r)"
    using pad(1,4) fifo_step.fifo_batch [of "accepts ops" "fst rq" "?q @ pad" ?r] acc(1) by (cases final) auto
  finally show ?thesis using p_cas(1) by (simp add: fifo_of_def)
qed (auto simp: fifo_of_def set_cache_def set_max_def split: option.splits)

lemma engine_step_fifo:
  assumes "engine_step s s'" and inv: "ring_inv ops s"
  shows "(fifo_step (accepts ops))\<^sup>*\<^sup>* (fifo_of s) (fifo_of s')"
  using assms(1)
proof cases
  case e_fetch
  have inv': "ring_inv ops s'" using engine_step_inv [OF assms] .
  have f: "take (Suc (length (fetched s))) (reserved s) = fetched s @ [queueBuf s (length (fetched s) mod ring_dwords)]"
    using indices_facts(9) [OF ring_inv_parts(1) [OF inv']] e_fetch(1) by simp
  have l: "length (fetched s) < length (reserved s)"
    using arg_cong [OF f, of length] by (simp split: if_splits)
  then have "queueBuf s (length (fetched s) mod ring_dwords) = reserved s ! length (fetched s)"
    using f by (simp add: take_Suc_conv_app_nth)
  then show ?thesis using e_fetch(1) fifo_step.fifo_read [OF l] by (auto simp: fifo_of_def)
qed (simp add: fifo_of_def)

lemma run_fifo:
  assumes "ring_run ops s0 s" and "ring_inv ops s0" and "4 * length (reserved s) < 2 ^ 64"
  shows "(fifo_step (accepts ops))\<^sup>*\<^sup>* (fifo_of s0) (fifo_of s)"
  using assms
proof (induction rule: ring_run.induct)
  case run_start
  then show ?case by simp
next
  case (run_producer s t s')
  have l: "4 * length (reserved s) < 2 ^ 64" using reserved_grows [OF run_producer.hyps(2)] run_producer.prems(2) by linarith
  from run_producer.IH [OF run_producer.prems(1) l] producer_step_fifo [OF run_producer.hyps(2) run_inv [OF run_producer.hyps(1) run_producer.prems(1) l]]
  show ?case by (rule rtranclp_trans)
next
  case (run_engine s s')
  have l: "4 * length (reserved s) < 2 ^ 64" using run_engine.hyps(2) run_engine.prems(2) by (auto elim: engine_step.cases)
  from run_engine.IH [OF run_engine.prems(1) l] engine_step_fifo [OF run_engine.hyps(2) run_inv [OF run_engine.hyps(1) run_engine.prems(1) l]]
  show ?case by (rule rtranclp_trans)
qed

end

lemma init_inv:
  assumes "4 * length past = unat w"
  shows "ring_inv ops (sdma_init w mem past)"
proof -
  have "4 dvd unat w" using assms by (metis dvd_triv_left)
  then show ?thesis using assms queue_size
  by (auto simp: ring_inv_def indices_ok_def producer_ok_def pc_ok_def regions_apart_def regions_cover_def
      content_ok_def sdma_init_def region_def)
qed

end
