(* ===== verification/Sdma_Ring_Live.thy ===== *)
theory Sdma_Ring_Live
  imports Sdma_Ring_Safety
begin

text \<open>
  Liveness of the SDMA ring: from every state of a run the active producers can finish and the engine can
  drain the ring, and then a waiting producer gets its space. The ring never gets into a state from which a
  submission can no longer complete.
\<close>

definition settled :: "producer_pc \<Rightarrow> producer_pc" where
  "settled p = (case p of Active _ rq _ _ final _ \<Rightarrow> if final then Idle else Loading rq | _ \<Rightarrow> p)"

definition drained :: "sdma_ring \<Rightarrow> bool" where
  "drained s \<longleftrightarrow> (\<forall>u. region (producers s u) = None) \<and> committedWptr s = cachedWptr s \<and>
     rptr s = cachedWptr s \<and> fetched s = reserved s"

lemma run_trans: "ring_run ops s1 s2 \<Longrightarrow> ring_run ops s0 s1 \<Longrightarrow> ring_run ops s0 s2"
  by (induction rule: ring_run.induct) (auto intro: ring_run.intros)

lemma run_step: "producer_step ops t s s' \<Longrightarrow> ring_run ops s s'"
  by (rule ring_run.run_producer [OF ring_run.run_start])

lemma settled_idem [simp]: "settled (settled p) = settled p"
  by (cases p) (simp_all add: settled_def)

lemma settled_region: "region p = None \<Longrightarrow> settled (pc p) = pc p"
  by (auto simp: region_def settled_def split: producer_pc.splits)

text \<open>One producer moves on, and nothing else that matters to the others changes.\<close>

definition moved :: "nat \<Rightarrow> sdma_ring \<Rightarrow> sdma_ring \<Rightarrow> bool" where
  "moved t s s' \<longleftrightarrow> reserved s' = reserved s \<and> cachedWptr s' = cachedWptr s \<and>
     (\<forall>u. u \<noteq> t \<longrightarrow> producers s' u = producers s u) \<and> settled (pc_of s' t) = settled (pc_of s t)"

lemma moved_refl [simp]: "moved t s s"
  by (simp add: moved_def)

lemma moved_trans: "moved t s1 s2 \<Longrightarrow> moved t s2 s3 \<Longrightarrow> moved t s1 s3"
  by (simp add: moved_def)

abbreviation done_by :: "nat \<Rightarrow> u64 \<Rightarrow> sdma_ring \<Rightarrow> bool" where
  "done_by t pend s \<equiv> committedWptr s = pend \<and> region (producers s t) = None"

text \<open>What a producer is working on, if it is submitting.\<close>

fun submitting :: "producer_pc \<Rightarrow> bool" where
  "submitting Idle = False"
| "submitting (Quieting _) = False"
| "submitting _ = True"

lemma inv_room:
  assumes "ring_inv ops s"
  shows "4 * length (reserved s) < 2 ^ 64"
proof -
  have "unat (cachedWptr s) < 2 ^ 64" using unsigned_less [of "cachedWptr s"] by simp
  then show ?thesis using indices_facts(1) [OF ring_inv_parts(1) [OF assms]] by simp
qed

context ring_handle
begin

lemma step_keeps:
  assumes "producer_step ops t s s'" and "moved t s s'" and "ring_inv ops s"
  shows "ring_inv ops s'"
  using producer_step_inv [OF assms(1,3)] inv_room [OF assms(3)] assms(2) by (simp add: moved_def)

lemma place_all_stores:
  assumes "ring_inv ops s" and "pc_of s t = Active Placing rq base pend final ws"
  shows "\<exists>s'. ring_run ops s s' \<and> ring_inv ops s' \<and> moved t s s' \<and> committedWptr s' = committedWptr s \<and>
    pc_of s' t = Active Placing rq base pend final []"
  using assms
proof (induction ws arbitrary: s)
  case Nil
  then show ?case by (intro exI [of _ s]) (simp add: ring_run.run_start)
next
  case (Cons w ws)
  obtain i v where w: "w = (i, v)" by (cases w)
  let ?s = "goto t (Active Placing rq base pend final ws) (s\<lparr>queueBuf := (queueBuf s)(i := v)\<rparr>)"
  have st: "producer_step ops t s ?s" using p_store Cons.prems(2) w by blast
  have mv: "moved t s ?s" using Cons.prems(2) w by (simp add: moved_def settled_def)
  have inv: "ring_inv ops ?s" by (rule step_keeps [OF st mv Cons.prems(1)])
  obtain s' where s': "ring_run ops ?s s'" "ring_inv ops s'" "moved t ?s s'" "committedWptr s' = committedWptr ?s"
      "pc_of s' t = Active Placing rq base pend final []"
    using Cons.IH [OF inv] by auto
  show ?case
    using run_trans [OF s'(1) run_step [OF st]] s'(2) moved_trans [OF mv s'(3)] s'(4,5) by (intro exI [of _ s']) simp
qed

text \<open>The producer whose turn it is goes through the phases and commits.\<close>

lemma one_step:
  assumes "producer_step ops t s s1" and "moved t s s1" and "ring_inv ops s"
    and "ring_inv ops s1 \<Longrightarrow> \<exists>s'. ring_run ops s1 s' \<and> ring_inv ops s' \<and> moved t s1 s' \<and> P s'"
  shows "\<exists>s'. ring_run ops s s' \<and> ring_inv ops s' \<and> moved t s s' \<and> P s'"
proof -
  obtain s' where s': "ring_run ops s1 s'" "ring_inv ops s'" "moved t s1 s'" "P s'"
    using assms(4) [OF step_keeps [OF assms(1-3)]] by blast
  show ?thesis
    using run_trans [OF s'(1) run_step [OF assms(1)]] s'(2,4) moved_trans [OF assms(2) s'(3)] by blast
qed

lemma commit_done:
  assumes inv: "ring_inv ops s" and at: "pc_of s t = Active Committing rq base pend final []"
  shows "\<exists>s'. ring_run ops s s' \<and> ring_inv ops s' \<and> moved t s s' \<and> done_by t pend s'"
proof (rule one_step [OF p_commit [OF at] _ inv])
  let ?s = "goto t (if final then Idle else Loading rq) (set_max t (snd (snd rq)) pend (s\<lparr>committedWptr := pend\<rparr>))"
  show "moved t s ?s" using at by (simp add: moved_def settled_def set_max_def)
  assume "ring_inv ops ?s"
  moreover have "done_by t pend ?s" by (simp add: set_max_def region_def)
  ultimately show "\<exists>s'. ring_run ops ?s s' \<and> ring_inv ops s' \<and> moved t ?s s' \<and> done_by t pend s'"
    using ring_run.run_start by (intro exI [of _ ?s]) simp
qed

lemma ringing_done:
  assumes inv: "ring_inv ops s" and at: "pc_of s t = Active Ringing rq base pend final []"
  shows "\<exists>s'. ring_run ops s s' \<and> ring_inv ops s' \<and> moved t s s' \<and> done_by t pend s'"
  by (rule one_step [OF p_doorbell [OF at] _ inv]) 
    (simp add: moved_def settled_def at, erule commit_done [where rq = rq and base = base and final = final], simp)

lemma publishing_done:
  assumes inv: "ring_inv ops s" and at: "pc_of s t = Active Publishing rq base pend final []"
  shows "\<exists>s'. ring_run ops s s' \<and> ring_inv ops s' \<and> moved t s s' \<and> done_by t pend s'"
  by (rule one_step [OF p_wptr [OF at] _ inv]) 
    (simp add: moved_def settled_def at, erule ringing_done [where rq = rq and base = base and final = final], simp)

lemma waiting_done:
  assumes inv: "ring_inv ops s" and at: "pc_of s t = Active Waiting rq base pend final []" and "committedWptr s = base"
  shows "\<exists>s'. ring_run ops s s' \<and> ring_inv ops s' \<and> moved t s s' \<and> done_by t pend s'"
  by (rule one_step [OF p_turn [OF at assms(3)] _ inv]) 
    (simp add: moved_def settled_def at, erule publishing_done [where rq = rq and base = base and final = final], simp)

lemma placing_done:
  assumes inv: "ring_inv ops s" and at: "pc_of s t = Active Placing rq base pend final ws" and "committedWptr s = base"
  shows "\<exists>s'. ring_run ops s s' \<and> ring_inv ops s' \<and> moved t s s' \<and> done_by t pend s'"
proof -
  obtain s1 where s1: "ring_run ops s s1" "ring_inv ops s1" "moved t s s1" "committedWptr s1 = base"
      "pc_of s1 t = Active Placing rq base pend final []"
    using place_all_stores [OF inv at] assms(3) by auto
  have "\<exists>s'. ring_run ops s1 s' \<and> ring_inv ops s' \<and> moved t s1 s' \<and> done_by t pend s'"
    by (rule one_step [OF p_placed [OF s1(5)] _ s1(2)]) 
      (simp add: moved_def settled_def s1(5), erule waiting_done [where rq = rq and base = base and final = final], use s1(4) in simp_all)
  then show ?thesis using run_trans [OF _ s1(1)] moved_trans [OF s1(3)] by blast
qed

lemma turn_done:
  assumes inv: "ring_inv ops s" and at: "pc_of s t = Active ph rq base pend final ws" and base: "committedWptr s = base"
  shows "\<exists>s'. ring_run ops s s' \<and> ring_inv ops s' \<and> moved t s s' \<and> done_by t pend s'"
proof -
  have "ph \<noteq> Placing \<longrightarrow> ws = []" using ring_inv_parts(3) [OF inv, of t] at by (simp add: pc_ok_def active_ok_def)
  then show ?thesis
    using at base placing_done [OF inv] waiting_done [OF inv] publishing_done [OF inv] ringing_done [OF inv] commit_done [OF inv]
    by (cases ph) auto
qed

text \<open>All active producers finish, in the order of their reservations.\<close>

lemma producers_finish:
  assumes "ring_inv ops s"
  shows "\<exists>s'. ring_run ops s s' \<and> ring_inv ops s' \<and> reserved s' = reserved s \<and> cachedWptr s' = cachedWptr s \<and>
    committedWptr s' = cachedWptr s' \<and> (\<forall>u. region (producers s' u) = None) \<and> (\<forall>u. pc_of s' u = settled (pc_of s u))"
  using assms
proof (induction "unat (cachedWptr s) - unat (committedWptr s)" arbitrary: s rule: less_induct)
  case less
  note inv = less.prems
  show ?case
  proof (cases "committedWptr s = cachedWptr s")
    case True
    have none: "region (producers s u) = None" for u
      using region_ok [OF inv, of u] True by (cases "region (producers s u)") fastforce+
    then have "pc_of s u = settled (pc_of s u)" for u using settled_region by simp
    then show ?thesis using True none inv ring_run.run_start by (intro exI [of _ s]) simp
  next
    case False
    note f = indices_facts [OF ring_inv_parts(1) [OF inv]]
    have lt: "unat (committedWptr s) < unat (cachedWptr s)"
      using False f(3-5) by (metis le_less_trans le_neq_implies_less order.trans word_unat_eq_iff)
    then obtain t b e where r: "region (producers s t) = Some (b, e)" "b \<le> unat (committedWptr s)"
      using ring_inv_parts(5) [OF inv] unfolding regions_cover_def by blast
    then obtain ph rq base pend final ws where at: "pc_of s t = Active ph rq base pend final ws" and b: "b = unat base" "e = unat pend"
      by (auto simp: region_def split: producer_pc.splits)
    have base: "committedWptr s = base" "unat base < unat pend" "unat pend \<le> unat (cachedWptr s)"
      using region_ok [OF inv r(1)] r(2) b by (auto simp: word_unat_eq_iff)
    obtain s1 where s1: "ring_run ops s s1" "ring_inv ops s1" "moved t s s1" "committedWptr s1 = pend" "region (producers s1 t) = None"
      using turn_done [OF inv at base(1)] by blast
    have "unat (cachedWptr s1) - unat (committedWptr s1) < unat (cachedWptr s) - unat (committedWptr s)"
      using s1(3,4) base lt by (simp add: moved_def)
    from less.hyps [OF this s1(2)] obtain s' where s': "ring_run ops s1 s'" "ring_inv ops s'" "reserved s' = reserved s1"
        "cachedWptr s' = cachedWptr s1" "committedWptr s' = cachedWptr s'" "\<And>u. region (producers s' u) = None"
        "\<And>u. pc_of s' u = settled (pc_of s1 u)" by blast
    have "settled (pc_of s1 u) = settled (pc_of s u)" for u using s1(3) by (cases "u = t") (auto simp: moved_def)
    then show ?thesis using run_trans [OF s'(1) s1(1)] s' s1(3) by (intro exI [of _ s']) (simp add: moved_def)
  qed
qed

lemma engine_catches_up:
  assumes "ring_inv ops s" and "doorbell s = cachedWptr s"
  shows "\<exists>s'. ring_run ops s s' \<and> ring_inv ops s' \<and> fetched s' = reserved s' \<and> reserved s' = reserved s \<and>
    producers s' = producers s \<and> cachedWptr s' = cachedWptr s \<and> committedWptr s' = committedWptr s"
  using assms
proof (induction "length (reserved s) - length (fetched s)" arbitrary: s)
  case 0
  note f = indices_facts [OF ring_inv_parts(1) [OF 0(2)]]
  have "fetched s = reserved s" using f(9) 0(1) by simp
  then show ?case using 0(2) ring_run.run_start by (intro exI [of _ s]) simp
next
  case (Suc n)
  note f = indices_facts [OF ring_inv_parts(1) [OF Suc(3)]]
  let ?s = "s\<lparr>fetched := fetched s @ [queueBuf s (length (fetched s) mod ring_dwords)]\<rparr>"
  have lt: "4 * length (fetched s) < unat (doorbell s)" using Suc(2,4) f(1) by simp
  have st: "engine_step s ?s" by (rule e_fetch [OF lt])
  have inv: "ring_inv ops ?s" by (rule engine_step_inv [OF st Suc(3)])
  have n: "n = length (reserved ?s) - length (fetched ?s)" using Suc(2) by simp
  obtain s' where s': "ring_run ops ?s s'" "ring_inv ops s'" "fetched s' = reserved s'" "reserved s' = reserved ?s"
      "producers s' = producers ?s" "cachedWptr s' = cachedWptr ?s" "committedWptr s' = committedWptr ?s"
    using Suc(1) [OF n inv] Suc(4) by auto
  show ?case
    using run_trans [OF s'(1) ring_run.run_engine [OF ring_run.run_start st]] s' by (intro exI [of _ s']) simp
qed

lemma ring_drain:
  assumes "ring_inv ops s"
  shows "\<exists>s'. ring_run ops s s' \<and> ring_inv ops s' \<and> drained s' \<and> reserved s' = reserved s \<and>
    (\<forall>u. pc_of s' u = settled (pc_of s u))"
proof -
  obtain s1 where s1: "ring_run ops s s1" "ring_inv ops s1" "reserved s1 = reserved s" "committedWptr s1 = cachedWptr s1"
      "\<And>u. region (producers s1 u) = None" "\<And>u. pc_of s1 u = settled (pc_of s u)"
    using producers_finish [OF assms] by blast
  note f1 = indices_facts [OF ring_inv_parts(1) [OF s1(2)]]
  have "phase_of (producers s1 u) = None" for u
    using s1(5) [of u] phase_region [of "producers s1 u"] by (cases "phase_of (producers s1 u)") auto
  then have "doorbell s1 = cachedWptr s1" using f1(10) s1(4) by simp
  then obtain s2 where s2: "ring_run ops s1 s2" "ring_inv ops s2" "fetched s2 = reserved s2" "reserved s2 = reserved s1"
      "producers s2 = producers s1" "cachedWptr s2 = cachedWptr s1" "committedWptr s2 = committedWptr s1"
    using engine_catches_up [OF s1(2)] by blast
  note f2 = indices_facts [OF ring_inv_parts(1) [OF s2(2)]]
  let ?s = "s2\<lparr>rptr := cachedWptr s2\<rparr>"
  have st: "engine_step s2 ?s"
    by (rule e_retire) (use f2 s2(3) in \<open>simp_all add: word_le_nat_alt\<close>)
  have "drained ?s" using s2 s1(4,5) by (simp add: drained_def)
  moreover have "ring_run ops s ?s"
    using ring_run.run_engine [OF run_trans [OF s2(1) s1(1)] st] .
  moreover have "ring_inv ops ?s" by (rule engine_step_inv [OF st s2(2)])
  ultimately show ?thesis using s1(3,6) s2(4,5) by (intro exI [of _ ?s]) simp
qed

text \<open>In a drained ring a reservation succeeds at the first attempt.\<close>

lemma drained_check:
  assumes inv: "ring_inv ops s" and dr: "drained s" and acc: "accepts ops (fst rq)"
  shows "fst (check_space ops s t rq (cachedWptr s))"
proof -
  have "4 dvd unat (cachedWptr s)" using indices_facts(1) [OF ring_inv_parts(1) [OF inv]] by simp
  then have "unat (fst (plan ops (cachedWptr s) (fst rq))) < unat SDMA_QUEUE_SIZE"
    using plan_facts(3) [OF acc] by (cases "plan ops (cachedWptr s) (fst rq)") auto
  then show ?thesis
    using dr by (auto simp: check_space_def CanWriteUpto_def drained_def word_less_nat_alt)
qed

lemma reserve_drain:
  assumes inv: "ring_inv ops s" and at: "pc_of s t = Reserving rq (cachedWptr s)"
    and room: "4 * length (reserved s) + unat SDMA_QUEUE_SIZE \<le> 2 ^ 64"
  obtains s' ws where "ring_run ops s s'" and "ring_inv ops s'" and "drained s'"
    and "reserved s' = reserved s @ ws" and "4 * length ws < unat SDMA_QUEUE_SIZE"
    and "pc_of s' t = (if snd (snd (plan ops (cachedWptr s) (fst rq))) then Idle else Loading rq)"
    and "cachedWptr s' = cachedWptr s + fst (plan ops (cachedWptr s) (fst rq))"
    and "\<And>u. u \<noteq> t \<Longrightarrow> pc_of s' u = settled (pc_of s u)"
proof -
  obtain bytes ws final where pl: "plan ops (cachedWptr s) (fst rq) = (bytes, ws, final)"
    by (cases "plan ops (cachedWptr s) (fst rq)")
  have acc: "accepts ops (fst rq)" "4 dvd unat (cachedWptr s)"
    using ring_inv_parts(3) [OF inv, of t] at by (simp_all add: pc_ok_def)
  note pf = plan_facts [OF acc pl]
  let ?s = "goto t (Active Placing rq (cachedWptr s) (cachedWptr s + bytes) final ws)
    (s\<lparr>cachedWptr := cachedWptr s + bytes, reserved := reserved s @ map snd ws\<rparr>)"
  have st: "producer_step ops t s ?s" by (rule p_cas [OF at refl pl])
  have inv1: "ring_inv ops ?s"
    by (rule cas_inv [OF inv at refl pl]) (use room pf(1,3) in simp)
  obtain s' where s': "ring_run ops ?s s'" "ring_inv ops s'" "drained s'" "reserved s' = reserved ?s"
      "\<And>u. pc_of s' u = settled (pc_of ?s u)"
    using ring_drain [OF inv1] by blast
  have "unat (cachedWptr s') = unat (cachedWptr ?s)"
    using indices_facts(1) [OF ring_inv_parts(1) [OF s'(2)]] indices_facts(1) [OF ring_inv_parts(1) [OF inv1]] s'(4) by simp
  then have "cachedWptr s' = cachedWptr s + bytes" by (simp add: word_unat_eq_iff)
  then show ?thesis
    using that [OF run_trans [OF s'(1) run_step [OF st]] s'(2,3), of "map snd ws"] s'(4,5) pf(1,3) pl
    by (simp add: settled_def)
qed

lemma attempt:
  assumes inv: "ring_inv ops s" and dr: "drained s" and at: "pc_of s t = Loading rq"
  obtains s' where "ring_run ops s s'" and "ring_inv ops s'" and "reserved s' = reserved s"
    and "cachedWptr s' = cachedWptr s" and "pc_of s' t = Reserving rq (cachedWptr s')"
    and "\<And>u. u \<noteq> t \<Longrightarrow> pc_of s' u = pc_of s u"
proof -
  have acc: "accepts ops (fst rq)" using ring_inv_parts(3) [OF inv, of t] at by (simp add: pc_ok_def)
  have lt: "4 * length (reserved s) < 2 ^ 64" by (rule inv_room [OF inv])
  let ?s1 = "goto t (Checking rq (cachedWptr s)) s"
  have st1: "producer_step ops t s ?s1" by (rule p_load [OF at])
  have inv1: "ring_inv ops ?s1" by (rule producer_step_inv [OF st1 inv]) (use lt in simp)
  have at1: "pc_of ?s1 t = Checking rq (cachedWptr s)" by simp
  have "fst (check_space ops ?s1 t rq (cachedWptr s))"
    using drained_check [OF inv dr acc, of t] by (simp add: check_space_def split: if_splits)
  then obtain cache where ck: "check_space ops ?s1 t rq (cachedWptr s) = (True, cache)"
    by (cases "check_space ops ?s1 t rq (cachedWptr s)") auto
  let ?s2 = "goto t (if True then Reserving rq (cachedWptr s) else Loading rq) (set_cache t cache ?s1)"
  have st2: "producer_step ops t ?s1 ?s2" by (rule p_check [OF at1 ck])
  have same: "reserved ?s2 = reserved s" "cachedWptr ?s2 = cachedWptr s"
    by (cases cache; simp add: set_cache_def)+
  have inv2: "ring_inv ops ?s2" by (rule producer_step_inv [OF st2 inv1]) (use lt same in simp)
  show ?thesis
    by (rule that [OF run_trans [OF run_step [OF st2] run_step [OF st1]] inv2 same]) (cases cache; simp add: set_cache_def)+
qed

lemma loading_completes:
  assumes inv: "ring_inv ops s" and dr: "drained s" and at: "pc_of s t = Loading rq"
    and room: "4 * length (reserved s) + 2 * unat SDMA_QUEUE_SIZE \<le> 2 ^ 64"
  shows "\<exists>s'. ring_run ops s s' \<and> drained s' \<and> ring_inv ops s' \<and> pc_of s' t = Idle"
proof -
  have acc: "accepts ops (fst rq)" using ring_inv_parts(3) [OF inv, of t] at by (simp add: pc_ok_def)
  obtain s1 where s1: "ring_run ops s s1" "ring_inv ops s1" "reserved s1 = reserved s" "pc_of s1 t = Reserving rq (cachedWptr s1)"
    by (rule attempt [OF inv dr at]) blast
  obtain s2 ws where s2: "ring_run ops s1 s2" "ring_inv ops s2" "drained s2" "reserved s2 = reserved s1 @ ws"
      "4 * length ws < unat SDMA_QUEUE_SIZE"
      "pc_of s2 t = (if snd (snd (plan ops (cachedWptr s1) (fst rq))) then Idle else Loading rq)"
      "cachedWptr s2 = cachedWptr s1 + fst (plan ops (cachedWptr s1) (fst rq))"
    by (rule reserve_drain [OF s1(2,4)]) (use room s1(3) in auto)
  show ?thesis
  proof (cases "snd (snd (plan ops (cachedWptr s1) (fst rq)))")
    case True
    then show ?thesis using run_trans [OF s2(1) s1(1)] s2(2,3,6) by auto
  next
    case False
    then have at2: "pc_of s2 t = Loading rq" using s2(6) by simp
    obtain s3 where s3: "ring_run ops s2 s3" "ring_inv ops s3" "reserved s3 = reserved s2" "cachedWptr s3 = cachedWptr s2"
        "pc_of s3 t = Reserving rq (cachedWptr s3)"
      by (rule attempt [OF s2(2,3) at2]) blast
    have fin: "snd (snd (plan ops (cachedWptr s3) (fst rq)))"
      using pad_once [OF acc, of "cachedWptr s1"] False s2(7) s3(4)
      by (cases "plan ops (cachedWptr s1) (fst rq)") auto
    have "4 * length (reserved s3) + unat SDMA_QUEUE_SIZE \<le> 2 ^ 64"
      using room s1(3) s2(4,5) s3(3) by simp
    then obtain s4 where "ring_run ops s3 s4" "drained s4" "ring_inv ops s4" "pc_of s4 t = Idle"
      using reserve_drain [OF s3(2,5)] fin by metis
    then show ?thesis using run_trans [OF _ run_trans [OF s3(1) run_trans [OF s2(1) s1(1)]]] by blast
  qed
qed

lemma reserving_completes:
  assumes inv: "ring_inv ops s" and dr: "drained s" and at: "pc_of s t = Reserving rq cur"
    and room: "4 * length (reserved s) + 3 * unat SDMA_QUEUE_SIZE \<le> 2 ^ 64"
  shows "\<exists>s'. ring_run ops s s' \<and> drained s' \<and> ring_inv ops s' \<and> pc_of s' t = Idle"
proof (cases "cachedWptr s = cur")
  case True
  then have at': "pc_of s t = Reserving rq (cachedWptr s)" using at by simp
  obtain s1 ws where s1: "ring_run ops s s1" "ring_inv ops s1" "drained s1" "reserved s1 = reserved s @ ws"
      "4 * length ws < unat SDMA_QUEUE_SIZE" "pc_of s1 t = Idle \<or> pc_of s1 t = Loading rq"
    by (rule reserve_drain [OF inv at']) (use room in \<open>auto split: if_splits\<close>)
  show ?thesis
  proof (cases "pc_of s1 t = Idle")
    case False
    have "4 * length (reserved s1) + 2 * unat SDMA_QUEUE_SIZE \<le> 2 ^ 64" using room s1(4,5) by simp
    then show ?thesis using loading_completes [OF s1(2,3)] s1(6) False run_trans [OF _ s1(1)] by blast
  qed (use s1 in blast)
next
  case False
  let ?s = "goto t (Loading rq) s"
  have st: "producer_step ops t s ?s" by (rule p_cas_fail [OF at]) (use False in simp)
  have "ring_inv ops ?s" by (rule producer_step_inv [OF st inv]) (use room queue_size in simp)
  moreover have "drained ?s" using dr by (simp add: drained_def region_def)
  ultimately show ?thesis
    using loading_completes [of ?s t rq] room run_trans [OF _ run_step [OF st]] by auto
qed

lemma submission_completes:
  assumes inv: "ring_inv ops s" and sub: "submitting (pc_of s t)"
    and room: "4 * length (reserved s) + 3 * unat SDMA_QUEUE_SIZE \<le> 2 ^ 64"
  shows "\<exists>s'. ring_run ops s s' \<and> drained s' \<and> ring_inv ops s' \<and> pc_of s' t = Idle"
proof -
  obtain s1 where s1: "ring_run ops s s1" "ring_inv ops s1" "drained s1" "reserved s1 = reserved s"
      "pc_of s1 t = settled (pc_of s t)"
    using ring_drain [OF inv] by blast
  have room1: "4 * length (reserved s1) + 3 * unat SDMA_QUEUE_SIZE \<le> 2 ^ 64" using room s1(4) by simp
  have "\<exists>s'. ring_run ops s1 s' \<and> drained s' \<and> ring_inv ops s' \<and> pc_of s' t = Idle"
  proof (cases "pc_of s1 t")
    case Idle
    then show ?thesis using s1(2,3) ring_run.run_start by blast
  next
    case (Loading rq)
    then show ?thesis using loading_completes [OF s1(2,3)] room1 by simp
  next
    case (Reserving rq cur)
    then show ?thesis using reserving_completes [OF s1(2,3)] room1 by simp
  next
    case (Checking rq cur)
    obtain ok cache where ck: "check_space ops s1 t rq cur = (ok, cache)" by (cases "check_space ops s1 t rq cur")
    let ?s = "goto t (if ok then Reserving rq cur else Loading rq) (set_cache t cache s1)"
    have st: "producer_step ops t s1 ?s" by (rule p_check [OF Checking ck])
    have same: "reserved ?s = reserved s1" by (cases cache) (simp_all add: set_cache_def)
    have inv2: "ring_inv ops ?s" by (rule producer_step_inv [OF st s1(2)]) (use room1 same queue_size in simp)
    have dr2: "drained ?s" using s1(3) by (cases cache) (auto simp: drained_def set_cache_def region_def)
    have pc2: "pc_of ?s t = (if ok then Reserving rq cur else Loading rq)" by simp
    have "\<exists>s'. ring_run ops ?s s' \<and> drained s' \<and> ring_inv ops s' \<and> pc_of s' t = Idle"
      using loading_completes [OF inv2 dr2] reserving_completes [OF inv2 dr2] pc2 room1 same by (cases ok) simp_all
    then show ?thesis using run_trans [OF _ run_step [OF st]] by blast
  next
    case (Active ph rq base pend final ws)
    then show ?thesis using s1(5) by (auto simp: settled_def split: producer_pc.splits if_splits)
  next
    case (Quieting target)
    then show ?thesis using s1(5) sub by (auto simp: settled_def split: producer_pc.splits if_splits)
  qed
  then show ?thesis using run_trans [OF _ s1(1)] by blast
qed

lemma store_target_free:
  assumes inv: "ring_inv ops s" and at: "pc_of s t = Active Placing rq base pend final ((i, v) # ws)"
    and j: "unat (rptr s) \<le> 4 * j" "4 * j < unat (doorbell s)"
  shows "j mod ring_dwords \<noteq> i"
proof -
  define k where "k = unat pend div 4 - length ((i, v) # ws)"
  have ok: "active_ok s Placing base pend ((i, v) # ws)" using ring_inv_parts(3) [OF inv, of t] at by (simp add: pc_ok_def)
  have e: "unat base + 4 * length ((i, v) # ws) \<le> unat pend" and cl: "cells (reserved s) k (unat pend div 4) = (i, v) # ws"
    using ok unfolding active_ok_def k_def by blast+
  have k: "k < unat pend div 4" using e by (auto simp: k_def)
  then have i: "i = k mod ring_dwords" using cl by (simp add: cells_def upt_conv_Cons)
  have "pending (producers s t) k" using at k by (simp add: pending_def k_def)
  from pending_above [OF inv this] have "j < k" "k < j + ring_dwords"
    using j indices_facts(1,6) [OF ring_inv_parts(1) [OF inv]] queue_size(1) by linarith+
  then show ?thesis using mod_apart i by simp
qed

end

end
