(* ===== verification/Sdma_Ring_Handles.thy ===== *)
theory Sdma_Ring_Handles
  imports Sdma_Ring_Live
begin

text \<open>
  The device and the host handle of an SDMA ring both keep the contract of \<open>ring_handle\<close>: their
  reservations and stores are lawful plans. The properties of the protocol follow for any number of
  producers and any interleaving.
\<close>

subsection \<open>Index arithmetic\<close>

definition at_word :: "nat \<Rightarrow> u64" where
  "at_word n = of_nat (4 * n)"

lemma size_facts: "unat SDMA_QUEUE_SIZE = 8388608" "ring_dwords = 2097152"
  by (simp_all add: SDMA_QUEUE_SIZE_def ring_dwords_def)

lemma at_word_unat: "4 dvd unat cur \<Longrightarrow> cur = at_word (unat cur div 4)"
  by (simp add: at_word_def del: of_nat_mult)

lemma at_word_add: "at_word n + at_word m = at_word (n + m)"
  by (simp add: at_word_def algebra_simps)

lemma at_word_0 [simp]: "at_word 0 = 0"
  by (simp add: at_word_def)

lemma unat_at_word: "unat (at_word n) = 4 * n mod 2 ^ 64"
  unfolding at_word_def by (simp add: unsigned_of_nat take_bit_eq_mod del: of_nat_mult)

lemma wrap_at_word: "unat (WrapIntoRing (at_word n)) = 4 * (n mod ring_dwords)"
proof -
  have "unat (WrapIntoRing (at_word n)) = (4 * n mod 2 ^ 64) mod 8388608"
    using size_facts(1) by (simp add: WrapIntoRing_def unat_mod_distrib unat_at_word)
  also have "\<dots> = 4 * n mod 8388608"
    by (rule mod_mod_cancel) simp
  also have "\<dots> = 4 * (n mod ring_dwords)"
    using mult_mod_right [of 4 n 2097152] by (simp add: size_facts)
  finally show ?thesis .
qed

lemma wrap_word_index: "unat (WrapIntoRing (at_word n) div 4) = n mod ring_dwords"
  using wrap_at_word [of n] by (simp add: unat_div_distrib)

lemma unat_small: "n < 2 ^ 62 \<Longrightarrow> unat (at_word n) = 4 * n"
  by (simp add: unat_at_word)

lemma wraps_iff:
  assumes "l < ring_dwords"
  shows "WrapIntoRing (at_word n) + at_word l > SDMA_QUEUE_SIZE \<longleftrightarrow> n mod ring_dwords + l > ring_dwords"
proof -
  have "unat (at_word l) = 4 * l" using assms size_facts by (intro unat_small) simp
  moreover have "4 * (n mod ring_dwords) + 4 * l < 2 ^ 64"
  proof -
    have "4 * (n mod ring_dwords) + 4 * l < 16777216"
      using assms mod_less_divisor [OF queue_size(2), of n] size_facts(2) by linarith
    then show ?thesis by simp
  qed
  ultimately have "unat (WrapIntoRing (at_word n) + at_word l) = 4 * (n mod ring_dwords + l)"
    using wrap_at_word [of n] by (simp add: unat_word_ariths)
  moreover have "(4 * a < 4 * (b + c)) = (a < b + c)" for a b c :: nat by arith
  ultimately show ?thesis using queue_size(1) by (simp only: word_less_nat_alt)
qed

lemma rest_of_ring:
  "SDMA_QUEUE_SIZE - WrapIntoRing (at_word n) = at_word (ring_dwords - n mod ring_dwords)"
proof -
  have le: "4 * (n mod ring_dwords) \<le> unat SDMA_QUEUE_SIZE" using queue_size by (simp add: less_imp_le)
  then have "unat (SDMA_QUEUE_SIZE - WrapIntoRing (at_word n)) = 4 * (ring_dwords - n mod ring_dwords)"
    using wrap_at_word [of n] queue_size(1) by (simp add: unat_sub word_le_nat_alt)
  also have "\<dots> = unat (at_word (ring_dwords - n mod ring_dwords))" using size_facts by (subst unat_small) simp_all
  finally show ?thesis by (simp add: word_unat_eq_iff)
qed

lemma indices_in_ring:
  assumes "n mod ring_dwords + l \<le> ring_dwords"
  shows "map (\<lambda>i. n mod ring_dwords + i) [0..<l] = map (\<lambda>i. i mod ring_dwords) [n..<n + l]"
proof (rule nth_equalityI)
  fix i assume "i < length (map (\<lambda>i. n mod ring_dwords + i) [0..<l])"
  then have i: "i < l" by simp
  then have "(n + i) mod ring_dwords = n mod ring_dwords + i"
    using assms by (metis add_less_cancel_left mod_add_left_eq mod_less order_less_le_trans)
  then show "map (\<lambda>i. n mod ring_dwords + i) [0..<l] ! i = map (\<lambda>i. i mod ring_dwords) [n..<n + l] ! i"
    using i by simp
qed simp

lemma next_in_ring:
  assumes "n mod ring_dwords + (k + l) \<le> ring_dwords"
  shows "(n + k) mod ring_dwords + l \<le> ring_dwords"
proof (cases "n mod ring_dwords + k = ring_dwords")
  case True
  then have "(n + k) mod ring_dwords = 0" by (metis mod_add_left_eq mod_self)
  then show ?thesis using assms by simp
next
  case False
  then have "(n + k) mod ring_dwords = n mod ring_dwords + k"
    using assms by (metis add_leD1 le_neq_implies_less mod_add_left_eq mod_less add.assoc)
  then show ?thesis using assms by simp
qed

lemma upt_split: "map f [n..<n + (k + l)] = map f [n..<n + k] @ map f [n + k..<n + k + l]"
  using upt_add_eq_append [of n "n + k" l] by (simp add: add.assoc)

subsection \<open>Padding\<close>

lemma nops_zeros: "nops (replicate n 0)"
  by (induction n) simp_all

lemma nop_header:
  assumes "0 < d" and "d \<le> 16384"
  shows "nops (push_bit 16 ((of_nat d - 1 :: u32) AND 0xFFFF) # replicate (d - 1) 0)"
proof -
  have m: "(0xFFFF :: u32) = mask 16" "(0x3FFF :: u32) = mask 14" by (simp_all add: mask_eq_exp_minus_1)
  let ?x = "of_nat d - 1 :: u32"
  have x: "?x = of_nat (d - 1)" using assms(1) by simp
  have "push_bit 16 (?x AND mask 16) AND mask 16 = 0"
    by (rule bit_word_eqI) (simp add: bit_simps)
  moreover have "drop_bit 16 (push_bit 16 (?x AND mask 16)) AND mask 14 = take_bit 14 ?x"
    by (rule bit_word_eqI) (auto simp: bit_simps)
  moreover have "unat (take_bit 14 ?x) = d - 1"
    using assms(2) unfolding x by (simp add: unsigned_take_bit_eq unsigned_of_nat take_bit_nat_eq_self)
  ultimately show ?thesis unfolding m nops.simps by (simp only: m nops_zeros length_replicate drop_replicate order_refl simp_thms)
qed

subsection \<open>The device handle\<close>

lemma place_packet:
  assumes "n mod ring_dwords + length p \<le> ring_dwords"
  shows "placePacket p (at_word n) 0 = (zip (map (\<lambda>i. i mod ring_dwords) [n..<n + length p]) p, at_word (n + length p))"
proof -
  have "map (\<lambda>i. (n mod ring_dwords + i, p ! i)) [0..<length p] = zip (map (\<lambda>i. n mod ring_dwords + i) [0..<length p]) p"
    by (rule nth_equalityI) simp_all
  then show ?thesis
    using indices_in_ring [OF assms] by (simp add: placePacket_def Let_def wrap_word_index at_word_def [symmetric] at_word_add del: of_nat_mult)
qed

lemma place_all_in_ring:
  assumes "n mod ring_dwords + length (concat ps) \<le> ring_dwords"
  shows "fst (place_all ps (at_word n) 0) = zip (map (\<lambda>i. i mod ring_dwords) [n..<n + length (concat ps)]) (concat ps)"
  using assms
proof (induction ps arbitrary: n)
  case Nil
  then show ?case by simp
next
  case (Cons p ps)
  have le: "n mod ring_dwords + length p \<le> ring_dwords" using Cons.prems by simp
  have "(n + length p) mod ring_dwords + length (concat ps) \<le> ring_dwords"
    using Cons.prems by (intro next_in_ring) simp
  from Cons.IH [OF this] show ?case
    using place_packet [OF le] by (simp add: case_prod_beta upt_split zip_append)
qed

lemma place_padded:
  assumes "d = ring_dwords - n mod ring_dwords" and "ps \<noteq> []"
  shows "fst (place_all ps (at_word n) (at_word d)) =
    map (\<lambda>i. (n mod ring_dwords + i, if i = 0 then push_bit 16 ((of_nat d - 1) AND 0xFFFF) else 0)) [0..<d] @
    fst (place_all ps (at_word (n + d)) 0)"
proof -
  obtain p qs where ps: "ps = p # qs" using assms(2) by (cases ps) auto
  have d: "d < 2 ^ 30" using assms(1) size_facts by simp
  have q: "at_word d div 4 = of_nat d"
    using d by (simp add: word_unat_eq_iff unat_div_distrib unat_at_word unsigned_of_nat take_bit_nat_eq_self)
  have u: "ucast (of_nat d :: u64) = (of_nat d :: u32)"
    using d by (simp add: word_unat_eq_iff unsigned_ucast_eq unsigned_of_nat take_bit_nat_eq_self)
  have c: "unat (of_nat d :: u32) = d" using d by (simp add: unsigned_of_nat take_bit_nat_eq_self)
  have z: "ucast (0 div 4 :: u64) = (0 :: u32)" by simp
  show ?thesis
    unfolding ps place_all.simps placePacket_def Let_def wrap_word_index q u c z
    by (simp add: case_prod_beta at_word_add)
qed

lemma accepted_length:
  assumes "device_accepts ps"
  shows "0 < length (concat ps) \<and> length (concat ps) \<le> 192"
proof -
  have "list_all (\<lambda>p. length p \<le> 64) ps \<Longrightarrow> length (concat ps) \<le> length ps * 64"
    by (induction ps) auto
  then show ?thesis using assms by (cases ps) (auto simp: device_accepts_def)
qed

lemma device_plan_lawful:
  assumes acc: "device_accepts ps" and al: "4 dvd unat cur"
  shows "plan_ok cur ps (device_plan cur ps)"
proof -
  define n where "n = unat cur div 4"
  define l where "l = length (concat ps)"
  define m where "m = n mod ring_dwords"
  define d where "d = (if m + l > ring_dwords then ring_dwords - m else 0)"
  have cur: "cur = at_word n" using at_word_unat [OF al] by (simp add: n_def)
  have l: "0 < l" "l \<le> 192" using accepted_length [OF acc] by (simp_all add: l_def)
  have m: "m < ring_dwords" using queue_size(2) by (simp add: m_def)
  have d: "d < 192" "d = 0 \<longrightarrow> m + l \<le> ring_dwords" using m l by (auto simp: d_def)
  have off: "ring_offset cur (at_word l) = at_word d"
    using wraps_iff [of l n] l size_facts(2) rest_of_ring [of n] by (simp add: ring_offset_def cur d_def m_def)
  define ws where "ws = fst (place_all ps cur (at_word d))"
  have plan: "device_plan cur ps = (at_word (l + d), ws, True)"
    using off by (simp add: device_plan_def Let_def packets_bytes_def at_word_def [symmetric] l_def [symmetric] ws_def at_word_add del: of_nat_mult)
  have after: "(n + d) mod ring_dwords + l \<le> ring_dwords"
  proof (cases "d = 0")
    case True
    then show ?thesis using d(2) by (simp add: m_def)
  next
    case False
    then have "m + d = ring_dwords" using m by (auto simp: d_def split: if_splits)
    then have "(n + d) mod ring_dwords = 0" by (metis m_def mod_add_left_eq mod_self)
    then show ?thesis using l size_facts(2) by simp
  qed
  define pad where "pad = (if d = 0 then [] else push_bit 16 ((of_nat d - 1 :: u32) AND 0xFFFF) # replicate (d - 1) 0)"
  have "ps \<noteq> []" using acc by (simp add: device_accepts_def)
  have tail: "fst (place_all ps (at_word (n + d)) 0) = zip (map (\<lambda>i. i mod ring_dwords) [n + d..<n + d + l]) (concat ps)"
    using place_all_in_ring after by (simp add: l_def)
  have ws: "map fst ws = map (\<lambda>i. i mod ring_dwords) [n..<n + (d + l)] \<and> map snd ws = pad @ concat ps"
  proof (cases "d = 0")
    case True
    then show ?thesis using tail by (simp add: ws_def cur pad_def l_def)
  next
    case False
    then have dd: "d = ring_dwords - n mod ring_dwords" by (auto simp: d_def m_def split: if_splits)
    have "map (\<lambda>i. n mod ring_dwords + i) [0..<d] = map (\<lambda>i. i mod ring_dwords) [n..<n + d]"
      by (rule indices_in_ring) (use m dd in \<open>simp add: m_def\<close>)
    moreover have "map (\<lambda>i. if i = 0 then push_bit 16 ((of_nat d - 1 :: u32) AND 0xFFFF) else 0) [0..<d] = pad"
      using False by (auto simp: pad_def upt_conv_Cons map_replicate_trivial intro!: nth_equalityI split: nat.splits) (simp add: nth_Cons')
    ultimately show ?thesis
      using place_padded [OF dd \<open>ps \<noteq> []\<close>] tail by (simp add: ws_def cur upt_split l_def comp_def)
  qed
  have len: "length ws = l + d" using arg_cong [of _ _ length, OF conjunct1 [OF ws]] by simp
  have bt: "unat (at_word (l + d)) = 4 * (l + d)" using l d by (intro unat_small) simp
  have "nops pad" using d nop_header [of d] by (simp add: pad_def)
  moreover have "pad \<noteq> [] \<longrightarrow> ring_dwords dvd n + length pad \<and> n mod ring_dwords + length pad \<le> ring_dwords"
  proof
    assume "pad \<noteq> []"
    then have "m + length pad = ring_dwords" using m by (auto simp: pad_def d_def split: if_splits)
    then show "ring_dwords dvd n + length pad \<and> n mod ring_dwords + length pad \<le> ring_dwords"
      by (metis m_def dvd_eq_mod_eq_0 mod_add_left_eq mod_self order_refl)
  qed
  moreover have "length pad = d" by (simp add: pad_def)
  ultimately have "\<exists>p. map snd ws = p @ concat ps \<and> nops p \<and>
      (p \<noteq> [] \<longrightarrow> ring_dwords dvd n + length p \<and> n mod ring_dwords + length p \<le> ring_dwords) \<and>
      (n + length p) mod ring_dwords + length (concat ps) \<le> ring_dwords"
    using ws after by (intro exI [of _ pad]) (simp add: l_def)
  moreover have "map fst ws = map (\<lambda>i. i mod ring_dwords) [n..<n + length ws]"
    using ws unfolding len by (simp add: add.commute)
  moreover have "unat (at_word (l + d)) < unat SDMA_QUEUE_SIZE" "ws \<noteq> []" using bt l d len size_facts(1) by auto
  ultimately show ?thesis
    unfolding plan_ok_def plan prod.case n_def [symmetric] using bt len by (simp only: if_True simp_thms)
qed

subsection \<open>The host handle\<close>

lemma host_place_in_ring:
  assumes "n mod ring_dwords + length (concat ps) \<le> ring_dwords"
  shows "host_place ps (at_word n) = zip (map (\<lambda>i. i mod ring_dwords) [n..<n + length (concat ps)]) (concat ps)"
  using assms
proof (induction ps arbitrary: n)
  case Nil
  then show ?case by simp
next
  case (Cons p ps)
  have "n mod ring_dwords + length p \<le> ring_dwords" using Cons.prems by simp
  note ix = indices_in_ring [OF this]
  have "map (\<lambda>i. (n mod ring_dwords + i, p ! i)) [0..<length p] = zip (map (\<lambda>i. n mod ring_dwords + i) [0..<length p]) p"
    by (rule nth_equalityI) simp_all
  moreover have "unat (WrapIntoRing (at_word n)) div 4 = n mod ring_dwords" using wrap_at_word by simp
  moreover have "(n + length p) mod ring_dwords + length (concat ps) \<le> ring_dwords"
    using Cons.prems by (intro next_in_ring) simp
  ultimately show ?case
    using Cons.IH [of "n + length p"] ix
    by (simp add: at_word_def [symmetric] at_word_add upt_split zip_append del: of_nat_mult)
qed

lemma host_pad_in_ring:
  assumes "d = ring_dwords - n mod ring_dwords"
  shows "map fst (host_pad (at_word n)) = map (\<lambda>i. i mod ring_dwords) [n..<n + d] \<and>
    map snd (host_pad (at_word n)) = replicate d 0"
proof -
  have "d < 2 ^ 62" using assms size_facts(2) by simp
  then have "unat (at_word d div 4) = d" by (simp add: unat_div_distrib unat_at_word)
  then have "host_pad (at_word n) = map (\<lambda>i. (n mod ring_dwords + i, 0)) [0..<d]"
    unfolding host_pad_def wrap_word_index rest_of_ring assms [symmetric] by simp
  moreover have "n mod ring_dwords + d \<le> ring_dwords" using assms queue_size(2) by (simp add: less_imp_le)
  ultimately show ?thesis
    using indices_in_ring [of n d] by (simp add: comp_def map_replicate_const)
qed

lemma host_length:
  assumes "host_accepts ps"
  shows "0 < length (concat ps)" "length (concat ps) < ring_dwords"
  using assms by (cases ps; auto simp: host_accepts_def packets_bytes_def kMaxSubmitBytes_def size_facts)+

lemma host_plan_eq:
  assumes "host_accepts ps"
  shows "host_plan (at_word n) ps =
    (if n mod ring_dwords + length (concat ps) > ring_dwords
     then (at_word (ring_dwords - n mod ring_dwords), host_pad (at_word n), False)
     else (at_word (length (concat ps)), host_place ps (at_word n), True))"
  using wraps_iff [OF host_length(2) [OF assms]]
  by (simp add: host_plan_def Let_def packets_bytes_def at_word_def [symmetric] rest_of_ring del: of_nat_mult)

lemma host_plan_lawful:
  assumes acc: "host_accepts ps" and al: "4 dvd unat cur"
  shows "plan_ok cur ps (host_plan cur ps)"
proof -
  define n where "n = unat cur div 4"
  define l where "l = length (concat ps)"
  define d where "d = ring_dwords - n mod ring_dwords"
  have cur: "cur = at_word n" using at_word_unat [OF al] by (simp add: n_def)
  have l: "0 < l" "l < ring_dwords" using host_length [OF acc] by (simp_all add: l_def)
  have m: "n mod ring_dwords < ring_dwords" using queue_size(2) by simp
  show ?thesis
  proof (cases "n mod ring_dwords + l > ring_dwords")
    case True
    have d: "0 < d" "d < ring_dwords" "n mod ring_dwords + d = ring_dwords" using True l m by (auto simp: d_def)
    then have dv: "ring_dwords dvd n + d" by (metis dvd_eq_mod_eq_0 mod_add_left_eq mod_self)
    have len: "length (host_pad cur) = d"
      using arg_cong [OF conjunct2 [OF host_pad_in_ring [OF d_def]], of length] by (simp add: cur)
    have "unat (at_word d) = 4 * d" using d size_facts(2) by (intro unat_small) simp
    moreover have "host_plan cur ps = (at_word d, host_pad cur, False)"
      using host_plan_eq [OF acc, of n] True by (simp add: cur d_def l_def)
    ultimately show ?thesis
      unfolding plan_ok_def n_def [symmetric]
      using host_pad_in_ring [OF d_def] d dv len nops_zeros [of d] queue_size(1) by (auto simp: cur)
  next
    case False
    then have "n mod ring_dwords + length (concat ps) \<le> ring_dwords" by (simp add: l_def)
    note pl = host_place_in_ring [OF this]
    have len: "length (host_place ps cur) = l" using pl by (simp add: cur l_def)
    have "unat (at_word l) = 4 * l" using l size_facts(2) by (intro unat_small) simp
    moreover have "host_plan cur ps = (at_word l, host_place ps cur, True)"
      using host_plan_eq [OF acc, of n] False by (simp add: cur l_def)
    ultimately show ?thesis
      unfolding plan_ok_def n_def [symmetric]
      using pl l len False queue_size(1) by (auto simp: cur l_def intro!: exI [of _ "[]"])
  qed
qed

lemma host_pad_once:
  assumes acc: "host_accepts ps" and "host_plan cur ps = (bytes, ws, False)"
  shows "snd (snd (host_plan (cur + bytes) ps))"
proof -
  have b: "bytes = SDMA_QUEUE_SIZE - WrapIntoRing cur"
    using assms(2) by (auto simp: host_plan_def Let_def split: if_splits)
  have lt: "unat cur mod 8388608 < 8388608" by simp
  have "unat (WrapIntoRing (cur + bytes)) = (unat cur + unat bytes) mod 2 ^ 64 mod 8388608"
    using size_facts(1) by (simp add: WrapIntoRing_def unat_mod_distrib unat_word_ariths)
  also have "\<dots> = (unat cur + unat bytes) mod 8388608" by (rule mod_mod_cancel) simp
  also have "unat bytes = 8388608 - unat cur mod 8388608"
    using size_facts(1) lt unfolding b by (subst unat_sub) (simp_all add: word_le_nat_alt WrapIntoRing_def unat_mod_distrib less_imp_le)
  also have "(unat cur + (8388608 - unat cur mod 8388608)) mod 8388608 = (0 :: nat)"
    using lt by (metis add_diff_inverse_nat less_imp_not_less mod_add_left_eq mod_self)
  finally have z: "WrapIntoRing (cur + bytes) = 0" by (simp add: word_unat_eq_iff)
  have "unat (of_nat (packets_bytes ps) :: u64) \<le> unat SDMA_QUEUE_SIZE"
    using acc size_facts(1) by (simp add: host_accepts_def kMaxSubmitBytes_def unsigned_of_nat take_bit_nat_eq_self)
  then show ?thesis by (simp add: host_plan_def Let_def z word_less_nat_alt not_less)
qed

subsection \<open>Both handles keep the contract\<close>

interpretation dring: ring_handle device_ops
proof
  fix ps :: "u32 list list" and cur bytes :: u64 and ws s p h
  show "accepts device_ops ps \<Longrightarrow> 4 dvd unat cur \<Longrightarrow> plan_ok cur ps (plan device_ops cur ps)"
    using device_plan_lawful by (simp add: device_ops_def)
  show "accepts device_ops ps \<Longrightarrow> plan device_ops cur ps = (bytes, ws, False) \<Longrightarrow> snd (snd (plan device_ops (cur + bytes) ps))"
    by (simp add: device_ops_def device_plan_def Let_def)
  show "quiet_target device_ops s p h \<in> {maxWritePtr p, wptr s, committedWptr s}"
    by (simp add: device_ops_def)
qed

interpretation hring: ring_handle host_ops
proof
  fix ps :: "u32 list list" and cur bytes :: u64 and ws s p h
  show "accepts host_ops ps \<Longrightarrow> 4 dvd unat cur \<Longrightarrow> plan_ok cur ps (plan host_ops cur ps)"
    using host_plan_lawful by (simp add: host_ops_def)
  show "accepts host_ops ps \<Longrightarrow> plan host_ops cur ps = (bytes, ws, False) \<Longrightarrow> snd (snd (plan host_ops (cur + bytes) ps))"
    using host_pad_once by (simp add: host_ops_def)
  show "quiet_target host_ops s p h \<in> {maxWritePtr p, wptr s, committedWptr s}"
    by (simp add: host_ops_def)
qed

end
