(* ===== verification/Sdma_Ring_Props.thy ===== *)
theory Sdma_Ring_Props
  imports Sdma_Ring_Handles
begin

text \<open>
  What the SDMA ring guarantees to its producers, for the device and the host handle: the properties of the
  contract \<open>ring_handle\<close> stated over runs from a freshly created queue. Indices are 64-bit byte counts that
  are never reset; the statements hold as long as fewer than 2 to the 64 bytes have been reserved.
\<close>

lemma run_facts:
  assumes "ops \<in> {device_ops, host_ops}" and "4 * length past = unat w"
    and "ring_run ops (sdma_init w mem past) s" and "4 * length (reserved s) < 2 ^ 64"
  shows "ring_inv ops s" and "(fifo_step (accepts ops))\<^sup>*\<^sup>* (past, past) (fifo_of s)"
proof -
  note i = init_inv [OF assms(2)]
  show "ring_inv ops s" using assms(1,3,4) dring.run_inv [OF _ i] hring.run_inv [OF _ i] by auto
  have f: "fifo_of (sdma_init w mem past) = (past, past)" by (simp add: fifo_of_def sdma_init_def)
  have "(fifo_step (accepts ops))\<^sup>*\<^sup>* (fifo_of (sdma_init w mem past)) (fifo_of s)"
    using assms(1,3,4) dring.run_fifo [OF _ i] hring.run_fifo [OF _ i] by auto
  then show "(fifo_step (accepts ops))\<^sup>*\<^sup>* (past, past) (fifo_of s)" unfolding f .
qed

subsection \<open>Properties\<close>

text \<open>C3. Refinement. Whatever the interleaving of the producers and the engine, the ring behaves as one
  queue: batches enter it whole, in some order, never across the end of the ring, with nothing but NOPs
  between them, and what the engine has read is a prefix of what has entered.\<close>

theorem sdma_ring_refines_fifo:
  assumes "ops \<in> {device_ops, host_ops}" and "4 * length past = unat w"
    and "ring_run ops (sdma_init w mem past) s" and "4 * length (reserved s) < 2 ^ 64"
  shows "(fifo_step (accepts ops))\<^sup>*\<^sup>* (past, past) (reserved s, fetched s) \<and>
    fetched s = take (length (fetched s)) (reserved s)"
  using run_facts [OF assms] indices_facts(9) [OF ring_inv_parts(1)] by (auto simp: fifo_of_def)

text \<open>C6. No store of a producer goes to a word that has been announced to the engine and not yet retired.\<close>

theorem sdma_no_overwrite:
  assumes "ops \<in> {device_ops, host_ops}" and "4 * length past = unat w"
    and "ring_run ops (sdma_init w mem past) s" and "4 * length (reserved s) < 2 ^ 64"
    and "pc_of s t = Active Placing rq base pend final ((i, v) # ws)"
    and "unat (rptr s) \<le> 4 * j" and "4 * j < unat (doorbell s)"
  shows "j mod ring_dwords \<noteq> i"
  using assms(1) dring.store_target_free [OF _ assms(5-7)] hring.store_target_free [OF _ assms(5-7)] run_facts(1) [OF assms(1-4)]
  by auto

text \<open>C9. Liveness. From every state of a run, every producer that is submitting can still complete its
  submission and the engine can read everything: no interleaving leads into a deadlock, and no accepted
  batch waits for space that can never become free.\<close>

theorem sdma_submission_completes:
  assumes "ops \<in> {device_ops, host_ops}" and "4 * length past = unat w"
    and "ring_run ops (sdma_init w mem past) s" and "4 * length (reserved s) + 3 * unat SDMA_QUEUE_SIZE \<le> 2 ^ 64"
    and "submitting (pc_of s t)"
  shows "\<exists>s'. ring_run ops s s' \<and> pc_of s' t = Idle \<and> fetched s' = reserved s' \<and> rptr s' = wptr s'"
proof -
  have lt: "4 * length (reserved s) < 2 ^ 64" using assms(4) queue_size by linarith
  obtain s' where s': "ring_run ops s s'" "drained s'" "ring_inv ops s'" "pc_of s' t = Idle"
    using assms(1) dring.submission_completes [OF _ assms(5,4)] hring.submission_completes [OF _ assms(5,4)]
      run_facts(1) [OF assms(1-3) lt] by auto
  note f = indices_facts [OF ring_inv_parts(1) [OF s'(3)]]
  have "wptr s' = cachedWptr s'"
    using f(3-5) s'(2) by (simp add: drained_def word_unat_eq_iff)
  then show ?thesis using s' by (auto simp: drained_def)
qed

text \<open>C21. On the device, \<^verbatim>\<open>quietAll\<close> returns only when the engine has read everything up to its target, and
  it can always return.\<close>

theorem device_quiet:
  assumes "4 * length past = unat w" and "ring_run device_ops (sdma_init w mem past) s"
    and "4 * length (reserved s) < 2 ^ 64" and "pc_of s t = Quieting target"
  shows "(quiet_done device_ops (rptr s) target \<longrightarrow> unat target \<le> 4 * length (fetched s)) \<and>
    (\<exists>s'. ring_run device_ops s s' \<and> pc_of s' t = Idle)"
proof -
  have inv: "ring_inv device_ops s" by (rule run_facts(1) [OF _ assms(1-3)]) simp
  have "unat target \<le> 4 * length (fetched s)" if "quiet_done device_ops (rptr s) target"
    using that indices_facts(7) [OF ring_inv_parts(1) [OF inv]] by (simp add: device_ops_def not_less word_le_nat_alt)
  note drd = this
  obtain s' where s': "ring_run device_ops s s'" "ring_inv device_ops s'" "drained s'" "pc_of s' t = settled (pc_of s t)"
    using dring.ring_drain [OF inv] by blast
  have at: "pc_of s' t = Quieting target" using s'(4) assms(4) by (simp add: settled_def)
  have "target \<le> cachedWptr s'" using ring_inv_parts(3) [OF s'(2), of t] at by (simp add: pc_ok_def)
  then have "quiet_done device_ops (rptr s') target" using s'(3) by (simp add: device_ops_def drained_def not_less)
  then have "producer_step device_ops t s' (goto t Idle s')" by (rule p_quiet_done [OF at])
  then have "ring_run device_ops s (goto t Idle s')" using s'(1) ring_run.run_producer by blast
  moreover have "pc_of (goto t Idle s') t = Idle" by simp
  ultimately have "\<exists>s'. ring_run device_ops s s' \<and> pc_of s' t = Idle" by blast
  then show ?thesis using drd by blast
qed

text \<open>A quiet of the host handle that the read pointer has passed.\<close>

lemma host_quiet_passed:
  assumes "ring_run host_ops s s'" and "pc_of s t = Quieting target" and "target < rptr s"
  shows "pc_of s' t = Quieting target \<and> rptr s \<le> rptr s'"
  using assms
proof (induction rule: ring_run.induct)
  case run_start
  then show ?case by simp
next
  case (run_producer s1 u s2)
  have at: "pc_of s1 t = Quieting target" and lt: "target < rptr s1"
    using run_producer.IH run_producer.prems by auto
  have "pc_of s2 t = Quieting target \<and> rptr s2 = rptr s1"
    using run_producer.hyps(2) at lt
    by cases (auto simp: set_cache_def set_max_def host_ops_def split: option.splits)
  then show ?case using run_producer.IH run_producer.prems by simp
next
  case (run_engine s1 s2)
  then show ?case by (auto elim!: engine_step.cases)
qed

text \<open>C40. On the host, \<^verbatim>\<open>quiet\<close> waits for the read pointer to equal its target. When another thread submits
  in the meantime the read pointer can pass the target, and then the call never returns.\<close>

theorem host_quiet_stuck:
  assumes "4 * length past = unat w" and "unat w + 2 * unat SDMA_QUEUE_SIZE \<le> 2 ^ 64"
  shows "\<exists>s. ring_run host_ops (sdma_init w mem past) s \<and> fetched s = reserved s \<and>
    (\<forall>s'. ring_run host_ops s s' \<longrightarrow> pc_of s' 0 = Quieting w)"
proof -
  define rq :: request where "rq = ([[0]], False, False)"
  let ?s0 = "sdma_init w mem past"
  let ?s1 = "goto 0 (Quieting (quiet_target host_ops ?s0 (producers ?s0 0) False)) ?s0"
  let ?s2 = "goto 1 (Loading rq) ?s1"
  have "producer_step host_ops 0 ?s0 ?s1" by (rule p_quiet) (simp add: sdma_init_def)
  note r1 = run_step [OF this]
  have "producer_step host_ops 1 ?s1 ?s2"
    by (rule p_start) (simp_all add: sdma_init_def rq_def host_ops_def host_accepts_def packets_bytes_def kMaxSubmitBytes_def size_facts)
  note r2 = run_trans [OF run_step [OF this] r1]
  have res: "reserved ?s2 = past" "cachedWptr ?s2 = w" by (simp_all add: sdma_init_def)
  have lt: "4 * length (reserved ?s2) < 2 ^ 64" using assms queue_size unfolding res by linarith
  have inv: "ring_inv host_ops ?s2" by (rule run_facts(1) [OF _ assms(1) r2 lt]) simp
  have dr: "drained ?s2" by (simp add: drained_def sdma_init_def region_def)
  have at: "pc_of ?s2 0 = Quieting w" "pc_of ?s2 1 = Loading rq"
    by (simp_all add: sdma_init_def host_ops_def)
  obtain s3 where s3: "ring_run host_ops ?s2 s3" "ring_inv host_ops s3" "reserved s3 = past"
      "cachedWptr s3 = w" "pc_of s3 1 = Reserving rq (cachedWptr s3)" "pc_of s3 0 = Quieting w"
    by (rule hring.attempt [OF inv dr at(2)]) (use res at(1) in auto)
  obtain s4 ws where s4: "ring_run host_ops s3 s4" "ring_inv host_ops s4" "drained s4" "reserved s4 = past @ ws"
      "cachedWptr s4 = w + fst (plan host_ops w (fst rq))" "pc_of s4 0 = Quieting w"
    by (rule hring.reserve_drain [OF s3(2,5)]) (use assms s3(3,4,6) in \<open>auto simp: settled_def\<close>)
  have acc: "accepts host_ops (fst rq)" "4 dvd unat w"
    using assms(1) ring_inv_parts(3) [OF s3(2), of 1] s3(5) by (simp_all add: pc_ok_def) (metis dvd_triv_left)
  obtain bytes wl final where pl: "plan host_ops w (fst rq) = (bytes, wl, final)" by (cases "plan host_ops w (fst rq)")
  have "bytes \<noteq> 0" using hring.plan_facts(1,2) [OF acc pl] by auto
  then have "unat (cachedWptr s4) \<noteq> unat w" using s4(5) pl by (simp add: word_unat_eq_iff [symmetric])
  moreover have "unat w \<le> unat (cachedWptr s4)"
    using indices_facts(1) [OF ring_inv_parts(1) [OF s4(2)]] s4(4) assms(1) by simp
  ultimately have "w < rptr s4" using s4(3) by (simp add: drained_def word_less_nat_alt)
  then have "\<forall>s'. ring_run host_ops s4 s' \<longrightarrow> pc_of s' 0 = Quieting w"
    using host_quiet_passed s4(6) by blast
  moreover have "fetched s4 = reserved s4" using s4(3) by (simp add: drained_def)
  ultimately show ?thesis using run_trans [OF s4(1) run_trans [OF s3(1) r2]] by blast
qed

subsection \<open>A sample run\<close>

text \<open>
  Two producers of the device handle on a new queue: producer 0 submits a packet of three words, producer 1
  is about to place another one. The engine has not started.
\<close>

definition idle_with :: "producer_pc \<Rightarrow> producer" where
  "idle_with p = \<lparr>pc = p, cachedHwReadIndex = 0, maxWritePtr = 0\<rparr>"

definition ring_at :: "(nat \<Rightarrow> u32) \<Rightarrow> u64 \<Rightarrow> u64 \<Rightarrow> u64 \<Rightarrow> u64 \<Rightarrow> producer_pc \<Rightarrow> producer_pc \<Rightarrow> u32 list \<Rightarrow> sdma_ring" where
  "ring_at buf w d c m p0 p1 res =
     \<lparr>queueBuf = buf, rptr = 0, wptr = w, doorbell = d, cachedWptr = c, committedWptr = m,
      producers = (\<lambda>t. idle_with (if t = 0 then p0 else if t = 1 then p1 else Idle)), reserved = res, fetched = []\<rparr>"

lemma ring_at_init: "sdma_init 0 buf [] = ring_at buf 0 0 0 0 Idle Idle []"
  by (auto simp: sdma_init_def ring_at_def idle_with_def)

lemma ring_at_simps [simp]:
  "pc_of (ring_at buf w d c m p0 p1 res) 0 = p0" "pc_of (ring_at buf w d c m p0 p1 res) (Suc 0) = p1"
  "queueBuf (ring_at buf w d c m p0 p1 res) = buf" "rptr (ring_at buf w d c m p0 p1 res) = 0"
  "wptr (ring_at buf w d c m p0 p1 res) = w" "doorbell (ring_at buf w d c m p0 p1 res) = d"
  "cachedWptr (ring_at buf w d c m p0 p1 res) = c" "committedWptr (ring_at buf w d c m p0 p1 res) = m"
  "reserved (ring_at buf w d c m p0 p1 res) = res"
  "goto 0 p (ring_at buf w d c m p0 p1 res) = ring_at buf w d c m p p1 res"
  "goto (Suc 0) p (ring_at buf w d c m p0 p1 res) = ring_at buf w d c m p0 p res"
  "(ring_at buf w d c m p0 p1 res)\<lparr>queueBuf := buf'\<rparr> = ring_at buf' w d c m p0 p1 res"
  "(ring_at buf w d c m p0 p1 res)\<lparr>wptr := x\<rparr> = ring_at buf x d c m p0 p1 res"
  "(ring_at buf w d c m p0 p1 res)\<lparr>doorbell := x\<rparr> = ring_at buf w x c m p0 p1 res"
  "(ring_at buf w d c m p0 p1 res)\<lparr>cachedWptr := x\<rparr> = ring_at buf w d x m p0 p1 res"
  "(ring_at buf w d c m p0 p1 res)\<lparr>committedWptr := x\<rparr> = ring_at buf w d c x p0 p1 res"
  "(ring_at buf w d c m p0 p1 res)\<lparr>reserved := rs\<rparr> = ring_at buf w d c m p0 p1 rs"
  by (auto simp: ring_at_def goto_def idle_with_def)

abbreviation sample_request :: request where
  "sample_request \<equiv> ([[5, 6, 7]], False, False)"

lemma sample_plans:
  "accepts device_ops [[5, 6, 7]]"
  "plan device_ops 0 [[5, 6, 7]] = (12, [(0, 5), (1, 6), (2, 7)], True)"
  "plan device_ops 12 [[5, 6, 7]] = (12, [(3, 5), (4, 6), (5, 7)], True)"
  by (simp_all add: device_ops_def device_accepts_def device_plan_def packets_bytes_def ring_offset_def WrapIntoRing_def
      SDMA_QUEUE_SIZE_def placePacket_def Let_def upt_rec)

lemma sample_reserve0:
  "ring_run device_ops (ring_at buf 0 0 0 0 Idle Idle [])
     (ring_at buf 0 0 12 0 (Active Placing sample_request 0 12 True [(0, 5), (1, 6), (2, 7)]) Idle [5, 6, 7])"
proof -
  have "producer_step device_ops 0 (ring_at buf 0 0 0 0 Idle Idle [])
      (ring_at buf 0 0 0 0 (Loading sample_request) Idle [])"
    using p_start [where s = "ring_at buf 0 0 0 0 Idle Idle []" and t = "0" and ops = device_ops and rq = sample_request] sample_plans(1) by simp
  note r1 = run_step [OF this]
  have "producer_step device_ops 0 (ring_at buf 0 0 0 0 (Loading sample_request) Idle [])
      (ring_at buf 0 0 0 0 (Checking sample_request 0) Idle [])"
    using p_load [where s = "ring_at buf 0 0 0 0 (Loading sample_request) Idle []" and t = "0" and ops = device_ops and rq = sample_request] by simp
  note r2 = ring_run.run_producer [OF r1 this]
  have "producer_step device_ops 0 (ring_at buf 0 0 0 0 (Checking sample_request 0) Idle [])
      (ring_at buf 0 0 0 0 (Reserving sample_request 0) Idle [])"
    using p_check [where s = "ring_at buf 0 0 0 0 (Checking sample_request 0) Idle []" and t = "0" and ops = device_ops and rq = sample_request and cur = 0 and ok = True and cache = None] sample_plans(2) by (simp add: check_space_def CanWriteUpto_def SDMA_QUEUE_SIZE_def set_cache_def)
  note r3 = ring_run.run_producer [OF r2 this]
  have "producer_step device_ops 0 (ring_at buf 0 0 0 0 (Reserving sample_request 0) Idle [])
      (ring_at buf 0 0 12 0 (Active Placing sample_request 0 12 True [(0, 5), (1, 6), (2, 7)]) Idle [5, 6, 7])"
    using p_cas [where s = "ring_at buf 0 0 0 0 (Reserving sample_request 0) Idle []" and t = "0" and ops = device_ops and rq = sample_request and cur = 0] sample_plans(2) by simp
  note r4 = ring_run.run_producer [OF r3 this]
  show ?thesis by (rule r4)
qed

lemma sample_commit0:
  "ring_run device_ops (ring_at buf 0 0 12 0 (Active Placing sample_request 0 12 True [(0, 5), (1, 6), (2, 7)]) Idle [5, 6, 7])
     (ring_at (((buf(0 := 5))(1 := 6))(2 := 7)) 12 12 12 12 Idle Idle [5, 6, 7])"
proof -
  have "producer_step device_ops 0 (ring_at buf 0 0 12 0 (Active Placing sample_request 0 12 True [(0, 5), (1, 6), (2, 7)]) Idle [5, 6, 7])
      (ring_at (buf(0 := 5)) 0 0 12 0 (Active Placing sample_request 0 12 True [(1, 6), (2, 7)]) Idle [5, 6, 7])"
    using p_store [where s = "ring_at buf 0 0 12 0 (Active Placing sample_request 0 12 True [(0, 5), (1, 6), (2, 7)]) Idle [5, 6, 7]" and t = "0" and ops = device_ops and rq = sample_request and base = 0 and pend = 12 and final = True] by simp
  note r1 = run_step [OF this]
  have "producer_step device_ops 0 (ring_at (buf(0 := 5)) 0 0 12 0 (Active Placing sample_request 0 12 True [(1, 6), (2, 7)]) Idle [5, 6, 7])
      (ring_at ((buf(0 := 5))(1 := 6)) 0 0 12 0 (Active Placing sample_request 0 12 True [(2, 7)]) Idle [5, 6, 7])"
    using p_store [where s = "ring_at (buf(0 := 5)) 0 0 12 0 (Active Placing sample_request 0 12 True [(1, 6), (2, 7)]) Idle [5, 6, 7]" and t = "0" and ops = device_ops and rq = sample_request and base = 0 and pend = 12 and final = True] by simp
  note r2 = ring_run.run_producer [OF r1 this]
  have "producer_step device_ops 0 (ring_at ((buf(0 := 5))(1 := 6)) 0 0 12 0 (Active Placing sample_request 0 12 True [(2, 7)]) Idle [5, 6, 7])
      (ring_at (((buf(0 := 5))(1 := 6))(2 := 7)) 0 0 12 0 (Active Placing sample_request 0 12 True []) Idle [5, 6, 7])"
    using p_store [where s = "ring_at ((buf(0 := 5))(1 := 6)) 0 0 12 0 (Active Placing sample_request 0 12 True [(2, 7)]) Idle [5, 6, 7]" and t = "0" and ops = device_ops and rq = sample_request and base = 0 and pend = 12 and final = True] by simp
  note r3 = ring_run.run_producer [OF r2 this]
  have "producer_step device_ops 0 (ring_at (((buf(0 := 5))(1 := 6))(2 := 7)) 0 0 12 0 (Active Placing sample_request 0 12 True []) Idle [5, 6, 7])
      (ring_at (((buf(0 := 5))(1 := 6))(2 := 7)) 0 0 12 0 (Active Waiting sample_request 0 12 True []) Idle [5, 6, 7])"
    using p_placed [where s = "ring_at (((buf(0 := 5))(1 := 6))(2 := 7)) 0 0 12 0 (Active Placing sample_request 0 12 True []) Idle [5, 6, 7]" and t = "0" and ops = device_ops and rq = sample_request and base = 0 and pend = 12 and final = True] by simp
  note r4 = ring_run.run_producer [OF r3 this]
  have "producer_step device_ops 0 (ring_at (((buf(0 := 5))(1 := 6))(2 := 7)) 0 0 12 0 (Active Waiting sample_request 0 12 True []) Idle [5, 6, 7])
      (ring_at (((buf(0 := 5))(1 := 6))(2 := 7)) 0 0 12 0 (Active Publishing sample_request 0 12 True []) Idle [5, 6, 7])"
    using p_turn [where s = "ring_at (((buf(0 := 5))(1 := 6))(2 := 7)) 0 0 12 0 (Active Waiting sample_request 0 12 True []) Idle [5, 6, 7]" and t = "0" and ops = device_ops and rq = sample_request and base = 0 and pend = 12 and final = True] by simp
  note r5 = ring_run.run_producer [OF r4 this]
  have "producer_step device_ops 0 (ring_at (((buf(0 := 5))(1 := 6))(2 := 7)) 0 0 12 0 (Active Publishing sample_request 0 12 True []) Idle [5, 6, 7])
      (ring_at (((buf(0 := 5))(1 := 6))(2 := 7)) 12 0 12 0 (Active Ringing sample_request 0 12 True []) Idle [5, 6, 7])"
    using p_wptr [where s = "ring_at (((buf(0 := 5))(1 := 6))(2 := 7)) 0 0 12 0 (Active Publishing sample_request 0 12 True []) Idle [5, 6, 7]" and t = "0" and ops = device_ops and rq = sample_request and base = 0 and pend = 12 and final = True] by simp
  note r6 = ring_run.run_producer [OF r5 this]
  have "producer_step device_ops 0 (ring_at (((buf(0 := 5))(1 := 6))(2 := 7)) 12 0 12 0 (Active Ringing sample_request 0 12 True []) Idle [5, 6, 7])
      (ring_at (((buf(0 := 5))(1 := 6))(2 := 7)) 12 12 12 0 (Active Committing sample_request 0 12 True []) Idle [5, 6, 7])"
    using p_doorbell [where s = "ring_at (((buf(0 := 5))(1 := 6))(2 := 7)) 12 0 12 0 (Active Ringing sample_request 0 12 True []) Idle [5, 6, 7]" and t = "0" and ops = device_ops and rq = sample_request and base = 0 and pend = 12 and final = True] by simp
  note r7 = ring_run.run_producer [OF r6 this]
  have "producer_step device_ops 0 (ring_at (((buf(0 := 5))(1 := 6))(2 := 7)) 12 12 12 0 (Active Committing sample_request 0 12 True []) Idle [5, 6, 7])
      (ring_at (((buf(0 := 5))(1 := 6))(2 := 7)) 12 12 12 12 Idle Idle [5, 6, 7])"
    using p_commit [where s = "ring_at (((buf(0 := 5))(1 := 6))(2 := 7)) 12 12 12 0 (Active Committing sample_request 0 12 True []) Idle [5, 6, 7]" and t = "0" and ops = device_ops and rq = sample_request and base = 0 and pend = 12 and final = True] by (simp add: set_max_def)
  note r8 = ring_run.run_producer [OF r7 this]
  show ?thesis by (rule r8)
qed

lemma sample_reserve1:
  "ring_run device_ops (ring_at buf 12 12 12 12 Idle Idle [5, 6, 7])
     (ring_at buf 12 12 24 12 Idle (Active Placing sample_request 12 24 True [(3, 5), (4, 6), (5, 7)]) [5, 6, 7, 5, 6, 7])"
proof -
  have "producer_step device_ops 1 (ring_at buf 12 12 12 12 Idle Idle [5, 6, 7])
      (ring_at buf 12 12 12 12 Idle (Loading sample_request) [5, 6, 7])"
    using p_start [where s = "ring_at buf 12 12 12 12 Idle Idle [5, 6, 7]" and t = "1" and ops = device_ops and rq = sample_request] sample_plans(1) by simp
  note r1 = run_step [OF this]
  have "producer_step device_ops 1 (ring_at buf 12 12 12 12 Idle (Loading sample_request) [5, 6, 7])
      (ring_at buf 12 12 12 12 Idle (Checking sample_request 12) [5, 6, 7])"
    using p_load [where s = "ring_at buf 12 12 12 12 Idle (Loading sample_request) [5, 6, 7]" and t = "1" and ops = device_ops and rq = sample_request] by simp
  note r2 = ring_run.run_producer [OF r1 this]
  have "producer_step device_ops 1 (ring_at buf 12 12 12 12 Idle (Checking sample_request 12) [5, 6, 7])
      (ring_at buf 12 12 12 12 Idle (Reserving sample_request 12) [5, 6, 7])"
    using p_check [where s = "ring_at buf 12 12 12 12 Idle (Checking sample_request 12) [5, 6, 7]" and t = "1" and ops = device_ops and rq = sample_request and cur = 12 and ok = True and cache = None] sample_plans(3) by (simp add: check_space_def CanWriteUpto_def SDMA_QUEUE_SIZE_def set_cache_def)
  note r3 = ring_run.run_producer [OF r2 this]
  have "producer_step device_ops 1 (ring_at buf 12 12 12 12 Idle (Reserving sample_request 12) [5, 6, 7])
      (ring_at buf 12 12 24 12 Idle (Active Placing sample_request 12 24 True [(3, 5), (4, 6), (5, 7)]) [5, 6, 7, 5, 6, 7])"
    using p_cas [where s = "ring_at buf 12 12 12 12 Idle (Reserving sample_request 12) [5, 6, 7]" and t = "1" and ops = device_ops and rq = sample_request and cur = 12] sample_plans(3) by simp
  note r4 = ring_run.run_producer [OF r3 this]
  show ?thesis by (rule r4)
qed

definition sample_ring :: sdma_ring where
  "sample_ring = ring_at (((\<lambda>_. 0)(0 := 5))(1 := 6, 2 := 7)) 12 12 24 12 Idle
     (Active Placing sample_request 12 24 True [(3, 5), (4, 6), (5, 7)]) [5, 6, 7, 5, 6, 7]"

lemma sample_ring_run: "ring_run device_ops (sdma_init 0 (\<lambda>_. 0) []) sample_ring"
  unfolding ring_at_init sample_ring_def
  using run_trans [OF sample_reserve1 run_trans [OF sample_commit0 sample_reserve0]] by blast

theorem sdma_ring_refines_fifo_witness:
  "(fifo_step (accepts device_ops))\<^sup>*\<^sup>* ([], []) ([5, 6, 7, 5, 6, 7], [])"
  using sdma_ring_refines_fifo [OF _ _ sample_ring_run] by (simp add: sample_ring_def ring_at_def)

theorem sdma_no_overwrite_witness: "2 mod ring_dwords \<noteq> 3"
  using sdma_no_overwrite [OF _ _ sample_ring_run, of 1 sample_request 12 24 True 3 5 "[(4, 6), (5, 7)]" 2]
  by (simp add: sample_ring_def)

theorem sdma_submission_completes_witness:
  "\<exists>s'. ring_run device_ops sample_ring s' \<and> pc_of s' 1 = Idle \<and> fetched s' = reserved s' \<and> rptr s' = wptr s'"
  by (rule sdma_submission_completes [OF _ _ sample_ring_run]) (simp_all add: sample_ring_def size_facts)

theorem device_quiet_witness:
  "\<exists>s'. ring_run device_ops (goto 2 (Quieting 12) sample_ring) s' \<and> pc_of s' 2 = Idle"
proof -
  have "producer_step device_ops 2 sample_ring (goto 2 (Quieting 12) sample_ring)"
    using p_quiet [where s = sample_ring and t = 2 and ops = device_ops and has_state = False]
    by (simp add: sample_ring_def ring_at_def idle_with_def device_ops_def)
  from ring_run.run_producer [OF sample_ring_run this] show ?thesis
    using device_quiet [of "[]" 0 "\<lambda>_. 0" "goto 2 (Quieting 12) sample_ring" 2 12] by (simp add: sample_ring_def)
qed

theorem host_quiet_stuck_witness:
  "\<exists>s. ring_run host_ops (sdma_init 0 (\<lambda>_. 0) []) s \<and> fetched s = reserved s \<and>
     (\<forall>s'. ring_run host_ops s s' \<longrightarrow> pc_of s' 0 = Quieting 0)"
  by (rule host_quiet_stuck) (simp_all add: size_facts)

end
