(* ===== verification/Sdma_Packets.thy ===== *)
theory Sdma_Packets
  imports Sdma_Layout Sdma_Ring
begin

text \<open>
  The packets that the SDMA endpoint builds: the constructors of \<^verbatim>\<open>src/src/endpoints/sdma-ep/sdma_packets.hpp\<close> and
  \<^verbatim>\<open>sdma_device.hpp\<close>, the composite operations of the device (\<^verbatim>\<open>put_signal_counter_impl\<close> and its callers) and of the
  host handle (\<^verbatim>\<open>sdma-host-queue.hip\<close>). An operation is the list of packets it submits. A failed assertion and a
  thrown \<^verbatim>\<open>invalid_argument\<close> are error values.

  The meaning of a packet (\<open>copy_effects\<close> and the like) is the one that the comments of the packet structs
  document: counts are stored minus one, addresses in two halves, and the fused packet copies and then signals.
\<close>

datatype packet_error = Assert_failed | Invalid_argument

type_synonym 'a pres = "packet_error + 'a"

abbreviation demand :: "bool \<Rightarrow> packet_error \<Rightarrow> 'a pres \<Rightarrow> 'a pres" where
  "demand c e k \<equiv> (if c then k else Inl e)"

text \<open>The elements of a braced list, evaluated from left to right.\<close>

fun all_of :: "'a pres list \<Rightarrow> 'a list pres" where
  "all_of [] = Inr []"
| "all_of (x # xs) = (case x of Inl e \<Rightarrow> Inl e | Inr v \<Rightarrow> (case all_of xs of Inl e \<Rightarrow> Inl e | Inr vs \<Rightarrow> Inr (v # vs)))"

subsection \<open>Operation codes\<close>

definition SDMA_OP_COPY :: u32 where "SDMA_OP_COPY = 1"
definition SDMA_OP_FENCE :: u32 where "SDMA_OP_FENCE = 5"
definition SDMA_OP_POLL_REGMEM :: u32 where "SDMA_OP_POLL_REGMEM = 8"
definition SDMA_OP_TIMESTAMP :: u32 where "SDMA_OP_TIMESTAMP = 13"
definition SDMA_OP_ATOMIC :: u32 where "SDMA_OP_ATOMIC = 10"
definition SDMA_SUBOP_COPY_LINEAR :: u32 where "SDMA_SUBOP_COPY_LINEAR = 0"
definition SDMA_SUBOP_COPY_LINEAR_SUB_WINDOW :: u32 where "SDMA_SUBOP_COPY_LINEAR_SUB_WINDOW = 36"
definition SDMA_SUBOP_TIMESTAMP_GLOBAL :: u32 where "SDMA_SUBOP_TIMESTAMP_GLOBAL = 2"
definition SDMA_ATOMIC_ADD32 :: u32 where "SDMA_ATOMIC_ADD32 = 15"
definition SDMA_ATOMIC_ADD64 :: u32 where "SDMA_ATOMIC_ADD64 = 47"
definition SDMA_SIGNAL_OP_ADD64_MI4 :: u32 where "SDMA_SIGNAL_OP_ADD64_MI4 = 111"
definition SDMA_WAIT_FUNC_GEQ_MI4 :: u32 where "SDMA_WAIT_FUNC_GEQ_MI4 = 5"
definition SDMA_SUBOP_COPY_LINEAR_PHY_MI4 :: u32 where "SDMA_SUBOP_COPY_LINEAR_PHY_MI4 = 8"
definition SDMA_SUBOP_COPY_LINEAR_WAIT_SIGNAL_MI4 :: u32 where "SDMA_SUBOP_COPY_LINEAR_WAIT_SIGNAL_MI4 = 0"
definition SDMA_SUBOP_FENCE_MI4 :: u32 where "SDMA_SUBOP_FENCE_MI4 = 0"
definition SDMA_SUBOP_FENCE_64B_MI4 :: u32 where "SDMA_SUBOP_FENCE_64B_MI4 = 2"

lemmas opcode_defs = SDMA_OP_COPY_def SDMA_OP_FENCE_def SDMA_OP_POLL_REGMEM_def SDMA_OP_TIMESTAMP_def SDMA_OP_ATOMIC_def
  SDMA_SUBOP_COPY_LINEAR_def SDMA_SUBOP_COPY_LINEAR_SUB_WINDOW_def SDMA_SUBOP_TIMESTAMP_GLOBAL_def
  SDMA_ATOMIC_ADD32_def SDMA_ATOMIC_ADD64_def SDMA_SIGNAL_OP_ADD64_MI4_def SDMA_WAIT_FUNC_GEQ_MI4_def
  SDMA_SUBOP_COPY_LINEAR_PHY_MI4_def SDMA_SUBOP_COPY_LINEAR_WAIT_SIGNAL_MI4_def SDMA_SUBOP_FENCE_MI4_def SDMA_SUBOP_FENCE_64B_MI4_def

subsection \<open>Packet constructors\<close>

definition CopyLinearPacket :: "u64 \<Rightarrow> u64 \<Rightarrow> u64 \<Rightarrow> u32 list pres" where
  "CopyLinearPacket src dst sz =
     demand (src \<noteq> NULL \<and> dst \<noteq> NULL) Assert_failed (
     demand (sz > 0 \<and> sz \<le> 0x100000000) Assert_failed (
       Inr (encode SDMA_PKT_COPY_LINEAR (mk_packet
         [(0, ''op'', SDMA_OP_COPY), (0, ''sub_op'', SDMA_SUBOP_COPY_LINEAR), (1, ''count'', ucast (sz - 1)),
          (3, ''src_addr_31_0'', lo32 src), (4, ''src_addr_63_32'', hi32 src),
          (5, ''dst_addr_31_0'', lo32 dst), (6, ''dst_addr_63_32'', hi32 dst)]))))"

definition TimestampPacket :: "u64 \<Rightarrow> u32 list pres" where
  "TimestampPacket addr =
     demand (addr \<noteq> NULL) Assert_failed (
       Inr (encode SDMA_PKT_TIMESTAMP (mk_packet
         [(0, ''op'', SDMA_OP_TIMESTAMP), (0, ''sub_op'', SDMA_SUBOP_TIMESTAMP_GLOBAL),
          (1, ''addr_31_0'', lo32 addr), (2, ''addr_63_32'', hi32 addr)])))"

definition LargeSubWindowCopyPacket ::
    "u64 \<Rightarrow> u64 \<Rightarrow> u32 \<Rightarrow> u32 \<Rightarrow> u32 \<Rightarrow> u32 \<Rightarrow> u32 \<Rightarrow> u32 \<Rightarrow> u32 \<Rightarrow> u32 \<Rightarrow> u32 list pres" where
  "LargeSubWindowCopyPacket srcBuf dstBuf tile_width tile_height src_buffer_pitch dst_buffer_pitch src_x src_y dst_x dst_y =
     demand (srcBuf \<noteq> NULL \<and> dstBuf \<noteq> NULL) Assert_failed (
     demand (tile_width > 0 \<and> tile_height > 0) Assert_failed (
       Inr (encode SDMA_PKT_LINEAR_LARGE_SUB_WINDOW_COPY (mk_packet
         [(0, ''op'', SDMA_OP_COPY), (0, ''sub_op'', SDMA_SUBOP_COPY_LINEAR_SUB_WINDOW),
          (1, ''src_base_addr_31_0'', lo32 srcBuf), (2, ''src_base_addr_63_32'', hi32 srcBuf),
          (3, ''src_x'', src_x), (4, ''src_y'', src_y), (5, ''src_z'', 0), (6, ''src_pitch'', src_buffer_pitch - 1),
          (7, ''src_slice_pitch_31_0'', 0), (8, ''src_slice_pitch_47_32'', 0),
          (9, ''dst_data_31_0'', lo32 dstBuf), (10, ''src_data_63_32'', hi32 dstBuf),
          (11, ''dst_x'', dst_x), (12, ''dst_y'', dst_y), (13, ''dst_z'', 0), (14, ''dst_pitch'', dst_buffer_pitch - 1),
          (15, ''dst_slice_pitch_31_0'', 0), (16, ''dst_slice_pitch_47_32'', 0),
          (17, ''rect_x'', tile_width - 1), (18, ''rect_y'', tile_height - 1), (19, ''rect_z'', 0)]))))"

text \<open>The template is used at 32 and at 64 bits; \<open>wide\<close> is \<^verbatim>\<open>sizeof(T) == 8\<close>, and a 32-bit value is zero-extended.\<close>

definition AtomicAddPacket :: "bool \<Rightarrow> u64 \<Rightarrow> u64 \<Rightarrow> u32 list pres" where
  "AtomicAddPacket wide p delta =
     demand (p \<noteq> NULL) Assert_failed (
       Inr (encode SDMA_PKT_ATOMIC (mk_packet
         [(0, ''op'', SDMA_OP_ATOMIC), (0, ''operation'', if wide then SDMA_ATOMIC_ADD64 else SDMA_ATOMIC_ADD32),
          (1, ''addr_31_0'', lo32 p), (2, ''addr_63_32'', hi32 p),
          (3, ''src_data_31_0'', lo32 delta), (4, ''src_data_63_32'', hi32 delta)])))"

definition PollRegmemPacket :: "u64 \<Rightarrow> u32 \<Rightarrow> u32 \<Rightarrow> u32 \<Rightarrow> u32 list pres" where
  "PollRegmemPacket flag_ptr expected_value interval retry_count =
     demand (flag_ptr \<noteq> NULL) Assert_failed (
       Inr (encode SDMA_PKT_POLL_REGMEM (mk_packet
         [(0, ''op'', SDMA_OP_POLL_REGMEM), (0, ''func'', 5), (0, ''mem_poll'', 1),
          (1, ''addr_31_0'', lo32 flag_ptr), (2, ''addr_63_32'', hi32 flag_ptr), (3, ''value'', expected_value),
          (4, ''mask'', 0xFFFFFFFF), (5, ''interval'', interval), (5, ''retry_count'', retry_count)])))"

subsection \<open>Device constructors\<close>

text \<open>Sizes are \<^verbatim>\<open>long long\<close> here.\<close>

definition CreateCopyPacket :: "u64 \<Rightarrow> u64 \<Rightarrow> int \<Rightarrow> u32 list pres" where
  "CreateCopyPacket srcBuf dstBuf packetSize =
     demand (packetSize > 0) Assert_failed (
     demand (packetSize \<le> 0xFFFFFFFF) Assert_failed (CopyLinearPacket srcBuf dstBuf (word_of_int packetSize)))"

definition CreateLargeSubWindowCopyPacket ::
    "u64 \<Rightarrow> u64 \<Rightarrow> u32 \<Rightarrow> u32 \<Rightarrow> u32 \<Rightarrow> u32 \<Rightarrow> u32 \<Rightarrow> u32 \<Rightarrow> u32 \<Rightarrow> u32 \<Rightarrow> u32 list pres" where
  "CreateLargeSubWindowCopyPacket = LargeSubWindowCopyPacket"

definition CreateAtomicIncPacket :: "u64 \<Rightarrow> u32 list pres" where
  "CreateAtomicIncPacket addr = AtomicAddPacket True addr 1"

definition CreateTimestampPacket :: "u64 \<Rightarrow> u32 list pres" where
  "CreateTimestampPacket addr = TimestampPacket addr"

definition CreatePollPacket :: "u64 \<Rightarrow> u32 \<Rightarrow> u32 list pres" where
  "CreatePollPacket addr expected = PollRegmemPacket addr expected 10 0xFFF"

definition CreateFencePacket :: "u64 \<Rightarrow> u32 \<Rightarrow> u32 list" where
  "CreateFencePacket address dat =
     encode SDMA_PKT_FENCE (mk_packet
       [(0, ''op'', SDMA_OP_FENCE), (1, ''addr_31_0'', lo32 address), (2, ''addr_63_32'', hi32 address), (3, ''data'', dat)])"

definition wait_signal_fields ::
    "u64 \<Rightarrow> u64 \<Rightarrow> int \<Rightarrow> u64 \<Rightarrow> u64 \<Rightarrow> bool \<Rightarrow> u64 \<Rightarrow> u64 \<Rightarrow> u64 \<Rightarrow> (nat \<times> string \<times> u32) list" where
  "wait_signal_fields srcBuf dstBuf packetSize signalAddr signalData waiting waitAddr waitRef waitMask =
     [(0, ''op'', SDMA_OP_COPY), (0, ''subop'', SDMA_SUBOP_COPY_LINEAR_WAIT_SIGNAL_MI4),
      (0, ''signal'', if signalAddr \<noteq> NULL then 1 else 0), (0, ''wait'', if waiting then 1 else 0)] @
     (if waiting then
        [(1, ''wait_function'', SDMA_WAIT_FUNC_GEQ_MI4),
         (2, ''wait_addr_31_3'', ucast (drop_bit 3 waitAddr)), (3, ''wait_addr_63_32'', hi32 waitAddr),
         (4, ''wait_reference_31_0'', lo32 waitRef), (5, ''wait_reference_63_32'', hi32 waitRef),
         (6, ''wait_mask_31_0'', lo32 waitMask), (7, ''wait_mask_63_32'', hi32 waitMask)] else []) @
     [(8, ''copy_count'', word_of_int (packetSize - 1)),
      (10, ''src_addr_31_0'', lo32 srcBuf), (11, ''src_addr_63_32'', hi32 srcBuf),
      (12, ''dst_addr_31_0'', lo32 dstBuf), (13, ''dst_addr_63_32'', hi32 dstBuf)] @
     (if signalAddr \<noteq> NULL then
        [(14, ''signal_operation'', SDMA_SIGNAL_OP_ADD64_MI4),
         (15, ''signal_addr_31_3'', ucast (drop_bit 3 signalAddr)), (16, ''signal_addr_63_32'', hi32 signalAddr),
         (17, ''signal_data_31_0'', lo32 signalData), (18, ''signal_data_63_32'', hi32 signalData)] else [])"

definition CreateCopyWaitSignalPacketMI4 ::
    "u64 \<Rightarrow> u64 \<Rightarrow> int \<Rightarrow> u64 \<Rightarrow> u64 \<Rightarrow> bool \<Rightarrow> u64 \<Rightarrow> u64 \<Rightarrow> u64 \<Rightarrow> u32 list pres" where
  "CreateCopyWaitSignalPacketMI4 srcBuf dstBuf packetSize signalAddr signalData enableWait waitAddr waitRef waitMask =
     demand (packetSize > 0) Assert_failed (
     demand (packetSize \<le> 0x40000000) Assert_failed (
       Inr (encode SDMA_PKT_COPY_LINEAR_WAIT_SIGNAL_MI4 (mk_packet
         (wait_signal_fields srcBuf dstBuf packetSize signalAddr signalData (enableWait \<and> waitAddr \<noteq> NULL)
            waitAddr waitRef waitMask)))))"

definition CreateCopyPacketMI4 :: "u64 \<Rightarrow> u64 \<Rightarrow> int \<Rightarrow> u32 list pres" where
  "CreateCopyPacketMI4 srcBuf dstBuf packetSize =
     demand (packetSize > 0) Assert_failed (
     demand (packetSize \<le> 0x400000) Assert_failed (
       Inr (encode SDMA_PKT_COPY_LINEAR_PHY_MI4 (mk_packet
         [(0, ''op_code'', SDMA_OP_COPY), (0, ''sub_op_code'', SDMA_SUBOP_COPY_LINEAR_PHY_MI4),
          (1, ''count'', word_of_int (packetSize - 1)),
          (4, ''src_address_lo'', lo32 srcBuf), (5, ''src_address_hi'', hi32 srcBuf),
          (6, ''dst_address_lo'', lo32 dstBuf), (7, ''dst_address_hi'', hi32 dstBuf)]))))"

definition CreateFencePacketMI4 :: "u64 \<Rightarrow> u32 \<Rightarrow> u32 list" where
  "CreateFencePacketMI4 address dat =
     encode SDMA_PKT_FENCE_MI4 (mk_packet
       [(0, ''op_code'', SDMA_OP_FENCE), (0, ''sub_op_code'', SDMA_SUBOP_FENCE_MI4),
        (1, ''fence_addr_lo'', lo32 address), (2, ''fence_addr_hi'', hi32 address), (3, ''data'', dat)])"

definition CreateFence64BPacketMI4 :: "u64 \<Rightarrow> u64 \<Rightarrow> u32 list" where
  "CreateFence64BPacketMI4 address dat =
     encode SDMA_PKT_FENCE_64B_MI4 (mk_packet
       [(0, ''op'', SDMA_OP_FENCE), (0, ''subop'', SDMA_SUBOP_FENCE_64B_MI4),
        (1, ''addr_31_3'', ucast (drop_bit 3 address)), (2, ''addr_63_32'', hi32 address),
        (3, ''data_31_0'', lo32 dat), (4, ''data_63_32'', hi32 dat)])"

subsection \<open>Device operations\<close>

text \<open>
  The packets of \<^verbatim>\<open>put_signal_counter_impl\<close>. The three switches are template parameters; \<open>oss7\<close> is the build
  option \<^verbatim>\<open>XIO_SDMA_OSS7\<close>. The size is converted to \<^verbatim>\<open>long long\<close> at the call of the constructor.
\<close>

definition put_signal_counter_impl ::
    "bool \<Rightarrow> bool \<Rightarrow> bool \<Rightarrow> bool \<Rightarrow> u64 \<Rightarrow> u64 \<Rightarrow> u64 \<Rightarrow> u64 \<Rightarrow> u64 \<Rightarrow> u32 list list pres" where
  "put_signal_counter_impl oss7 PUT_EN SIGNAL_EN COUNTER_EN dst src sz sig cnt =
     (if oss7 \<and> PUT_EN \<and> (SIGNAL_EN \<or> COUNTER_EN)
      then all_of (
        [CreateCopyWaitSignalPacketMI4 src dst (sint sz) (if SIGNAL_EN then sig else cnt) 1 False NULL 0 0] @
        (if SIGNAL_EN \<and> COUNTER_EN then [CreateAtomicIncPacket cnt] else []))
      else all_of (
        (if PUT_EN then [CreateCopyPacket src dst (sint sz)] else []) @
        (if SIGNAL_EN then [CreateAtomicIncPacket sig] else []) @
        (if COUNTER_EN then [CreateAtomicIncPacket cnt] else [])))"

definition space_required :: "bool \<Rightarrow> bool \<Rightarrow> bool \<Rightarrow> bool \<Rightarrow> nat" where
  "space_required oss7 PUT_EN SIGNAL_EN COUNTER_EN =
     (if oss7 \<and> PUT_EN \<and> (SIGNAL_EN \<or> COUNTER_EN)
      then 4 * length SDMA_PKT_COPY_LINEAR_WAIT_SIGNAL_MI4 +
           (if SIGNAL_EN \<and> COUNTER_EN then 4 * length SDMA_PKT_ATOMIC else 0)
      else (if PUT_EN then 4 * length SDMA_PKT_COPY_LINEAR else 0) +
           (if SIGNAL_EN then 4 * length SDMA_PKT_ATOMIC else 0) +
           (if COUNTER_EN then 4 * length SDMA_PKT_ATOMIC else 0))"

definition sdma_put :: "bool \<Rightarrow> u64 \<Rightarrow> u64 \<Rightarrow> u64 \<Rightarrow> u32 list list pres" where
  "sdma_put oss7 dst src sz = put_signal_counter_impl oss7 True False False dst src sz NULL NULL"

definition sdma_putTile ::
    "u64 \<Rightarrow> u64 \<Rightarrow> u32 \<Rightarrow> u32 \<Rightarrow> u32 \<Rightarrow> u32 \<Rightarrow> u32 \<Rightarrow> u32 \<Rightarrow> u32 \<Rightarrow> u32 \<Rightarrow> u32 list list pres" where
  "sdma_putTile dst src tileWidth tileHeight srcPitch dstPitch srcX srcY dstX dstY =
     all_of [CreateLargeSubWindowCopyPacket src dst tileWidth tileHeight srcPitch dstPitch srcX srcY dstX dstY]"

definition sdma_signal :: "bool \<Rightarrow> u64 \<Rightarrow> u32 list list pres" where
  "sdma_signal oss7 sig = put_signal_counter_impl oss7 False True False NULL NULL 0 sig NULL"

definition sdma_putSignal :: "bool \<Rightarrow> u64 \<Rightarrow> u64 \<Rightarrow> u64 \<Rightarrow> u64 \<Rightarrow> u32 list list pres" where
  "sdma_putSignal oss7 dst src sz sig = put_signal_counter_impl oss7 True True False dst src sz sig NULL"

definition sdma_putSignalCounter :: "bool \<Rightarrow> u64 \<Rightarrow> u64 \<Rightarrow> u64 \<Rightarrow> u64 \<Rightarrow> u64 \<Rightarrow> u32 list list pres" where
  "sdma_putSignalCounter oss7 dst src sz sig cnt = put_signal_counter_impl oss7 True True True dst src sz sig cnt"

definition sdma_putCounter :: "bool \<Rightarrow> u64 \<Rightarrow> u64 \<Rightarrow> u64 \<Rightarrow> u64 \<Rightarrow> u32 list list pres" where
  "sdma_putCounter oss7 dst src sz cnt = put_signal_counter_impl oss7 True False True dst src sz NULL cnt"

definition sdma_signalCounter :: "bool \<Rightarrow> u64 \<Rightarrow> u64 \<Rightarrow> u32 list list pres" where
  "sdma_signalCounter oss7 sig cnt = put_signal_counter_impl oss7 False True True NULL NULL 0 sig cnt"

subsection \<open>Host operations\<close>

definition kMaxSdmaDword :: u64 where
  "kMaxSdmaDword = 0xFFFFFFFF"

definition kMaxLinearSize :: u64 where
  "kMaxLinearSize = 0x100000000"

definition validate_linear_args :: "u64 \<Rightarrow> u64 \<Rightarrow> u64 \<Rightarrow> unit pres" where
  "validate_linear_args src dst sz =
     demand (src \<noteq> NULL \<and> dst \<noteq> NULL \<and> sz \<noteq> 0) Invalid_argument (demand (sz \<le> kMaxLinearSize) Invalid_argument (Inr ()))"

definition build_tile_packet :: "u64 \<Rightarrow> u64 \<Rightarrow> u64 \<Rightarrow> u64 \<Rightarrow> u64 \<Rightarrow> u64 \<Rightarrow> u64 \<Rightarrow> u32 list pres" where
  "build_tile_packet src_ptr dst_ptr data_size tile_height tile_width src_stride dst_stride =
     demand (src_ptr \<noteq> NULL \<and> dst_ptr \<noteq> NULL \<and> data_size \<noteq> 0 \<and> tile_height \<noteq> 0 \<and> tile_width \<noteq> 0) Invalid_argument (
     demand (\<not> (src_stride < tile_width \<or> dst_stride < tile_width)) Invalid_argument (
     demand (\<not> (data_size > kMaxSdmaDword \<or> tile_width > kMaxSdmaDword div data_size \<or>
                 src_stride > kMaxSdmaDword div data_size \<or> dst_stride > kMaxSdmaDword div data_size)) Invalid_argument (
     let tile_width_bytes = tile_width * data_size; src_pitch = src_stride * data_size; dst_pitch = dst_stride * data_size
     in demand (\<not> (tile_width_bytes > kMaxSdmaDword \<or> tile_height > kMaxSdmaDword \<or> src_pitch = 0 \<or>
                    src_pitch > kMaxSdmaDword \<or> dst_pitch = 0 \<or> dst_pitch > kMaxSdmaDword)) Invalid_argument (
          LargeSubWindowCopyPacket src_ptr dst_ptr (ucast tile_width_bytes) (ucast tile_height) (ucast src_pitch)
            (ucast dst_pitch) 0 0 0 0))))"

definition build_atomic_packet :: "bool \<Rightarrow> u64 \<Rightarrow> u64 \<Rightarrow> u32 list pres" where
  "build_atomic_packet wide p val = demand (p \<noteq> NULL) Invalid_argument (AtomicAddPacket wide p val)"

definition build_poll_packet :: "u64 \<Rightarrow> u32 \<Rightarrow> u32 list pres" where
  "build_poll_packet p expected = demand (p \<noteq> NULL) Invalid_argument (PollRegmemPacket p expected 10 0xFFF)"

text \<open>\<^verbatim>\<open>submit\<close>: the batch that goes to the ring; an empty one is not submitted.\<close>

definition host_submit :: "u32 list list pres \<Rightarrow> u32 list list pres" where
  "host_submit r = (case r of Inl e \<Rightarrow> Inl e
     | Inr ps \<Rightarrow> demand (ps = [] \<or> packets_bytes ps \<le> kMaxSubmitBytes) Invalid_argument (Inr ps))"

definition after_linear :: "u64 \<Rightarrow> u64 \<Rightarrow> u64 \<Rightarrow> u32 list list pres \<Rightarrow> u32 list list pres" where
  "after_linear src dst sz k = (case validate_linear_args src dst sz of Inl e \<Rightarrow> Inl e | Inr _ \<Rightarrow> k)"

definition host_put :: "u64 \<Rightarrow> u64 \<Rightarrow> u64 \<Rightarrow> u32 list list pres" where
  "host_put dst src sz = after_linear src dst sz (host_submit (all_of [CopyLinearPacket src dst sz]))"

definition host_signal :: "bool \<Rightarrow> u64 \<Rightarrow> u64 \<Rightarrow> u32 list list pres" where
  "host_signal wide p val = host_submit (all_of [build_atomic_packet wide p val])"

definition host_timestamp :: "u64 \<Rightarrow> u32 list list pres" where
  "host_timestamp p = demand (p \<noteq> NULL) Invalid_argument (host_submit (all_of [TimestampPacket p]))"

definition host_put_signal :: "bool \<Rightarrow> u64 \<Rightarrow> u64 \<Rightarrow> u64 \<Rightarrow> u64 \<Rightarrow> u64 \<Rightarrow> u32 list list pres" where
  "host_put_signal wide dst src sz flag_ptr flag_value =
     after_linear src dst sz (host_submit (all_of [CopyLinearPacket src dst sz, build_atomic_packet wide flag_ptr flag_value]))"

text \<open>A tile: destination, source, height, width and the two strides.\<close>

type_synonym tile = "u64 \<times> u64 \<times> u64 \<times> u64 \<times> u64 \<times> u64"

definition tile_packet :: "u64 \<Rightarrow> tile \<Rightarrow> u32 list pres" where
  "tile_packet data_size = (\<lambda>(dst, src, h, w, ss, ds). build_tile_packet src dst data_size h w ss ds)"

definition host_put_tile :: "u64 \<Rightarrow> tile \<Rightarrow> u32 list list pres" where
  "host_put_tile data_size tile = host_submit (all_of [tile_packet data_size tile])"

text \<open>The six vectors of the calls on many tiles, which must have the same length.\<close>

record tile_vectors =
  dst_ptrs :: "u64 list"
  src_ptrs :: "u64 list"
  tile_heights :: "u64 list"
  tile_widths :: "u64 list"
  src_strides :: "u64 list"
  dst_strides :: "u64 list"

definition same_size :: "tile_vectors \<Rightarrow> bool" where
  "same_size v \<longleftrightarrow> length (src_ptrs v) = length (dst_ptrs v) \<and> length (src_ptrs v) = length (tile_heights v) \<and>
     length (src_ptrs v) = length (tile_widths v) \<and> length (src_ptrs v) = length (src_strides v) \<and>
     length (src_ptrs v) = length (dst_strides v)"

definition tiles_of :: "tile_vectors \<Rightarrow> tile list" where
  "tiles_of v = map (\<lambda>i. (dst_ptrs v ! i, src_ptrs v ! i, tile_heights v ! i, tile_widths v ! i, src_strides v ! i, dst_strides v ! i))
     [0..<length (src_ptrs v)]"

definition host_put_tiles :: "u64 \<Rightarrow> tile_vectors \<Rightarrow> u32 list list pres" where
  "host_put_tiles data_size v =
     demand (same_size v) Invalid_argument (
       if src_ptrs v = [] then Inr [] else host_submit (all_of (map (tile_packet data_size) (tiles_of v))))"

definition host_put_tile_signal :: "bool \<Rightarrow> u64 \<Rightarrow> tile \<Rightarrow> u64 \<Rightarrow> u64 \<Rightarrow> u32 list list pres" where
  "host_put_tile_signal wide data_size tile flag_ptr flag_value =
     host_submit (all_of [tile_packet data_size tile, build_atomic_packet wide flag_ptr flag_value])"

definition host_put_tiles_signal :: "bool \<Rightarrow> u64 \<Rightarrow> tile_vectors \<Rightarrow> u64 \<Rightarrow> u64 \<Rightarrow> u32 list list pres" where
  "host_put_tiles_signal wide data_size v flag_ptr flag_value =
     demand (same_size v) Invalid_argument (
       if src_ptrs v = [] then Inr []
       else host_submit (all_of (map (tile_packet data_size) (tiles_of v) @ [build_atomic_packet wide flag_ptr flag_value])))"

definition host_wait_flag_then_put :: "u64 \<Rightarrow> u32 \<Rightarrow> u64 \<Rightarrow> u64 \<Rightarrow> u64 \<Rightarrow> u32 list list pres" where
  "host_wait_flag_then_put flag_ptr expected dst src sz =
     after_linear src dst sz (host_submit (all_of [build_poll_packet flag_ptr expected, CopyLinearPacket src dst sz]))"

definition host_wait_flag_then_put_tile :: "u64 \<Rightarrow> u32 \<Rightarrow> u64 \<Rightarrow> tile \<Rightarrow> u32 list list pres" where
  "host_wait_flag_then_put_tile flag_ptr expected data_size tile =
     host_submit (all_of [build_poll_packet flag_ptr expected, tile_packet data_size tile])"

definition host_wait_flag_then_put_tiles :: "u64 \<Rightarrow> u32 \<Rightarrow> u64 \<Rightarrow> tile_vectors \<Rightarrow> u32 list list pres" where
  "host_wait_flag_then_put_tiles flag_ptr expected data_size v =
     demand (src_ptrs v \<noteq> [] \<and> same_size v) Invalid_argument (
       host_submit (all_of (build_poll_packet flag_ptr expected # map (tile_packet data_size) (tiles_of v))))"

subsection \<open>Queue dump\<close>

datatype dump_entry = Dump_copy | Dump_copy_phy | Dump_wait_signal | Dump_atomic | Dump_fence | Dump_word u32

definition dump_kind :: "bool \<Rightarrow> u32 \<Rightarrow> dump_entry \<times> nat" where
  "dump_kind oss7 w =
     (let opcode = w AND 0xFF; subop = drop_bit 8 w AND 0xFF
      in if opcode = SDMA_OP_COPY then
           if oss7 \<and> subop = SDMA_SUBOP_COPY_LINEAR_PHY_MI4 then (Dump_copy_phy, length SDMA_PKT_COPY_LINEAR_PHY_MI4)
           else if oss7 \<and> subop = SDMA_SUBOP_COPY_LINEAR_WAIT_SIGNAL_MI4
           then (Dump_wait_signal, length SDMA_PKT_COPY_LINEAR_WAIT_SIGNAL_MI4)
           else (Dump_copy, length SDMA_PKT_COPY_LINEAR)
         else if opcode = SDMA_OP_ATOMIC then (Dump_atomic, length SDMA_PKT_ATOMIC)
         else if oss7 \<and> opcode = SDMA_OP_FENCE \<and> subop = SDMA_SUBOP_FENCE_MI4 then (Dump_fence, length SDMA_PKT_FENCE_MI4)
         else (Dump_word w, 1))"

lemma dump_kind_pos: "0 < snd (dump_kind oss7 w)"
  by (simp add: dump_kind_def Let_def SDMA_PKT_COPY_LINEAR_PHY_MI4_def SDMA_PKT_COPY_LINEAR_WAIT_SIGNAL_MI4_def
      SDMA_PKT_COPY_LINEAR_def SDMA_PKT_ATOMIC_def SDMA_PKT_FENCE_MI4_def)

function dump_from :: "bool \<Rightarrow> (nat \<Rightarrow> u32) \<Rightarrow> nat \<Rightarrow> nat \<Rightarrow> (nat \<times> dump_entry) list" where
  "dump_from oss7 buf n it =
     (if it < n then (it, fst (dump_kind oss7 (buf it))) # dump_from oss7 buf n (it + snd (dump_kind oss7 (buf it))) else [])"
  by pat_completeness auto
termination
  by (relation "measure (\<lambda>(_, _, n, it). n - it)") (use dump_kind_pos in \<open>auto intro: diff_less_mono2\<close>)

declare dump_from.simps [simp del]

definition sdma_dump :: "bool \<Rightarrow> sdma_ring \<Rightarrow> (nat \<times> dump_entry) list" where
  "sdma_dump oss7 s = dump_from oss7 (queueBuf s) (unat (min (wptr s) SDMA_QUEUE_SIZE) div 4) 0"

subsection \<open>What the engine does with a packet\<close>

datatype sdma_effect =
    Copied u64 u64 nat
  | Window_copied u64 u64 nat nat nat nat
  | Added64 u64 u64
  | Added32 u64 u32
  | Waited_geq u64 u64 u64
  | Stamped u64
  | Stored u64 u32

definition copy_effects :: "u32 list \<Rightarrow> sdma_effect list" where
  "copy_effects p =
     (let g = get_field SDMA_PKT_COPY_LINEAR p
      in [Copied (join32 (g 3 ''src_addr_31_0'') (g 4 ''src_addr_63_32''))
            (join32 (g 5 ''dst_addr_31_0'') (g 6 ''dst_addr_63_32'')) (Suc (unat (g 1 ''count'')))])"

definition window_effects :: "u32 list \<Rightarrow> sdma_effect list" where
  "window_effects p =
     (let g = get_field SDMA_PKT_LINEAR_LARGE_SUB_WINDOW_COPY p
      in [Window_copied (join32 (g 1 ''src_base_addr_31_0'') (g 2 ''src_base_addr_63_32''))
            (join32 (g 9 ''dst_data_31_0'') (g 10 ''src_data_63_32''))
            (Suc (unat (g 17 ''rect_x''))) (Suc (unat (g 18 ''rect_y'')))
            (Suc (unat (g 6 ''src_pitch''))) (Suc (unat (g 14 ''dst_pitch'')))])"

definition atomic_effects :: "u32 list \<Rightarrow> sdma_effect list" where
  "atomic_effects p =
     (let g = get_field SDMA_PKT_ATOMIC p; addr = join32 (g 1 ''addr_31_0'') (g 2 ''addr_63_32'')
      in if g 0 ''operation'' = SDMA_ATOMIC_ADD64 then [Added64 addr (join32 (g 3 ''src_data_31_0'') (g 4 ''src_data_63_32''))]
         else if g 0 ''operation'' = SDMA_ATOMIC_ADD32 then [Added32 addr (g 3 ''src_data_31_0'')] else [])"

definition fused_effects :: "u32 list \<Rightarrow> sdma_effect list" where
  "fused_effects p =
     (let g = get_field SDMA_PKT_COPY_LINEAR_WAIT_SIGNAL_MI4 p
      in (if g 0 ''wait'' = 1
          then [Waited_geq (join32 (push_bit 3 (g 2 ''wait_addr_31_3'')) (g 3 ''wait_addr_63_32''))
                  (join32 (g 4 ''wait_reference_31_0'') (g 5 ''wait_reference_63_32''))
                  (join32 (g 6 ''wait_mask_31_0'') (g 7 ''wait_mask_63_32''))] else []) @
         [Copied (join32 (g 10 ''src_addr_31_0'') (g 11 ''src_addr_63_32''))
            (join32 (g 12 ''dst_addr_31_0'') (g 13 ''dst_addr_63_32'')) (Suc (unat (g 8 ''copy_count'')))] @
         (if g 0 ''signal'' = 1 \<and> g 14 ''signal_operation'' = SDMA_SIGNAL_OP_ADD64_MI4
          then [Added64 (join32 (push_bit 3 (g 15 ''signal_addr_31_3'')) (g 16 ''signal_addr_63_32''))
                  (join32 (g 17 ''signal_data_31_0'') (g 18 ''signal_data_63_32''))] else []))"

text \<open>The packets of one operation are told apart by their operation code and length.\<close>

definition packet_effects :: "u32 list \<Rightarrow> sdma_effect list" where
  "packet_effects p =
     (if hd p AND 0xFF = SDMA_OP_ATOMIC then atomic_effects p
      else if hd p AND 0xFF \<noteq> SDMA_OP_COPY then []
      else if length p = length SDMA_PKT_COPY_LINEAR_WAIT_SIGNAL_MI4 then fused_effects p
      else if length p = length SDMA_PKT_COPY_LINEAR then copy_effects p else window_effects p)"

subsection \<open>Reading packets back\<close>

lemma layouts_ok:
  "layout_ok SDMA_PKT_COPY_LINEAR" "layout_ok SDMA_PKT_ATOMIC" "layout_ok SDMA_PKT_COPY_LINEAR_WAIT_SIGNAL_MI4"
  "layout_ok SDMA_PKT_LINEAR_LARGE_SUB_WINDOW_COPY" "layout_ok SDMA_PKT_TIMESTAMP" "layout_ok SDMA_PKT_POLL_REGMEM"
  by code_simp+

lemma packet_lengths:
  "length SDMA_PKT_COPY_LINEAR = 7" "length SDMA_PKT_ATOMIC = 8" "length SDMA_PKT_COPY_LINEAR_WAIT_SIGNAL_MI4 = 19"
  "length SDMA_PKT_LINEAR_LARGE_SUB_WINDOW_COPY = 20" "length SDMA_PKT_TIMESTAMP = 3" "length SDMA_PKT_POLL_REGMEM = 6"
  by code_simp+

text \<open>The operation codes are the low two bytes of every packet.\<close>

lemma header_codes:
  assumes "lay = ((n, 8) # (m, 8) # fs) # rest"
  shows "hd (encode lay p) AND 0xFF = take_bit 8 (p 0 n)" "drop_bit 8 (hd (encode lay p)) AND 0xFF = take_bit 8 (p 0 m)"
proof -
  have e: "hd (encode lay p) = take_bit 8 (p 0 n) OR push_bit 8 (take_bit 8 (p 0 m) OR push_bit 8 (pack fs (p 0)))"
    by (simp add: encode_def assms)
  have m: "(0xFF :: u32) = mask 8" by (simp add: mask_eq_exp_minus_1)
  show "hd (encode lay p) AND 0xFF = take_bit 8 (p 0 n)"
    unfolding e m by (rule bit_word_eqI) (auto simp: bit_simps)
  show "drop_bit 8 (hd (encode lay p)) AND 0xFF = take_bit 8 (p 0 m)"
    unfolding e m by (rule bit_word_eqI) (auto simp: bit_simps)
qed

lemmas packet_eval = mk_packet_def set_field_def zero_packet_def

definition field_width :: "packet_layout \<Rightarrow> nat \<Rightarrow> string \<Rightarrow> nat option" where
  "field_width lay d f = (if d < length lay then map_option snd (field_pos (lay ! d) f) else None)"

lemma get_field_width:
  assumes "layout_ok lay" and "field_width lay d f = Some w"
  shows "get_field lay (encode lay p) d f = take_bit w (p d f)"
  using assms(2) get_field_encode [OF assms(1)] by (auto simp: field_width_def split: if_splits)

lemma take_32 [simp]: "take_bit 32 (x :: u32) = x"
  by (rule bit_word_eqI) (simp add: bit_simps)

lemma copy_widths:
  "field_width SDMA_PKT_COPY_LINEAR 1 ''count'' = Some 30"
  "field_width SDMA_PKT_COPY_LINEAR 3 ''src_addr_31_0'' = Some 32"
  "field_width SDMA_PKT_COPY_LINEAR 4 ''src_addr_63_32'' = Some 32"
  "field_width SDMA_PKT_COPY_LINEAR 5 ''dst_addr_31_0'' = Some 32"
  "field_width SDMA_PKT_COPY_LINEAR 6 ''dst_addr_63_32'' = Some 32"
  by code_simp+

lemma atomic_widths:
  "field_width SDMA_PKT_ATOMIC 0 ''operation'' = Some 7"
  "field_width SDMA_PKT_ATOMIC 1 ''addr_31_0'' = Some 32"
  "field_width SDMA_PKT_ATOMIC 2 ''addr_63_32'' = Some 32"
  "field_width SDMA_PKT_ATOMIC 3 ''src_data_31_0'' = Some 32"
  "field_width SDMA_PKT_ATOMIC 4 ''src_data_63_32'' = Some 32"
  by code_simp+

lemma fused_widths:
  "field_width SDMA_PKT_COPY_LINEAR_WAIT_SIGNAL_MI4 0 ''wait'' = Some 1"
  "field_width SDMA_PKT_COPY_LINEAR_WAIT_SIGNAL_MI4 0 ''signal'' = Some 1"
  "field_width SDMA_PKT_COPY_LINEAR_WAIT_SIGNAL_MI4 2 ''wait_addr_31_3'' = Some 29"
  "field_width SDMA_PKT_COPY_LINEAR_WAIT_SIGNAL_MI4 3 ''wait_addr_63_32'' = Some 32"
  "field_width SDMA_PKT_COPY_LINEAR_WAIT_SIGNAL_MI4 4 ''wait_reference_31_0'' = Some 32"
  "field_width SDMA_PKT_COPY_LINEAR_WAIT_SIGNAL_MI4 5 ''wait_reference_63_32'' = Some 32"
  "field_width SDMA_PKT_COPY_LINEAR_WAIT_SIGNAL_MI4 6 ''wait_mask_31_0'' = Some 32"
  "field_width SDMA_PKT_COPY_LINEAR_WAIT_SIGNAL_MI4 7 ''wait_mask_63_32'' = Some 32"
  "field_width SDMA_PKT_COPY_LINEAR_WAIT_SIGNAL_MI4 8 ''copy_count'' = Some 30"
  "field_width SDMA_PKT_COPY_LINEAR_WAIT_SIGNAL_MI4 10 ''src_addr_31_0'' = Some 32"
  "field_width SDMA_PKT_COPY_LINEAR_WAIT_SIGNAL_MI4 11 ''src_addr_63_32'' = Some 32"
  "field_width SDMA_PKT_COPY_LINEAR_WAIT_SIGNAL_MI4 12 ''dst_addr_31_0'' = Some 32"
  "field_width SDMA_PKT_COPY_LINEAR_WAIT_SIGNAL_MI4 13 ''dst_addr_63_32'' = Some 32"
  "field_width SDMA_PKT_COPY_LINEAR_WAIT_SIGNAL_MI4 14 ''signal_operation'' = Some 7"
  "field_width SDMA_PKT_COPY_LINEAR_WAIT_SIGNAL_MI4 15 ''signal_addr_31_3'' = Some 29"
  "field_width SDMA_PKT_COPY_LINEAR_WAIT_SIGNAL_MI4 16 ''signal_addr_63_32'' = Some 32"
  "field_width SDMA_PKT_COPY_LINEAR_WAIT_SIGNAL_MI4 17 ''signal_data_31_0'' = Some 32"
  "field_width SDMA_PKT_COPY_LINEAR_WAIT_SIGNAL_MI4 18 ''signal_data_63_32'' = Some 32"
  by code_simp+

lemma window_widths:
  "field_width SDMA_PKT_LINEAR_LARGE_SUB_WINDOW_COPY 1 ''src_base_addr_31_0'' = Some 32"
  "field_width SDMA_PKT_LINEAR_LARGE_SUB_WINDOW_COPY 2 ''src_base_addr_63_32'' = Some 32"
  "field_width SDMA_PKT_LINEAR_LARGE_SUB_WINDOW_COPY 6 ''src_pitch'' = Some 32"
  "field_width SDMA_PKT_LINEAR_LARGE_SUB_WINDOW_COPY 9 ''dst_data_31_0'' = Some 32"
  "field_width SDMA_PKT_LINEAR_LARGE_SUB_WINDOW_COPY 10 ''src_data_63_32'' = Some 32"
  "field_width SDMA_PKT_LINEAR_LARGE_SUB_WINDOW_COPY 14 ''dst_pitch'' = Some 32"
  "field_width SDMA_PKT_LINEAR_LARGE_SUB_WINDOW_COPY 17 ''rect_x'' = Some 32"
  "field_width SDMA_PKT_LINEAR_LARGE_SUB_WINDOW_COPY 18 ''rect_y'' = Some 32"
  by code_simp+

lemmas copy_fields = copy_widths [THEN get_field_width [OF layouts_ok(1)], unfolded One_nat_def]
lemmas atomic_fields = atomic_widths [THEN get_field_width [OF layouts_ok(2)], unfolded One_nat_def]
lemmas fused_fields = fused_widths [THEN get_field_width [OF layouts_ok(3)], unfolded One_nat_def]
lemmas window_fields = window_widths [THEN get_field_width [OF layouts_ok(4)], unfolded One_nat_def]

lemma codes:
  "hd (encode SDMA_PKT_COPY_LINEAR p) AND 0xFF = take_bit 8 (p 0 ''op'')"
  "drop_bit 8 (hd (encode SDMA_PKT_COPY_LINEAR p)) AND 0xFF = take_bit 8 (p 0 ''sub_op'')"
  "hd (encode SDMA_PKT_ATOMIC p) AND 0xFF = take_bit 8 (p 0 ''op'')"
  "hd (encode SDMA_PKT_COPY_LINEAR_WAIT_SIGNAL_MI4 p) AND 0xFF = take_bit 8 (p 0 ''op'')"
  "drop_bit 8 (hd (encode SDMA_PKT_COPY_LINEAR_WAIT_SIGNAL_MI4 p)) AND 0xFF = take_bit 8 (p 0 ''subop'')"
  "hd (encode SDMA_PKT_LINEAR_LARGE_SUB_WINDOW_COPY p) AND 0xFF = take_bit 8 (p 0 ''op'')"
  by (rule header_codes, simp only: SDMA_PKT_COPY_LINEAR_def SDMA_PKT_ATOMIC_def SDMA_PKT_COPY_LINEAR_WAIT_SIGNAL_MI4_def
      SDMA_PKT_LINEAR_LARGE_SUB_WINDOW_COPY_def)+

lemma copy_linear_effects:
  assumes "CopyLinearPacket src dst sz = Inr p"
  shows "packet_effects p = [Copied src dst (Suc (unat (take_bit 30 (ucast (sz - 1) :: u32))))]"
  using assms
  by (auto simp: CopyLinearPacket_def packet_effects_def copy_effects_def Let_def codes copy_fields packet_lengths packet_eval
      join_split opcode_defs split: if_splits)

lemma atomic_add_effects:
  assumes "AtomicAddPacket wide a v = Inr p"
  shows "packet_effects p = [if wide then Added64 a v else Added32 a (lo32 v)]"
proof -
  define q where "q = mk_packet
    [(0, ''op'', SDMA_OP_ATOMIC), (0, ''operation'', if wide then SDMA_ATOMIC_ADD64 else SDMA_ATOMIC_ADD32),
     (1, ''addr_31_0'', lo32 a), (2, ''addr_63_32'', hi32 a), (3, ''src_data_31_0'', lo32 v), (4, ''src_data_63_32'', hi32 v)]"
  have p: "p = encode SDMA_PKT_ATOMIC q" using assms by (simp add: AtomicAddPacket_def q_def split: if_splits)
  have q: "q 0 ''op'' = 10" "q 0 ''operation'' = (if wide then 47 else 15)" "q (Suc 0) ''addr_31_0'' = lo32 a" "q 2 ''addr_63_32'' = hi32 a"
      "q 3 ''src_data_31_0'' = lo32 v" "q 4 ''src_data_63_32'' = hi32 v"
    by (simp_all add: q_def packet_eval opcode_defs)
  have t: "take_bit 7 (47 :: u32) = 47" "take_bit 7 (15 :: u32) = 15" "take_bit 8 (10 :: u32) = 10" by simp_all
  show ?thesis
    unfolding packet_effects_def p atomic_effects_def Let_def codes atomic_fields q
    by (cases wide) (simp_all add: atomic_fields q t join_split opcode_defs)
qed

lemma aligned_join:
  assumes "take_bit 3 (a :: u64) = 0"
  shows "join32 (push_bit 3 (take_bit 29 (ucast (drop_bit 3 a)))) (hi32 a) = a"
proof (rule bit_word_eqI)
  fix k assume "k < LENGTH(64)"
  moreover have "\<not> bit a k" if "k < 3"
  proof -
    have "bit (take_bit 3 a) k = bit a k" using that by (simp add: bit_take_bit_iff)
    then show ?thesis using assms by simp
  qed
  moreover have "\<not> k < 3 \<Longrightarrow> 3 + (k - 3) = k" "\<not> k < 32 \<Longrightarrow> 32 + (k - 32) = k" by simp_all
  ultimately show "bit (join32 (push_bit 3 (take_bit 29 (ucast (drop_bit 3 a)))) (hi32 a)) k = bit a k"
    by (cases "k < 3"; cases "k < 32") (auto simp: join32_def hi32_def bit_simps)
qed

lemma count_30:
  assumes "0 < n" and "n \<le> 0x40000000"
  shows "Suc (unat (take_bit 30 (word_of_int (n - 1) :: u32))) = nat n"
proof -
  define m where "m = n - 1"
  have m: "0 \<le> m" "m < 2 ^ 30" using assms by (simp_all add: m_def)
  have "take_bit 30 m = m" "take_bit 32 m = m" using m by (intro take_bit_int_eq_self; simp)+
  then have "uint (take_bit 30 (word_of_int m :: u32)) = m"
    using m by (simp add: unsigned_take_bit_eq unsigned_of_int)
  then have "unat (take_bit 30 (word_of_int m :: u32)) = nat m" using m by (simp add: unat_eq_nat_uint)
  then show ?thesis using assms by (simp add: m_def [symmetric]) (simp add: m_def)
qed

lemma fused_packet_effects:
  assumes "CreateCopyWaitSignalPacketMI4 src dst n sig dat enableWait wa wr wm = Inr p"
    and "take_bit 3 sig = 0" and "take_bit 3 wa = 0"
  shows "packet_effects p = (if enableWait \<and> wa \<noteq> NULL then [Waited_geq wa wr wm] else []) @ [Copied src dst (nat n)] @
    (if sig \<noteq> NULL then [Added64 sig dat] else [])"
proof -
  define waiting where "waiting = (enableWait \<and> wa \<noteq> NULL)"
  define q where "q = mk_packet (wait_signal_fields src dst n sig dat waiting wa wr wm)"
  have n: "0 < n" "n \<le> 0x40000000" and p: "p = encode SDMA_PKT_COPY_LINEAR_WAIT_SIGNAL_MI4 q"
    using assms(1) by (simp_all add: CreateCopyWaitSignalPacketMI4_def q_def waiting_def split: if_splits)
  have q: "q 0 ''op'' = 1" "q 0 ''signal'' = (if sig \<noteq> NULL then 1 else 0)" "q 0 ''wait'' = (if waiting then 1 else 0)"
      "q 8 ''copy_count'' = word_of_int (n - 1)" "q 10 ''src_addr_31_0'' = lo32 src" "q 11 ''src_addr_63_32'' = hi32 src"
      "q 12 ''dst_addr_31_0'' = lo32 dst" "q 13 ''dst_addr_63_32'' = hi32 dst"
    by (cases waiting; cases "sig = NULL"; simp add: q_def wait_signal_fields_def packet_eval opcode_defs)+
  have w: "q 2 ''wait_addr_31_3'' = ucast (drop_bit 3 wa)" "q 3 ''wait_addr_63_32'' = hi32 wa"
      "q 4 ''wait_reference_31_0'' = lo32 wr" "q 5 ''wait_reference_63_32'' = hi32 wr"
      "q 6 ''wait_mask_31_0'' = lo32 wm" "q 7 ''wait_mask_63_32'' = hi32 wm" if waiting
    using that by (cases "sig = NULL"; simp add: q_def wait_signal_fields_def packet_eval opcode_defs)+
  have s: "q 14 ''signal_operation'' = 111" "q 15 ''signal_addr_31_3'' = ucast (drop_bit 3 sig)" "q 16 ''signal_addr_63_32'' = hi32 sig"
      "q 17 ''signal_data_31_0'' = lo32 dat" "q 18 ''signal_data_63_32'' = hi32 dat" if "sig \<noteq> NULL"
    using that by (cases waiting; simp add: q_def wait_signal_fields_def packet_eval opcode_defs)+
  have t: "take_bit (Suc 0) (1 :: u32) = 1" "take_bit 8 (1 :: u32) = 1" "take_bit 7 (111 :: u32) = 111" by simp_all
  have "packet_effects p = fused_effects p"
    unfolding p packet_effects_def codes q t by (simp add: opcode_defs)
  also have "\<dots> = (if waiting then [Waited_geq wa wr wm] else []) @ [Copied src dst (nat n)] @ (if sig \<noteq> NULL then [Added64 sig dat] else [])"
    unfolding fused_effects_def Let_def p
    using w s aligned_join [OF assms(2)] aligned_join [OF assms(3)] count_30 [OF n]
    by (cases waiting; cases "sig = NULL") (simp_all add: fused_fields q t join_split opcode_defs)
  finally show ?thesis by (simp add: waiting_def)
qed

end
