(* ===== verification/Sdma_Packet_Props.thy ===== *)
theory Sdma_Packet_Props
  imports Sdma_Packets Sdma_Ring_Handles
begin

text \<open>
  Properties of the SDMA operations: what the packets they build make the engine do, that the batches are
  ones the ring accepts, and what the dump of a queue makes of them.
\<close>

subsection \<open>Sizes\<close>

lemma packet_sizes:
  "CopyLinearPacket src dst sz = Inr p \<Longrightarrow> length p = 7"
  "AtomicAddPacket wide a v = Inr p \<Longrightarrow> length p = 8"
  "CreateCopyWaitSignalPacketMI4 src dst n sig dat enableWait wa wr wm = Inr p \<Longrightarrow> length p = 19"
  "LargeSubWindowCopyPacket src dst tw th sp dp sx sy dx dy = Inr p \<Longrightarrow> length p = 20"
  "TimestampPacket a = Inr p \<Longrightarrow> length p = 3"
  "PollRegmemPacket a ex i r = Inr p \<Longrightarrow> length p = 6"
  by (auto simp: CopyLinearPacket_def AtomicAddPacket_def CreateCopyWaitSignalPacketMI4_def LargeSubWindowCopyPacket_def
      TimestampPacket_def PollRegmemPacket_def encode_def packet_lengths split: if_splits)

lemma all_of_map: "all_of (map Inr ps) = Inr ps"
  by (induction ps) simp_all

lemma all_of_Inr: "all_of xs = Inr ps \<longleftrightarrow> xs = map Inr ps"
proof
  show "all_of xs = Inr ps \<Longrightarrow> xs = map Inr ps" by (induction xs arbitrary: ps) (auto split: sum.splits)
qed (simp add: all_of_map)

lemma all_of_Inl: "all_of xs = Inl e \<Longrightarrow> Inl e \<in> set xs"
  by (induction xs) (auto split: sum.splits)

lemma create_copy: "CreateCopyPacket src dst n = Inr p \<Longrightarrow> CopyLinearPacket src dst (word_of_int n) = Inr p \<and> 0 < n \<and> n \<le> 0xFFFFFFFF"
  by (auto simp: CreateCopyPacket_def split: if_splits)


declare all_of.simps [simp del]

subsection \<open>Device operations\<close>

definition effects_of :: "u32 list list \<Rightarrow> sdma_effect list" where
  "effects_of ps = concat (map packet_effects ps)"

lemma low32_of_int:
  assumes "0 \<le> m" and "m < 2 ^ 32"
  shows "(ucast (word_of_int m :: u64) :: u32) = word_of_int m"
proof -
  have t: "take_bit 64 m = m" using assms by (intro take_bit_int_eq_self) simp_all
  have "(ucast (word_of_int m :: u64) :: u32) = of_nat (nat (take_bit 64 m))" by (simp add: unsigned_of_int)
  then show ?thesis unfolding t using assms(1) by (simp only: of_nat_nat)
qed

lemma low30_of_int: "unat (take_bit 30 (word_of_int m :: u32)) = nat (m mod 2 ^ 30)"
proof -
  have "uint (take_bit 30 (word_of_int m :: u32)) = take_bit 30 m" by (simp add: unsigned_take_bit_eq unsigned_of_int)
  then show ?thesis by (simp only: unat_eq_nat_uint take_bit_eq_mod)
qed

lemma copy_ok:
  assumes "src \<noteq> NULL" and "dst \<noteq> NULL" and "0 < n" and "n \<le> 0xFFFFFFFF"
  shows "\<exists>p. CreateCopyPacket src dst n = Inr p \<and> packet_effects p = [Copied src dst (Suc (nat ((n - 1) mod 2 ^ 30)))]"
proof -
  have "take_bit 64 n = n" using assms(3,4) by (intro take_bit_int_eq_self) simp_all
  then have u: "uint (word_of_int n :: u64) = n" using assms(3) by (simp add: unsigned_of_int)
  have z: "(word_of_int n :: u64) > 0" "(word_of_int n :: u64) \<le> 0x100000000"
    unfolding word_less_def word_le_def u using assms(3,4) by simp_all
  then obtain p where p: "CopyLinearPacket src dst (word_of_int n) = Inr p"
    using assms(1,2) by (auto simp only: CopyLinearPacket_def if_True simp_thms)
  have e: "(word_of_int n - 1 :: u64) = word_of_int (n - 1)" by simp
  have "packet_effects p = [Copied src dst (Suc (nat ((n - 1) mod 2 ^ 30)))]"
    unfolding copy_linear_effects [OF p] e using low32_of_int [of "n - 1"] low30_of_int [of "n - 1"] assms(3,4) by simp
  moreover have "CreateCopyPacket src dst n = Inr p"
    using p assms(3,4) by (simp only: CreateCopyPacket_def if_True)
  ultimately show ?thesis by blast
qed

lemma atomic_ok:
  assumes "a \<noteq> NULL"
  shows "\<exists>p. CreateAtomicIncPacket a = Inr p \<and> packet_effects p = [Added64 a 1]"
proof -
  obtain p where p: "AtomicAddPacket True a 1 = Inr p" using assms by (auto simp: AtomicAddPacket_def)
  then show ?thesis using atomic_add_effects [OF p] by (auto simp: CreateAtomicIncPacket_def)
qed

lemma fused_ok:
  assumes "0 < n" and "n \<le> 0x40000000" and "a \<noteq> NULL" and "take_bit 3 a = 0"
  shows "\<exists>p. CreateCopyWaitSignalPacketMI4 src dst n a d False NULL 0 0 = Inr p \<and>
    packet_effects p = [Copied src dst (nat n), Added64 a d]"
proof -
  obtain p where p: "CreateCopyWaitSignalPacketMI4 src dst n a d False NULL 0 0 = Inr p"
    using assms(1,2) by (auto simp: CreateCopyWaitSignalPacketMI4_def)
  show ?thesis using fused_packet_effects [OF p assms(4)] p assms(3) by auto
qed

lemma sint_small: "uint (sz :: u64) < 2 ^ 63 \<Longrightarrow> sint sz = uint sz"
  unfolding sint_uint by (rule signed_take_bit_int_eq_self) (auto intro: order_trans [of _ 0])

lemma size_30:
  assumes "0 < sz" and "sz \<le> (0x40000000 :: u64)"
  shows "0 < sint sz" "sint sz \<le> 0x40000000" "nat (sint sz) = unat sz" "Suc (nat ((sint sz - 1) mod 2 ^ 30)) = unat sz"
proof -
  have u: "0 < uint sz" "uint sz \<le> 0x40000000" using assms by (simp_all add: word_less_def word_le_def)
  have s: "sint sz = uint sz" by (rule sint_small) (use u in simp)
  show "0 < sint sz" "sint sz \<le> 0x40000000" unfolding s by (fact u)+
  show n: "nat (sint sz) = unat sz" unfolding s by (simp only: unat_eq_nat_uint)
  have "(sint sz - 1) mod 2 ^ 30 = sint sz - 1" unfolding s using u by (intro mod_pos_pos_trivial) simp_all
  then show "Suc (nat ((sint sz - 1) mod 2 ^ 30)) = unat sz" using u n by (simp only: s)
qed

lemma impl_effects:
  assumes "P \<Longrightarrow> src \<noteq> NULL \<and> dst \<noteq> NULL \<and> 0 < sz \<and> sz \<le> 0x40000000"
    and "S \<Longrightarrow> sig \<noteq> NULL \<and> take_bit 3 sig = 0" and "C \<Longrightarrow> cnt \<noteq> NULL \<and> take_bit 3 cnt = 0"
  shows "\<exists>ps. put_signal_counter_impl oss7 P S C dst src sz sig cnt = Inr ps \<and>
    effects_of ps = (if P then [Copied src dst (unat sz)] else []) @ (if S then [Added64 sig 1] else []) @
      (if C then [Added64 cnt 1] else [])"
proof -
  have sz: "0 < sint sz" "sint sz \<le> 0x40000000" "nat (sint sz) = unat sz" "Suc (nat ((sint sz - 1) mod 2 ^ 30)) = unat sz" if P
    using size_30 assms(1) [OF that] by blast+
  have c: "\<exists>p. CreateCopyPacket src dst (sint sz) = Inr p \<and> packet_effects p = [Copied src dst (unat sz)]" if P
  proof -
    have "sint sz \<le> 0xFFFFFFFF" using sz(2) [OF that] by linarith
    then show ?thesis using copy_ok [of src dst "sint sz"] assms(1) [OF that] sz(1,4) [OF that] by simp
  qed
  have f: "\<exists>p. CreateCopyWaitSignalPacketMI4 src dst (sint sz) a 1 False NULL 0 0 = Inr p \<and>
      packet_effects p = [Copied src dst (unat sz), Added64 a 1]" if P "a \<noteq> NULL" "take_bit 3 a = 0" for a
    using fused_ok [OF sz(1,2), of a src dst 1] that sz(3) by simp
  let ?fused = "\<lambda>a. CreateCopyWaitSignalPacketMI4 src dst (sint sz) a 1 False NULL 0 0"
  have f2: "\<exists>p. ?fused sig = Inr p \<and> packet_effects p = [Copied src dst (unat sz), Added64 sig 1]" if P S
    using f that assms(2) by blast
  have f3: "\<exists>p. ?fused cnt = Inr p \<and> packet_effects p = [Copied src dst (unat sz), Added64 cnt 1]" if P C
    using f that assms(3) by blast
  have s: "\<exists>p. CreateAtomicIncPacket sig = Inr p \<and> packet_effects p = [Added64 sig 1]" if S
    using atomic_ok assms(2) that by blast
  have t: "\<exists>p. CreateAtomicIncPacket cnt = Inr p \<and> packet_effects p = [Added64 cnt 1]" if C
    using atomic_ok assms(3) that by blast
  obtain pc where pc: "P \<longrightarrow> CreateCopyPacket src dst (sint sz) = Inr pc \<and> packet_effects pc = [Copied src dst (unat sz)]"
    using c by blast
  obtain pf where pf: "P \<and> S \<longrightarrow> ?fused sig = Inr pf \<and> packet_effects pf = [Copied src dst (unat sz), Added64 sig 1]"
    using f2 by blast
  obtain pd where pd: "P \<and> C \<longrightarrow> ?fused cnt = Inr pd \<and> packet_effects pd = [Copied src dst (unat sz), Added64 cnt 1]"
    using f3 by blast
  obtain ps where ps: "S \<longrightarrow> CreateAtomicIncPacket sig = Inr ps \<and> packet_effects ps = [Added64 sig 1]" using s by blast
  obtain pt where pt: "C \<longrightarrow> CreateAtomicIncPacket cnt = Inr pt \<and> packet_effects pt = [Added64 cnt 1]" using t by blast
  note pc pf pd ps pt
  then show ?thesis
    by (cases P; cases S; cases C; cases oss7)
      (simp_all add: put_signal_counter_impl_def all_of.simps effects_of_def)
qed


text \<open>C16. Equivalence. The fused packets of an OSS7 build and the separate packets of other builds have the same effect, in the
  same order: the copy of the whole size, then the signal, then the counter. Sizes go up to 1 GiB and
  the words that are incremented are aligned.\<close>

theorem fused_equivalent:
  assumes "P \<Longrightarrow> src \<noteq> NULL \<and> dst \<noteq> NULL \<and> 0 < sz \<and> sz \<le> 0x40000000"
    and "S \<Longrightarrow> sig \<noteq> NULL \<and> take_bit 3 sig = 0" and "C \<Longrightarrow> cnt \<noteq> NULL \<and> take_bit 3 cnt = 0"
  shows "\<exists>ps qs. put_signal_counter_impl True P S C dst src sz sig cnt = Inr ps \<and>
    put_signal_counter_impl False P S C dst src sz sig cnt = Inr qs \<and> effects_of ps = effects_of qs \<and>
    effects_of qs = (if P then [Copied src dst (unat sz)] else []) @ (if S then [Added64 sig 1] else []) @
      (if C then [Added64 cnt 1] else [])"
  using impl_effects [OF assms, of P S C True] impl_effects [OF assms, of P S C False] by fastforce

text \<open>\<^verbatim>\<open>put\<close> accepts sizes up to 4 GiB minus one, but the count field has 30 bits: above 1 GiB the packet copies
  only the remainder of the size.\<close>

theorem put_truncates:
  assumes "src \<noteq> NULL" and "dst \<noteq> NULL" and "0x40000000 < sz" and "sz \<le> 0xFFFFFFFF"
  shows "\<exists>ps n. sdma_put oss7 dst src sz = Inr ps \<and> effects_of ps = [Copied src dst n] \<and> n < unat sz"
proof -
  have u: "0x40000000 < uint sz" "uint sz \<le> 0xFFFFFFFF" using assms(3,4) by (simp_all add: word_less_def word_le_def)
  have s: "sint sz = uint sz" by (rule sint_small) (use u in simp)
  define n where "n = Suc (nat ((sint sz - 1) mod 2 ^ 30))"
  obtain p where p: "CreateCopyPacket src dst (sint sz) = Inr p" "packet_effects p = [Copied src dst n]"
    unfolding n_def by (metis copy_ok [OF assms(1,2)] s u order.strict_trans zero_less_numeral)
  have r: "(uint sz - 1) mod 2 ^ 30 < 0x40000000" "0 \<le> (uint sz - 1) mod 2 ^ 30" by simp_all
  have "int n = (uint sz - 1) mod 2 ^ 30 + 1" using r(2) by (simp add: n_def s)
  then have "int n < uint sz" using u r(1) by linarith
  then have "n < unat sz" by (simp only: unat_eq_nat_uint zless_nat_eq_int_zless)
  moreover have "sdma_put oss7 dst src sz = Inr [p]"
    by (simp add: sdma_put_def put_signal_counter_impl_def all_of.simps p(1))
  moreover have "effects_of [p] = [Copied src dst n]" by (simp add: effects_of_def p(2))
  ultimately show ?thesis by blast
qed

subsection \<open>Host operations\<close>

text \<open>A call that does not end in a failed assertion: it throws, has nothing to submit, or submits a batch the ring accepts.\<close>

definition clean_call :: "u32 list list pres \<Rightarrow> bool" where
  "clean_call r = (case r of Inl e \<Rightarrow> e = Invalid_argument | Inr ps \<Rightarrow> ps = [] \<or> host_accepts ps)"

definition clean_packet :: "u32 list pres \<Rightarrow> bool" where
  "clean_packet r = (case r of Inl e \<Rightarrow> e = Invalid_argument | Inr p \<Rightarrow> p \<noteq> [])"

lemma clean_submit:
  assumes "list_all clean_packet xs"
  shows "clean_call (host_submit (all_of xs))"
proof (cases "all_of xs")
  case (Inl e)
  then have "clean_packet (Inl e)" using assms all_of_Inl by (auto simp: list_all_iff)
  then show ?thesis using Inl by (simp add: host_submit_def clean_call_def clean_packet_def)
next
  case (Inr ps)
  then have "[] \<notin> set ps" using assms by (auto simp: all_of_Inr list_all_iff clean_packet_def)
  then show ?thesis using Inr by (simp add: host_submit_def clean_call_def host_accepts_def)
qed

lemma clean_parts:
  "clean_packet (build_atomic_packet wide a val)" "clean_packet (build_poll_packet a ex)"
  "a \<noteq> NULL \<Longrightarrow> clean_packet (TimestampPacket a)"
  by (auto simp: clean_packet_def build_atomic_packet_def build_poll_packet_def AtomicAddPacket_def PollRegmemPacket_def
      TimestampPacket_def encode_def SDMA_PKT_ATOMIC_def SDMA_PKT_POLL_REGMEM_def SDMA_PKT_TIMESTAMP_def)

lemma clean_linear: "validate_linear_args src dst sz = Inr () \<Longrightarrow> clean_packet (CopyLinearPacket src dst sz)"
  by (auto simp: clean_packet_def validate_linear_args_def kMaxLinearSize_def CopyLinearPacket_def encode_def SDMA_PKT_COPY_LINEAR_def
      word_gt_0 split: if_splits)

lemma clean_after_linear:
  assumes "validate_linear_args src dst sz = Inr () \<Longrightarrow> clean_call k"
  shows "clean_call (after_linear src dst sz k)"
  using assms by (auto simp: after_linear_def validate_linear_args_def clean_call_def)

lemma mult_bounded:
  assumes "w \<le> kMaxSdmaDword div d" and "d \<noteq> 0"
  shows "unat (w * d) = unat w * unat d" and "unat w * unat d \<le> 0xFFFFFFFF"
proof -
  have "unat w \<le> 0xFFFFFFFF div unat d" using assms(1) by (simp add: word_le_nat_alt unat_div kMaxSdmaDword_def)
  moreover have "0 < unat d" using assms(2) by (simp add: unat_gt_0)
  ultimately show le: "unat w * unat d \<le> 0xFFFFFFFF" by (simp add: less_eq_div_iff_mult_less_eq)
  show "unat (w * d) = unat w * unat d" by (rule unat_mult_lem [THEN iffD1]) (use le in simp)
qed

lemma dword_minus_one:
  assumes "0 < unat (x :: u64)" and "unat x \<le> 0xFFFFFFFF"
  shows "(ucast x :: u32) \<noteq> 0" and "Suc (unat (ucast x - 1 :: u32)) = unat x"
proof -
  have u: "unat (ucast x :: u32) = unat x" using assms(2) by (simp add: unsigned_ucast_eq take_bit_nat_eq_self)
  then show n: "(ucast x :: u32) \<noteq> 0" using assms(1) by auto
  show "Suc (unat (ucast x - 1 :: u32)) = unat x" using u n assms(1) by (simp add: unat_minus_one)
qed

lemma window_packet_effects:
  assumes "LargeSubWindowCopyPacket src dst tw th sp dp 0 0 0 0 = Inr p"
  shows "packet_effects p = [Window_copied src dst (Suc (unat (tw - 1))) (Suc (unat (th - 1))) (Suc (unat (sp - 1))) (Suc (unat (dp - 1)))]"
  using assms
  by (auto simp: LargeSubWindowCopyPacket_def packet_effects_def window_effects_def Let_def codes window_fields packet_lengths packet_eval
      join_split opcode_defs split: if_splits)

lemma tile_checks:
  assumes "src \<noteq> NULL \<and> dst \<noteq> NULL \<and> ds \<noteq> 0 \<and> h \<noteq> 0 \<and> w \<noteq> 0" and "\<not> (ss < w \<or> dstr < w)"
    and "\<not> (ds > kMaxSdmaDword \<or> w > kMaxSdmaDword div ds \<or> ss > kMaxSdmaDword div ds \<or> dstr > kMaxSdmaDword div ds)"
    and "h \<le> kMaxSdmaDword"
  shows "unat (w * ds) = unat w * unat ds" "unat (ss * ds) = unat ss * unat ds" "unat (dstr * ds) = unat dstr * unat ds"
    "0 < unat (w * ds)" "unat (w * ds) \<le> unat (ss * ds)" "unat (w * ds) \<le> unat (dstr * ds)"
    "unat (ss * ds) \<le> 0xFFFFFFFF" "unat (dstr * ds) \<le> 0xFFFFFFFF" "0 < unat h" "unat h \<le> 0xFFFFFFFF"
proof -
  have d: "ds \<noteq> 0" and le: "w \<le> kMaxSdmaDword div ds" "ss \<le> kMaxSdmaDword div ds" "dstr \<le> kMaxSdmaDword div ds"
    and st: "unat w \<le> unat ss" "unat w \<le> unat dstr"
    using assms(1-3) by (auto simp: not_less word_le_nat_alt)
  show m: "unat (w * ds) = unat w * unat ds" "unat (ss * ds) = unat ss * unat ds" "unat (dstr * ds) = unat dstr * unat ds"
    by (intro mult_bounded(1) le d)+
  show "unat (ss * ds) \<le> 0xFFFFFFFF" "unat (dstr * ds) \<le> 0xFFFFFFFF"
    unfolding m by (intro mult_bounded(2) le d)+
  show "unat (w * ds) \<le> unat (ss * ds)" "unat (w * ds) \<le> unat (dstr * ds)" unfolding m using st by (simp_all add: mult_right_mono)
  show "0 < unat (w * ds)" unfolding m using assms(1) by (simp add: unat_gt_0)
  show "0 < unat h" using assms(1) by (simp add: unat_gt_0)
  show "unat h \<le> 0xFFFFFFFF" using assms(4) by (simp add: word_le_nat_alt kMaxSdmaDword_def)
qed

lemma word_0_less: "(x :: 'a :: len word) \<noteq> 0 \<Longrightarrow> 0 < x"
  by (simp add: word_gt_0)

lemma build_tile_cases:
  "(\<exists>p. build_tile_packet src dst ds h w ss dstr = Inr p \<and> p \<noteq> [] \<and>
     packet_effects p = [Window_copied src dst (unat w * unat ds) (unat h) (unat ss * unat ds) (unat dstr * unat ds)]) \<or>
   build_tile_packet src dst ds h w ss dstr = Inl Invalid_argument"
proof (cases "build_tile_packet src dst ds h w ss dstr = Inl Invalid_argument")
  case False
  let ?k = "LargeSubWindowCopyPacket src dst (ucast (w * ds)) (ucast h) (ucast (ss * ds)) (ucast (dstr * ds)) 0 0 0 0"
  have c: "src \<noteq> NULL \<and> dst \<noteq> NULL \<and> ds \<noteq> 0 \<and> h \<noteq> 0 \<and> w \<noteq> 0" "\<not> (ss < w \<or> dstr < w)"
      "\<not> (ds > kMaxSdmaDword \<or> w > kMaxSdmaDword div ds \<or> ss > kMaxSdmaDword div ds \<or> dstr > kMaxSdmaDword div ds)"
      "h \<le> kMaxSdmaDword" and k: "build_tile_packet src dst ds h w ss dstr = ?k"
    using False unfolding build_tile_packet_def Let_def by (auto simp only: not_less not_le split: if_splits)
  note t = tile_checks [OF c]
  have z: "0 < unat (ss * ds)" "0 < unat (dstr * ds)" "unat (w * ds) \<le> 0xFFFFFFFF" using t(4-8) by linarith+
  note x = dword_minus_one [OF t(4) z(3)] dword_minus_one [OF t(9,10)] dword_minus_one [OF z(1) t(7)] dword_minus_one [OF z(2) t(8)]
  obtain p where p: "?k = Inr p" using c(1) x(1,3) [THEN word_0_less] by (simp add: LargeSubWindowCopyPacket_def)
  have "length p = 20" by (rule packet_sizes(4) [OF p])
  moreover have "packet_effects p = [Window_copied src dst (unat w * unat ds) (unat h) (unat ss * unat ds) (unat dstr * unat ds)]"
    unfolding window_packet_effects [OF p] x t(1-3) by (rule refl)
  ultimately show ?thesis using k p by auto
qed simp

text \<open>C20. A tile packet copies exactly the window that was asked for: its sizes in bytes are the exact products of the element size and
  the width and strides, although they are computed in 64 bits and stored in 32, and rows do not overlap.\<close>

theorem tile_exact:
  assumes "build_tile_packet src dst ds h w ss dstr = Inr p"
  shows "packet_effects p = [Window_copied src dst (unat w * unat ds) (unat h) (unat ss * unat ds) (unat dstr * unat ds)] \<and>
    unat w * unat ds \<le> unat ss * unat ds \<and> unat w * unat ds \<le> unat dstr * unat ds"
proof -
  have "w \<le> ss" "w \<le> dstr" using assms by (simp_all add: build_tile_packet_def not_less split: if_splits)
  then have "unat w \<le> unat ss" "unat w \<le> unat dstr" by (simp_all add: word_le_nat_alt)
  then show ?thesis using build_tile_cases [of src dst ds h w ss dstr] assms by auto
qed

lemma clean_tile: "clean_packet (tile_packet ds tile)"
proof -
  obtain dst src h w ss dstr where "tile = (dst, src, h, w, ss, dstr)" by (cases tile)
  then show ?thesis using build_tile_cases [of src dst ds h w ss dstr]
    by (auto simp: tile_packet_def clean_packet_def)
qed

lemmas clean_rules = clean_submit clean_after_linear
lemmas clean_simps = clean_parts clean_linear clean_tile list_all_iff

text \<open>C25. No host operation runs into an assertion of the packet constructors: whatever the arguments, the call
  either throws, or has nothing to do, or hands the ring a batch that it accepts.\<close>

theorem host_calls_clean:
  "clean_call (host_put dst src sz) \<and> clean_call (host_signal wide flag val) \<and> clean_call (host_timestamp ts) \<and>
   clean_call (host_put_signal wide dst src sz flag val) \<and> clean_call (host_put_tile ds tile) \<and>
   clean_call (host_put_tiles ds v) \<and> clean_call (host_put_tile_signal wide ds tile flag val) \<and>
   clean_call (host_put_tiles_signal wide ds v flag val) \<and> clean_call (host_wait_flag_then_put flag ex dst src sz) \<and>
   clean_call (host_wait_flag_then_put_tile flag ex ds tile) \<and> clean_call (host_wait_flag_then_put_tiles flag ex ds v)"
proof (intro conjI)
  have inv: "clean_call (Inl Invalid_argument)" "clean_call (Inr [])" by (simp_all add: clean_call_def)
  show "clean_call (host_put dst src sz)" "clean_call (host_put_signal wide dst src sz flag val)"
      "clean_call (host_wait_flag_then_put flag ex dst src sz)"
    unfolding host_put_def host_put_signal_def host_wait_flag_then_put_def by (intro clean_rules; simp add: clean_simps)+
  show "clean_call (host_signal wide flag val)" "clean_call (host_put_tile ds tile)"
      "clean_call (host_put_tile_signal wide ds tile flag val)" "clean_call (host_wait_flag_then_put_tile flag ex ds tile)"
    unfolding host_signal_def host_put_tile_def host_put_tile_signal_def host_wait_flag_then_put_tile_def
    by (intro clean_rules; simp add: clean_simps)+
  show "clean_call (host_timestamp ts)" unfolding host_timestamp_def using inv by (auto intro!: clean_rules simp: clean_simps)
  show "clean_call (host_put_tiles ds v)" "clean_call (host_put_tiles_signal wide ds v flag val)"
      "clean_call (host_wait_flag_then_put_tiles flag ex ds v)"
    unfolding host_put_tiles_def host_put_tiles_signal_def host_wait_flag_then_put_tiles_def
    using inv by (auto intro!: clean_rules simp: clean_simps)
qed

subsection \<open>The queue dump\<close>

text \<open>What the dump of a queue should say of a packet of a device operation, and of a sequence of them.\<close>

definition dump_label :: "u32 list \<Rightarrow> dump_entry" where
  "dump_label p = (if length p = length SDMA_PKT_COPY_LINEAR then Dump_copy
     else if length p = length SDMA_PKT_ATOMIC then Dump_atomic else Dump_wait_signal)"

fun expected_dump :: "nat \<Rightarrow> u32 list list \<Rightarrow> (nat \<times> dump_entry) list" where
  "expected_dump i [] = []"
| "expected_dump i (p # ps) = (i, dump_label p) # expected_dump (i + length p) ps"

definition dumpable :: "bool \<Rightarrow> u32 list \<Rightarrow> bool" where
  "dumpable oss7 p \<longleftrightarrow> p \<noteq> [] \<and> dump_kind oss7 (hd p) = (dump_label p, length p)"

lemma header_kinds:
  "CopyLinearPacket src dst sz = Inr p \<Longrightarrow> dump_kind oss7 (hd p) = (if oss7 then (Dump_wait_signal, 19) else (Dump_copy, 7))"
  "AtomicAddPacket wide a v = Inr p \<Longrightarrow> dump_kind oss7 (hd p) = (Dump_atomic, 8)"
  "CreateCopyWaitSignalPacketMI4 src dst n sig dat enableWait wa wr wm = Inr p \<Longrightarrow> dump_kind True (hd p) = (Dump_wait_signal, 19)"
  by (auto simp: CopyLinearPacket_def AtomicAddPacket_def CreateCopyWaitSignalPacketMI4_def wait_signal_fields_def dump_kind_def Let_def
      codes packet_eval opcode_defs packet_lengths split: if_splits)

lemma window_kind:
  assumes "LargeSubWindowCopyPacket src dst tw th sp dp sx sy dx dy = Inr p"
  shows "dump_kind oss7 (hd p) = (Dump_copy, 7)"
proof -
  have "drop_bit 8 (hd (encode SDMA_PKT_LINEAR_LARGE_SUB_WINDOW_COPY q)) AND 0xFF = take_bit 8 (q 0 ''sub_op'')" for q
    by (rule header_codes, simp only: SDMA_PKT_LINEAR_LARGE_SUB_WINDOW_COPY_def)
  then show ?thesis using assms
    by (auto simp: LargeSubWindowCopyPacket_def dump_kind_def Let_def codes packet_eval opcode_defs packet_lengths split: if_splits)
qed

lemma dump_from_packets:
  assumes "list_all (dumpable oss7) ps" and "\<And>i. i < length (concat ps) \<Longrightarrow> buf (it + i) = concat ps ! i"
  shows "dump_from oss7 buf (it + length (concat ps)) it = expected_dump it ps"
  using assms
proof (induction ps arbitrary: it)
  case Nil
  then show ?case by (simp add: dump_from.simps)
next
  case (Cons p ps)
  have p: "p \<noteq> []" "dump_kind oss7 (hd p) = (dump_label p, length p)" using Cons.prems(1) by (simp_all add: dumpable_def)
  have "buf it = hd p" using Cons.prems(2) [of 0] p(1) by (cases p) simp_all
  moreover have "dump_from oss7 buf (it + length p + length (concat ps)) (it + length p) = expected_dump (it + length p) ps"
  proof (rule Cons.IH)
    show "list_all (dumpable oss7) ps" using Cons.prems(1) by simp
    show "buf (it + length p + i) = concat ps ! i" if "i < length (concat ps)" for i
      using Cons.prems(2) [of "length p + i"] that by (simp add: nth_append add.assoc)
  qed
  ultimately show ?case using p by (subst dump_from.simps) (simp add: add.assoc)
qed

lemma operation_dumpable:
  assumes "put_signal_counter_impl oss7 P S C dst src sz sig cnt = Inr ps" and "oss7 \<and> P \<longrightarrow> S \<or> C"
  shows "list_all (dumpable oss7) ps"
proof -
  have d: "CopyLinearPacket src dst n = Inr p \<Longrightarrow> \<not> oss7 \<Longrightarrow> dumpable oss7 p" "AtomicAddPacket wide a v = Inr p \<Longrightarrow> dumpable oss7 p"
      "CreateCopyWaitSignalPacketMI4 src dst m a v False NULL 0 0 = Inr p \<Longrightarrow> dumpable True p" for n p wide a v m
    using packet_sizes header_kinds by (fastforce simp: dumpable_def dump_label_def packet_lengths)+
  show ?thesis using assms
    by (cases P; cases S; cases C; cases oss7)
      (auto simp: put_signal_counter_impl_def all_of_Inr Cons_eq_map_conv CreateAtomicIncPacket_def dest!: create_copy d)
qed


text \<open>The dump misreads what other operations submit. In an OSS7 build the packet of a plain \<^verbatim>\<open>put\<close> has 7 words but the same header
  codes as the fused packet, and is stepped over as 19 words; a tile packet has 20 words and is taken for a linear
  copy of 7.\<close>

theorem dump_misreads:
  "(sdma_put True dst src sz = Inr ps \<longrightarrow> (\<exists>p. ps = [p] \<and> length p = 7 \<and> dump_kind True (hd p) = (Dump_wait_signal, 19))) \<and>
   (sdma_putTile dst src tw th sp dp sx sy dx dy = Inr ps \<longrightarrow>
      (\<exists>p. ps = [p] \<and> length p = 20 \<and> dump_kind oss7 (hd p) = (Dump_copy, 7)))"
proof (intro conjI impI)
  assume "sdma_put True dst src sz = Inr ps"
  then obtain p where "ps = [p]" "CopyLinearPacket src dst (word_of_int (sint sz)) = Inr p"
    by (auto simp: sdma_put_def put_signal_counter_impl_def all_of_Inr Cons_eq_map_conv dest!: create_copy)
  then show "\<exists>p. ps = [p] \<and> length p = 7 \<and> dump_kind True (hd p) = (Dump_wait_signal, 19)"
    using packet_sizes(1) header_kinds(1) [of src dst _ p True] by auto
next
  assume "sdma_putTile dst src tw th sp dp sx sy dx dy = Inr ps"
  then obtain p where "ps = [p]" "LargeSubWindowCopyPacket src dst tw th sp dp sx sy dx dy = Inr p"
    by (auto simp: sdma_putTile_def CreateLargeSubWindowCopyPacket_def all_of_Inr Cons_eq_map_conv)
  then show "\<exists>p. ps = [p] \<and> length p = 20 \<and> dump_kind oss7 (hd p) = (Dump_copy, 7)"
    using packet_sizes(4) window_kind by auto
qed

subsection \<open>Witnesses\<close>

lemma sample_op: "\<exists>ps. put_signal_counter_impl oss7 P S C 8192 4096 64 16 24 = Inr ps"
  using impl_effects [of P 4096 8192 64 S 16 C 24 oss7] by auto


theorem fused_equivalent_witness:
  "\<exists>ps qs. put_signal_counter_impl True True True False 8192 4096 64 16 0 = Inr ps \<and>
     put_signal_counter_impl False True True False 8192 4096 64 16 0 = Inr qs \<and> effects_of ps = effects_of qs \<and>
     effects_of qs = [Copied 4096 8192 64, Added64 16 1]"
  using fused_equivalent [of True 4096 8192 64 True 16 False 0] by simp

theorem put_truncates_witness:
  "\<exists>ps n. sdma_put False 8192 4096 0x80000000 = Inr ps \<and> effects_of ps = [Copied 4096 8192 n] \<and> n < 0x80000000"
  using put_truncates [of 4096 8192 "0x80000000" False] by simp

theorem tile_exact_witness:
  "\<exists>p. build_tile_packet 4096 8192 4 2 3 16 32 = Inr p \<and> packet_effects p = [Window_copied 4096 8192 12 2 64 128]"
proof -
  obtain p where p: "build_tile_packet 4096 8192 4 2 3 16 32 = Inr p"
    by (simp add: build_tile_packet_def kMaxSdmaDword_def LargeSubWindowCopyPacket_def)
  show ?thesis using tile_exact [OF p] p by simp
qed


theorem dump_misreads_witness:
  "\<exists>p. sdma_put True 8192 4096 64 = Inr [p] \<and> length p = 7 \<and> dump_kind True (hd p) = (Dump_wait_signal, 19)"
proof -
  obtain ps where ps: "sdma_put True 8192 4096 64 = Inr ps"
    using impl_effects [of True 4096 8192 64 False 0 False 0 True] by (auto simp: sdma_put_def)
  show ?thesis using dump_misreads [where dst = 8192 and src = 4096 and sz = 64 and ps = ps] ps by auto
qed

end
