(* ===== verification/Rdma_Common.thy ===== *)
theory Rdma_Common
  imports Xio_Prelude "HOL-Library.Monad_Syntax"
begin

text \<open>
  What the RDMA queue pairs of all vendors share: the providers and the configuration of the endpoint
  (\<^verbatim>\<open>src/src/endpoints/rdma-ep/rdma-ep.h\<close>, \<^verbatim>\<open>rdma-ep.hip\<close>, \<^verbatim>\<open>rdma-common.hip\<close>), byte order (\<^verbatim>\<open>src/src/common/endian.hpp\<close>), the
  test pattern (\<^verbatim>\<open>src/src/common/xio-data-pattern.hpp\<close>), the arithmetic of send rings, and the kernels that post
  and wait (\<^verbatim>\<open>rdma_ep_kernel\<close>, \<^verbatim>\<open>rdma_ep_batch_kernel\<close>). The kernels take the operations of a queue pair as arguments,
  as \<^verbatim>\<open>QueuePair\<close> dispatches on its provider; what they need of a provider is the locale \<open>send_queue\<close> and its
  extension \<open>batch_queue\<close>. A loop that polls is a partial function: not returning is \<open>None\<close>.
\<close>

subsection \<open>Providers and configuration\<close>

datatype provider = BNXT | MLX5 | IONIC | ROCM_ERNIC | UNKNOWN

definition provider_name :: "provider \<Rightarrow> string" where
  "provider_name p = (case p of BNXT \<Rightarrow> ''bnxt'' | MLX5 \<Rightarrow> ''mlx5'' | IONIC \<Rightarrow> ''ionic'' | ROCM_ERNIC \<Rightarrow> ''rocm-ernic''
     | UNKNOWN \<Rightarrow> ''unknown'')"

definition provider_from_string :: "string option \<Rightarrow> provider" where
  "provider_from_string arg = (case arg of None \<Rightarrow> UNKNOWN
     | Some s \<Rightarrow> if s = ''bnxt'' \<or> s = ''bnxt_re'' then BNXT
         else if s = ''mlx5'' then MLX5
         else if s = ''ionic'' \<or> s = ''pensando'' then IONIC
         else if s = ''rocm_ernic'' \<or> s = ''ernic'' \<or> s = ''rocm-ernic'' then ROCM_ERNIC
         else UNKNOWN)"

datatype queue_mem_mode = HOST_COHERENT | DEVICE_VRAM

record rdma_ep_config =
  providerStr :: string
  provider_of :: provider
  iterations :: u32
  sqDepth :: u32
  cqDepth :: u32
  transferSize :: u32
  inlineThreshold :: u32
  pcieRelaxedOrdering :: bool
  trafficClass :: int
  loopback :: bool
  gpuDeviceId :: int
  verify :: bool
  seed :: u32
  deviceName :: string
  queueMem :: queue_mem_mode
  batchSize :: u32
  numQueues :: u16
  infiniteMode :: bool
  isServer :: bool
  isClient :: bool
  serverHost :: string
  ppSize :: u32
  ppIters :: u32

datatype config_error =
    Null_config | Invalid_provider | Zero_sq_depth | Zero_transfer_size | Batch_not_below_depth | Batch_needs_loopback
  | Batch_exceeds_block | Queues_need_loopback | Server_and_client | No_role | No_server_host | Ping_pong_too_small
  | Ping_pong_misaligned

text \<open>
  The checks in their order; the configuration is changed on the way. \<open>maxBlock\<close> is what HIP reports for a device.
\<close>

definition validateConfig :: "(int \<Rightarrow> int) \<Rightarrow> rdma_ep_config option \<Rightarrow> rdma_ep_config option \<times> config_error option" where
  "validateConfig maxBlock arg = (case arg of None \<Rightarrow> (None, Some Null_config)
     | Some c0 \<Rightarrow>
       (let c1 = c0\<lparr>provider_of := provider_from_string (Some (providerStr c0))\<rparr> in
        if provider_of c1 = UNKNOWN then (Some c1, Some Invalid_provider) else
        let c2 = (if infiniteMode c1 then c1\<lparr>iterations := 0\<rparr> else c1) in
        if sqDepth c2 = 0 then (Some c2, Some Zero_sq_depth) else
        if transferSize c2 = 0 then (Some c2, Some Zero_transfer_size) else
        if batchSize c2 > 0 \<and> batchSize c2 \<ge> sqDepth c2 then (Some c2, Some Batch_not_below_depth) else
        if batchSize c2 > 1 \<and> \<not> loopback c2 then (Some c2, Some Batch_needs_loopback) else
        if batchSize c2 > 1 \<and> maxBlock (gpuDeviceId c2) > 0 \<and> uint (batchSize c2 + 1) > maxBlock (gpuDeviceId c2)
          then (Some c2, Some Batch_exceeds_block) else
        if numQueues c2 > 1 \<and> \<not> loopback c2 then (Some c2, Some Queues_need_loopback) else
        if isServer c2 \<and> isClient c2 then (Some c2, Some Server_and_client) else
        let c3 = (if isServer c2 \<or> isClient c2 then c2\<lparr>loopback := False\<rparr> else c2) in
        if \<not> loopback c3 \<and> \<not> isServer c3 \<and> \<not> isClient c3 then (Some c3, Some No_role) else
        if isClient c3 \<and> serverHost c3 = [] then (Some c3, Some No_server_host) else
        if (isServer c3 \<or> isClient c3) \<and> ppSize c3 < 16 then (Some c3, Some Ping_pong_too_small) else
        if (isServer c3 \<or> isClient c3) \<and> ppSize c3 mod 8 \<noteq> 0 then (Some c3, Some Ping_pong_misaligned) else
        (Some c3, None)))"

definition getIterations :: "rdma_ep_config option \<Rightarrow> u32" where
  "getIterations arg = (case arg of None \<Rightarrow> 128 | Some cfg \<Rightarrow> if infiniteMode cfg then 0 else iterations cfg)"

definition rd_atomic_cap :: "provider \<Rightarrow> int \<Rightarrow> u8" where
  "rd_atomic_cap p max_qp_rd_atom =
     (if p = IONIC then 15 else if max_qp_rd_atom = 0 then 1
      else let cap = (word_of_int max_qp_rd_atom :: u32) in ucast (if cap > 255 then 255 else cap))"

subsection \<open>Byte order\<close>

definition byteswap16 :: "u16 \<Rightarrow> u16" where
  "byteswap16 w = push_bit 8 w OR drop_bit 8 w"

definition byteswap32 :: "u32 \<Rightarrow> u32" where
  "byteswap32 w = push_bit 24 (take_bit 8 w) OR push_bit 16 (take_bit 8 (drop_bit 8 w)) OR
     push_bit 8 (take_bit 8 (drop_bit 16 w)) OR take_bit 8 (drop_bit 24 w)"

definition byteswap64 :: "u64 \<Rightarrow> u64" where
  "byteswap64 w =
     push_bit 32 (ucast (byteswap32 (ucast w))) OR ucast (byteswap32 (ucast (drop_bit 32 w)))"

definition normalize_qp_key :: "provider \<Rightarrow> u32 \<Rightarrow> u32" where
  "normalize_qp_key p key = (if p = MLX5 then byteswap32 key else key)"

subsection \<open>Test pattern\<close>

definition pattern_mix :: "u32 \<Rightarrow> u8" where
  "pattern_mix r0 =
     (let r1 = (r0 XOR drop_bit 16 r0) * 0x85ebca6b;
          r2 = (r1 XOR drop_bit 13 r1) * 0xc2b2ae35;
          r3 = r2 XOR drop_bit 16 r2
      in ucast (r3 AND 0xFF))"

definition pattern_byte :: "u64 \<Rightarrow> u32 \<Rightarrow> u32 \<Rightarrow> nat \<Rightarrow> u8" where
  "pattern_byte offset blockSize sd i =
     (let block = offset div ucast blockSize;
          s = (ucast (block * 0x12345678) :: u32) XOR sd
      in pattern_mix (ucast (block * 0x9e3779b9 + ucast s + of_nat i)))"

text \<open>The first \<open>n\<close> bytes of a buffer: filled, or compared with the first mismatch reported.\<close>

definition fill_pattern :: "u64 \<Rightarrow> u32 \<Rightarrow> u32 \<Rightarrow> nat \<Rightarrow> u8 list \<Rightarrow> u8 list" where
  "fill_pattern offset blockSize sd n buf = map (pattern_byte offset blockSize sd) [0..<n] @ drop n buf"

fun check_pattern :: "u64 \<Rightarrow> u32 \<Rightarrow> u32 \<Rightarrow> u8 list \<Rightarrow> nat list \<Rightarrow> nat option" where
  "check_pattern offset blockSize sd buf [] = None"
| "check_pattern offset blockSize sd buf (i # is) =
     (if buf ! i \<noteq> pattern_byte offset blockSize sd i then Some i else check_pattern offset blockSize sd buf is)"

definition dataPattern :: "bool \<Rightarrow> u64 \<Rightarrow> u32 \<Rightarrow> u32 \<Rightarrow> nat \<Rightarrow> u8 list \<Rightarrow> u8 list \<times> nat option" where
  "dataPattern isVerify offset blockSize sd n buf =
     (if isVerify then (buf, check_pattern offset blockSize sd buf [0..<n])
      else (fill_pattern offset blockSize sd n buf, None))"

subsection \<open>Lanes of a wavefront\<close>

definition lanes_of :: "u64 \<Rightarrow> nat list" where
  "lanes_of m = filter (bit m) [0..<64]"

definition lane_rank :: "u64 \<Rightarrow> nat \<Rightarrow> nat" where
  "lane_rank m lane = length (lanes_of (m AND (push_bit lane 1 - 1)))"

definition first_lane :: "u64 \<Rightarrow> int" where
  "first_lane m = (case lanes_of m of [] \<Rightarrow> - 1 | l # _ \<Rightarrow> int l)"

definition last_lane :: "u64 \<Rightarrow> int" where
  "last_lane m = (case rev (lanes_of m) of [] \<Rightarrow> - 1 | l # _ \<Rightarrow> int l)"

subsection \<open>Send rings\<close>

definition sq_available :: "u32 \<Rightarrow> u32 \<Rightarrow> u32 \<Rightarrow> u32" where
  "sq_available sq_depth sq_head sq_tail =
     (let consumed = (sq_tail - sq_head + sq_depth) mod sq_depth in sq_depth - consumed)"

text \<open>Memory is a function from 8-byte cells; an entry is copied cell by cell.\<close>

definition XioComEnqueue :: "u64 list \<Rightarrow> nat \<Rightarrow> (nat \<Rightarrow> u64) \<Rightarrow> nat \<Rightarrow> u64" where
  "XioComEnqueue src dst mem = (\<lambda>a. if dst \<le> a \<and> a < dst + length src then src ! (a - dst) else mem a)"

definition XioComDequeue :: "nat \<Rightarrow> nat \<Rightarrow> (nat \<Rightarrow> u64) \<Rightarrow> u64 list" where
  "XioComDequeue n src mem = map (\<lambda>i. mem (src + i)) [0..<n]"

text \<open>Two 32-bit fields that share a cell, the one at the lower address first.\<close>

definition pair32 :: "u32 \<Rightarrow> u32 \<Rightarrow> u64" where
  "pair32 lo hi = ucast lo OR push_bit 32 (ucast hi)"

definition lo_of :: "u64 \<Rightarrow> u32" where
  "lo_of w = ucast w"

definition hi_of :: "u64 \<Rightarrow> u32" where
  "hi_of w = ucast (drop_bit 32 w)"

subsection \<open>Command ring of the MMIO bridge\<close>

record mmio_command =
  target_bdf :: u16
  target_bar :: u8
  mc_offset :: u32
  mc_value :: u64
  mc_command :: u8
  mc_size :: u8
  mc_status :: u8
  mc_sequence :: u32

record mmio_bridge =
  producer_idx :: u32
  consumer_idx :: u32
  queue_depth :: u32
  commands :: "nat \<Rightarrow> mmio_command"

definition PCI_MMIO_BRIDGE_CMD_WRITE :: u8 where "PCI_MMIO_BRIDGE_CMD_WRITE = 1"
definition PCI_MMIO_BRIDGE_STATUS_PENDING :: u8 where "PCI_MMIO_BRIDGE_STATUS_PENDING = 0"

definition genPciMmioBridgeCmd :: "u16 \<Rightarrow> u8 \<Rightarrow> u32 \<Rightarrow> u64 \<Rightarrow> u8 \<Rightarrow> u8 \<Rightarrow> mmio_bridge \<Rightarrow> mmio_bridge" where
  "genPciMmioBridgeCmd bdf bar offset val cmd sz m =
     (let slot = producer_idx m mod queue_depth m in
      m\<lparr>commands := (commands m)(unat slot :=
           \<lparr>target_bdf = bdf, target_bar = bar, mc_offset = offset, mc_value = val, mc_command = cmd, mc_size = sz,
            mc_status = PCI_MMIO_BRIDGE_STATUS_PENDING, mc_sequence = slot\<rparr>),
         producer_idx := producer_idx m + 1\<rparr>)"

subsection \<open>Kernels\<close>

text \<open>
  A kernel works on a queue pair, on pairs of a source and a destination buffer, and on the two counters of
  verification, which may be absent. What the adapter writes to the buffers while a kernel waits is the argument
  \<open>dma\<close>: the buffers after the wait, from the queue pair then, the number of writes of this round and the buffers
  before.
\<close>

type_synonym bufs = "(u8 list \<times> u8 list) list"

record 'q kstate =
  kqp :: 'q
  kbufs :: bufs
  kpass :: "u32 option"
  kfail :: "u32 option"

definition prepare_verify_buffer :: "u32 \<Rightarrow> u32 \<Rightarrow> u8 list \<times> u8 list \<Rightarrow> u8 list \<times> u8 list" where
  "prepare_verify_buffer n sd b =
     (fst (dataPattern False 0 n sd (unat n) (fst b)), replicate (unat n) 0 @ drop (unat n) (snd b))"

definition verify_buffer :: "u32 \<Rightarrow> u32 \<Rightarrow> u8 list \<Rightarrow> 'q kstate \<Rightarrow> 'q kstate" where
  "verify_buffer n sd dst s =
     (if snd (dataPattern True 0 n sd (unat n) dst) = None then s\<lparr>kpass := map_option (\<lambda>c. c + 1) (kpass s)\<rparr>
      else s\<lparr>kfail := map_option (\<lambda>c. c + 1) (kfail s)\<rparr>)"

definition kernel_round ::
    "('q \<Rightarrow> 'q option) \<Rightarrow> ('q \<Rightarrow> 'q option) \<Rightarrow> ('q \<Rightarrow> nat \<Rightarrow> bufs \<Rightarrow> bufs) \<Rightarrow> u32 \<Rightarrow> bool \<Rightarrow> u32 \<Rightarrow> 'q kstate \<Rightarrow> 'q kstate option" where
  "kernel_round put_nbi_single quiet_single dma n doVerify iterSeed s =
     (let s0 = (if doVerify then s\<lparr>kbufs := (kbufs s)[0 := prepare_verify_buffer n iterSeed (kbufs s ! 0)]\<rparr> else s) in do {
        q1 \<leftarrow> put_nbi_single (kqp s0); q2 \<leftarrow> quiet_single q1;
        let s2 = s0\<lparr>kqp := q2, kbufs := dma q2 1 (kbufs s0)\<rparr>;
        Some (if doVerify then verify_buffer n iterSeed (snd (kbufs s2 ! 0)) s2 else s2) })"

partial_function (option) rdma_ep_kernel ::
    "('q \<Rightarrow> 'q option) \<Rightarrow> ('q \<Rightarrow> 'q option) \<Rightarrow> ('q \<Rightarrow> nat \<Rightarrow> bufs \<Rightarrow> bufs) \<Rightarrow> ('q \<Rightarrow> bool) \<Rightarrow> u32 \<Rightarrow> u32 \<Rightarrow> bool \<Rightarrow> u32 \<Rightarrow> u32
       \<Rightarrow> 'q kstate \<Rightarrow> 'q kstate option" where
  "rdma_ep_kernel put_nbi_single quiet_single dma stopRequested iters n doVerify baseSeed i s =
     (if (iters = 0 \<or> i < iters) \<and> \<not> stopRequested (kqp s)
      then do {
        s1 \<leftarrow> kernel_round put_nbi_single quiet_single dma n doVerify (baseSeed + i) s;
        rdma_ep_kernel put_nbi_single quiet_single dma stopRequested iters n doVerify baseSeed (i + 1) s1 }
      else Some s)"

text \<open>The batch kernel: the workers prepare the buffers of a batch, the coordinator posts, rings once, waits and verifies.\<close>

fun post_batch :: "(nat \<Rightarrow> 'q \<Rightarrow> 'q option) \<Rightarrow> nat \<Rightarrow> nat \<Rightarrow> 'q \<Rightarrow> 'q option" where
  "post_batch put_nbi_single b 0 q = Some q"
| "post_batch put_nbi_single b (Suc k) q = do { q1 \<leftarrow> put_nbi_single b q; post_batch put_nbi_single (Suc b) k q1 }"

definition batch_op :: "u32 \<Rightarrow> u32 \<Rightarrow> nat \<Rightarrow> u32" where
  "batch_op iters ops_done b = (if iters = 0 then of_nat b else ops_done + of_nat b)"

definition prepare_batch :: "u32 \<Rightarrow> u32 \<Rightarrow> u32 \<Rightarrow> u32 \<Rightarrow> nat \<Rightarrow> bufs \<Rightarrow> bufs" where
  "prepare_batch iters n baseSeed ops_done k bs =
     map (\<lambda>b. if b < k then prepare_verify_buffer n (baseSeed + batch_op iters ops_done b) (bs ! b) else bs ! b) [0..<length bs]"

fun verify_batch :: "u32 \<Rightarrow> u32 \<Rightarrow> u32 \<Rightarrow> u32 \<Rightarrow> nat \<Rightarrow> nat \<Rightarrow> 'q kstate \<Rightarrow> 'q kstate" where
  "verify_batch iters n baseSeed ops_done b 0 s = s"
| "verify_batch iters n baseSeed ops_done b (Suc k) s =
     verify_batch iters n baseSeed ops_done (Suc b) k (verify_buffer n (baseSeed + batch_op iters ops_done b) (snd (kbufs s ! b)) s)"

definition batch_count :: "u32 \<Rightarrow> u32 \<Rightarrow> u32 \<Rightarrow> u32" where
  "batch_count iters bsize ops_done =
     (let remaining = (if iters = 0 then bsize else iters - ops_done)
      in if remaining < bsize then remaining else bsize)"

definition batch_round ::
    "(nat \<Rightarrow> 'q \<Rightarrow> 'q option) \<Rightarrow> ('q \<Rightarrow> 'q) \<Rightarrow> ('q \<Rightarrow> 'q option) \<Rightarrow> ('q \<Rightarrow> nat \<Rightarrow> bufs \<Rightarrow> bufs) \<Rightarrow> u32 \<Rightarrow> u32 \<Rightarrow> bool \<Rightarrow> u32 \<Rightarrow> u32 \<Rightarrow> nat
       \<Rightarrow> 'q kstate \<Rightarrow> 'q kstate option" where
  "batch_round put_nbi_single ring_doorbell_single quiet_single dma iters n doVerify baseSeed ops_done k s =
     (let s0 = (if doVerify then s\<lparr>kbufs := prepare_batch iters n baseSeed ops_done k (kbufs s)\<rparr> else s) in do {
        q1 \<leftarrow> post_batch put_nbi_single 0 k (kqp s0);
        q2 \<leftarrow> quiet_single (ring_doorbell_single q1);
        let s2 = s0\<lparr>kqp := q2, kbufs := dma q2 k (kbufs s0)\<rparr>;
        Some (if doVerify then verify_batch iters n baseSeed ops_done 0 k s2 else s2) })"

partial_function (option) rdma_ep_batch_kernel ::
    "(nat \<Rightarrow> 'q \<Rightarrow> 'q option) \<Rightarrow> ('q \<Rightarrow> 'q) \<Rightarrow> ('q \<Rightarrow> 'q option) \<Rightarrow> ('q \<Rightarrow> nat \<Rightarrow> bufs \<Rightarrow> bufs) \<Rightarrow> ('q \<Rightarrow> bool) \<Rightarrow> u32 \<Rightarrow> u32 \<Rightarrow> u32 \<Rightarrow> bool
       \<Rightarrow> u32 \<Rightarrow> u32 \<Rightarrow> 'q kstate \<Rightarrow> 'q kstate option" where
  "rdma_ep_batch_kernel put_nbi_single ring_doorbell_single quiet_single dma stopRequested iters bsize n doVerify baseSeed ops_done s =
     (if (if iters = 0 then bsize else iters - ops_done) = 0 \<or> stopRequested (kqp s) then Some s
      else let k = batch_count iters bsize ops_done in do {
        s1 \<leftarrow> batch_round put_nbi_single ring_doorbell_single quiet_single dma iters n doVerify baseSeed ops_done (unat k) s;
        if (iters \<noteq> 0 \<and> ops_done + k \<ge> iters) \<or> stopRequested (kqp s1) then Some s1
        else rdma_ep_batch_kernel put_nbi_single ring_doorbell_single quiet_single dma stopRequested iters bsize n doVerify baseSeed
               (ops_done + k) s1 })"

subsection \<open>Lemmas\<close>

lemma byteswap16_bit: "bit (byteswap16 w) n \<longleftrightarrow> n < 16 \<and> bit w (if n < 8 then n + 8 else n - 8)"
  by (auto simp: byteswap16_def bit_simps add.commute dest: bit_imp_le_length)

lemma byteswap16_twice [simp]: "byteswap16 (byteswap16 w) = w"
  by (rule bit_word_eqI) (auto simp: byteswap16_bit)

lemma byteswap32_bit: "bit (byteswap32 w) n \<longleftrightarrow> n < 32 \<and> bit w (24 - 8 * (n div 8) + n mod 8)"
proof -
  consider "n < 8" | "8 \<le> n" "n < 16" | "16 \<le> n" "n < 24" | "24 \<le> n" "n < 32" | "32 \<le> n" by linarith
  then show ?thesis
  proof cases
    case 1
    then have "n div 8 = 0" "n mod 8 = n" by simp_all
    then show ?thesis using 1 by (simp add: byteswap32_def bit_simps)
  next
    case 2
    then have "n div 8 = 1" "n mod 8 = n - 8" by (simp_all add: div_nat_eqI mod_if)
    then show ?thesis using 2 by (auto simp: byteswap32_def bit_simps)
  next
    case 3
    then have "n div 8 = 2" "n mod 8 = n - 16" by (simp_all add: div_nat_eqI mod_if)
    then show ?thesis using 3 by (auto simp: byteswap32_def bit_simps)
  next
    case 4
    then have "n div 8 = 3" "n mod 8 = n - 24" by (simp_all add: div_nat_eqI mod_if)
    then show ?thesis using 4 by (auto simp: byteswap32_def bit_simps)
  next
    case 5
    then show ?thesis by (simp add: byteswap32_def bit_simps)
  qed
qed

lemma byte_mirror:
  assumes "d \<le> 3" and "r < (8 :: nat)"
  shows "24 - 8 * ((24 - 8 * d + r) div 8) + (24 - 8 * d + r) mod 8 = 8 * d + r"
proof -
  have k: "24 - 8 * d + r = r + 8 * (3 - d)" by simp
  have "(24 - 8 * d + r) div 8 = 3 - d" "(24 - 8 * d + r) mod 8 = r"
    unfolding k using assms(2) by simp_all
  then show ?thesis using assms(1) by linarith
qed

lemma byteswap32_twice [simp]: "byteswap32 (byteswap32 w) = w"
proof (rule bit_word_eqI)
  fix n assume "n < LENGTH(32)"
  then have n: "n div 8 \<le> 3" "n < 32" by simp_all
  let ?k = "24 - 8 * (n div 8) + n mod 8"
  have "24 - 8 * (?k div 8) + ?k mod 8 = n" using byte_mirror [OF n(1), of "n mod 8"] by (simp only: mult_div_mod_eq mod_less_divisor)
  moreover have "?k < 32" using mod_less_divisor [of 8 n] by linarith
  ultimately show "bit (byteswap32 (byteswap32 w)) n = bit w n" using n(2) unfolding byteswap32_bit by metis
qed

lemma provider_roundtrip: "provider_from_string (Some (provider_name p)) = p"
  by (cases p) (simp_all add: provider_name_def provider_from_string_def)

lemma check_pattern_None:
  "check_pattern off blk sd buf is = None \<longleftrightarrow> (\<forall>i\<in>set is. buf ! i = pattern_byte off blk sd i)"
  by (induction "is") auto

lemma check_pattern_upt_Some:
  assumes "check_pattern off blk sd buf [k..<n] = Some i"
  shows "k \<le> i \<and> i < n \<and> buf ! i \<noteq> pattern_byte off blk sd i \<and> (\<forall>j\<in>{k..<i}. buf ! j = pattern_byte off blk sd j)"
  using assms
proof (induction "n - k" arbitrary: k)
  case 0
  then show ?case by simp
next
  case (Suc m)
  then have kn: "k < n" by simp
  show ?case
  proof (cases "buf ! k = pattern_byte off blk sd k")
    case False
    then show ?thesis using Suc.prems kn by (simp add: upt_conv_Cons)
  next
    case True
    then have "check_pattern off blk sd buf [Suc k..<n] = Some i" using Suc.prems kn by (simp add: upt_conv_Cons)
    from Suc.hyps(1) [OF _ this] Suc.hyps(2)
    have IH: "Suc k \<le> i \<and> i < n \<and> buf ! i \<noteq> pattern_byte off blk sd i \<and>
        (\<forall>j\<in>{Suc k..<i}. buf ! j = pattern_byte off blk sd j)" by simp
    have "buf ! j = pattern_byte off blk sd j" if "j \<in> {k..<i}" for j
      using that IH True by (cases "j = k") auto
    then show ?thesis using IH by auto
  qed
qed

lemma fill_pattern_nth: "i < n \<Longrightarrow> fill_pattern off blk sd n buf ! i = pattern_byte off blk sd i"
  by (simp add: fill_pattern_def nth_append)

lemma fill_pattern_length: "n \<le> length buf \<Longrightarrow> length (fill_pattern off blk sd n buf) = length buf"
  by (simp add: fill_pattern_def)

lemma verify_filled: "snd (dataPattern True off blk sd n (fst (dataPattern False off blk sd n buf))) = None"
  by (simp add: dataPattern_def check_pattern_None fill_pattern_nth)

lemma lo_of_pair32 [simp]: "lo_of (pair32 lo hi) = lo"
  unfolding lo_of_def pair32_def by (rule bit_word_eqI) (simp add: bit_simps)

lemma hi_of_pair32 [simp]: "hi_of (pair32 lo hi) = hi"
  unfolding hi_of_def pair32_def
  by (rule bit_word_eqI) (auto simp: bit_simps dest: bit_imp_le_length)

lemma dequeue_enqueued: "XioComDequeue (length ws) a (XioComEnqueue ws a mem) = ws"
  by (rule nth_equalityI) (simp_all add: XioComDequeue_def XioComEnqueue_def)

lemma dequeue_frame:
  assumes "a + n \<le> d \<or> d + length ws \<le> a"
  shows "XioComDequeue n a (XioComEnqueue ws d mem) = XioComDequeue n a mem"
  using assms by (auto simp: XioComDequeue_def XioComEnqueue_def)

lemma dequeue_append: "XioComDequeue (m + n) a mem = XioComDequeue m a mem @ XioComDequeue n (a + m) mem"
  by (rule nth_equalityI) (auto simp: XioComDequeue_def nth_append)

lemma mod_distance:
  fixes c p d :: nat
  assumes "0 < d" "c \<le> p"
  shows "(p mod d + d - c mod d) mod d = (p - c) mod d"
proof -
  have le: "c mod d \<le> d" using assms(1) mod_less_divisor [of d c] by linarith
  have "int ((p mod d + d - c mod d) mod d) = (int (p mod d) + int d - int (c mod d)) mod int d"
    using le by (simp add: zmod_int of_nat_diff)
  also have "\<dots> = (int p - int c) mod int d"
    by (simp add: zmod_int mod_simps) (metis add_diff_eq diff_add_eq mod_add_self2 mod_diff_left_eq)
  also have "\<dots> = int ((p - c) mod d)" using assms(2) by (simp add: zmod_int of_nat_diff)
  finally show ?thesis by linarith
qed

lemma unat_nat_small: "n < 2 ^ LENGTH('a) \<Longrightarrow> unat (of_nat n :: 'a::len word) = n"
  by (simp add: unsigned_of_nat take_bit_nat_eq_self)

lemma unat_succ: "unat (w :: u32) < 0xFFFFFFFF \<Longrightarrow> unat (w + 1) = Suc (unat w)"
  by (simp add: unat_word_ariths)

lemma unat_succ_diff: "Suc m = unat (w :: u32) \<Longrightarrow> unat (w - 1) = m"
  by (cases "w = 0") (simp_all add: unat_minus_one)

lemma unat_of_nat_mod: "d = unat (w :: 'a::len word) \<Longrightarrow> 0 < d \<Longrightarrow> unat (of_nat (p mod d) :: 'a word) = p mod d"
  by (rule unat_nat_small) (metis mod_less_divisor order_less_trans unsigned_less)

text \<open>The number of free slots that a ring computes from its two indices is exact up to a whole turn of the ring.\<close>

lemma sq_available_exact:
  fixes d :: u32
  assumes d: "0 < d" "d \<le> 0x80000000" and cp: "c \<le> p"
    and h: "h = of_nat (c mod unat d)" and t: "t = of_nat (p mod unat d)"
  shows "unat (sq_available d h t) = unat d - (p - c) mod unat d"
proof -
  have D: "0 < unat d" "unat d \<le> 0x80000000" using d by (simp_all add: word_less_nat_alt word_le_nat_alt unat_gt_0)
  have uh: "unat h = c mod unat d" and ut: "unat t = p mod unat d"
    unfolding h t using D(1) by (simp_all add: unat_of_nat_mod [OF refl])
  have lt: "unat h < unat d" "unat t < unat d" unfolding uh ut using D(1) by simp_all
  have e: "t - h + d = of_nat (unat t + unat d - unat h)"
    using lt by (simp add: of_nat_diff)
  have ub: "unat (t - h + d) = unat t + unat d - unat h"
    unfolding e by (rule unat_nat_small) (use lt D in simp)
  have "unat ((t - h + d) mod d) = (p - c) mod unat d"
    by (simp add: unat_mod ub uh ut mod_distance [OF D(1) cp])
  moreover have "(t - h + d) mod d \<le> d" using D(1)
    by (simp add: word_le_nat_alt unat_mod less_imp_le)
  ultimately show ?thesis by (simp add: sq_available_def Let_def unat_sub)
qed

lemma next_index:
  fixes d :: u32
  assumes "0 < d" and "d \<le> 0x80000000" and "i = of_nat (c mod unat d)"
  shows "(if i + 1 \<ge> d then 0 else i + 1) = of_nat (Suc c mod unat d)"
proof -
  have D: "0 < unat d" "unat d \<le> 0x80000000" using assms by (simp_all add: word_less_nat_alt word_le_nat_alt unat_gt_0)
  have ui: "unat i = c mod unat d" unfolding assms(3) using D(1) by (simp add: unat_of_nat_mod [OF refl])
  then have lt: "unat i < unat d" using D(1) by simp
  have u1: "unat (i + 1) = Suc (unat i)" using lt D(2) by (intro unat_succ) linarith
  show ?thesis
  proof (cases "Suc (unat i) = unat d")
    case True
    then have "Suc c mod unat d = 0" by (simp add: mod_Suc flip: ui)
    moreover have "d \<le> i + 1" using True by (simp add: word_le_nat_alt u1)
    ultimately show ?thesis by simp
  next
    case False
    then have "Suc c mod unat d = Suc (unat i)" by (simp add: mod_Suc flip: ui)
    moreover have "\<not> d \<le> i + 1" using False lt by (simp add: word_le_nat_alt u1)
    moreover have "i + 1 = of_nat (Suc (unat i))" by (simp flip: u1)
    ultimately show ?thesis by (simp only: if_False)
  qed
qed


text \<open>Rings whose depth is a power of two.\<close>

definition ring_size :: "u32 \<Rightarrow> bool" where
  "ring_size d \<longleftrightarrow> (\<exists>a\<le>24. d = 2 ^ a)"

lemma unat_pow2:
  assumes "a < 32"
  shows "unat (2 ^ a :: u32) = 2 ^ a"
proof -
  have "(2::nat) ^ a < 2 ^ 32" using assms by (intro power_strict_increasing) simp_all
  then have "unat (of_nat (2 ^ a) :: u32) = 2 ^ a" by (intro unat_nat_small) simp
  then show ?thesis by simp
qed

lemma ring_size_pos: "ring_size d \<Longrightarrow> 0 < d \<and> d \<le> 0x80000000 \<and> 0 < unat d \<and> unat d \<le> 2 ^ 24"
proof -
  assume "ring_size d"
  then obtain a where a: "a \<le> 24" "d = 2 ^ a" by (auto simp: ring_size_def)
  have u: "unat d = 2 ^ a" using a by (simp add: unat_pow2)
  have "(2::nat) ^ a \<le> 2 ^ 24" using a(1) by (intro power_increasing) simp_all
  then show ?thesis using u by (simp add: word_less_nat_alt word_le_nat_alt)
qed

lemma ring_size_unat: "ring_size d \<Longrightarrow> \<exists>a\<le>24. unat d = 2 ^ a"
  by (auto simp: ring_size_def unat_pow2)

text \<open>Stepping an index of a ring of twice the depth.\<close>

lemma next_double_index:
  assumes "ring_size d"
  shows "(of_nat (c mod (2 * unat d)) + 1) AND (push_bit 1 d - 1) = (of_nat (Suc c mod (2 * unat d)) :: u32)"
proof -
  obtain a where a: "a \<le> 24" "d = 2 ^ a" "unat d = 2 ^ a" using assms ring_size_unat by (auto simp: ring_size_def unat_pow2)
  have m: "push_bit 1 d - 1 = (mask (Suc a) :: u32)" by (simp add: a(2) mask_eq_exp_minus_1 push_bit_eq_mult)
  have "(of_nat (c mod (2 * unat d)) + 1) AND mask (Suc a) = take_bit (Suc a) (of_nat (Suc (c mod 2 ^ Suc a)) :: u32)"
    by (simp add: a(3) take_bit_eq_mask add.commute)
  also have "\<dots> = of_nat (take_bit (Suc a) (Suc (c mod 2 ^ Suc a)))" by (simp only: take_bit_of_nat)
  also have "\<dots> = of_nat (Suc c mod (2 * unat d))" by (simp add: take_bit_eq_mod a(3) mod_Suc_eq)
  finally show ?thesis by (simp only: m)
qed

lemma double_index_eq:
  assumes "ring_size d" "c \<le> s" "s \<le> c + unat d"
  shows "(of_nat (s mod (2 * unat d)) :: u32) = of_nat (c mod (2 * unat d)) \<longleftrightarrow> s = c"
proof -
  have d: "0 < unat d" "unat d \<le> 2 ^ 24" using ring_size_pos [OF assms(1)] by simp_all
  have u: "unat (of_nat (x mod (2 * unat d)) :: u32) = x mod (2 * unat d)" for x
  proof (rule unat_nat_small)
    have "x mod (2 * unat d) < 2 * unat d" using d(1) by simp
    then show "x mod (2 * unat d) < 2 ^ LENGTH(32)" using d(2) by simp
  qed
  have "s mod (2 * unat d) = c mod (2 * unat d) \<longleftrightarrow> s = c"
  proof
    assume "s mod (2 * unat d) = c mod (2 * unat d)"
    then have "(2 * unat d) dvd (s - c)" using assms(2) mod_eq_dvd_iff_nat by blast
    moreover have "s - c < 2 * unat d" using assms(3) d(1) by linarith
    ultimately show "s = c" using assms(2) by (auto dest: dvd_imp_le)
  qed simp
  then show ?thesis using u [of s] u [of c] by metis
qed

text \<open>Lanes: the rank of a lane is its position among the lanes of its mask.\<close>

lemma lane_rank_filter: "lane < 64 \<Longrightarrow> lane_rank m lane = length (filter (bit m) [0..<lane])"
proof -
  assume l: "lane < 64"
  have m: "push_bit lane 1 - 1 = (mask lane :: u64)" by (simp add: mask_eq_exp_minus_1 push_bit_eq_mult)
  have s: "[0..<64] = [0..<lane] @ [lane..<64]" using l upt_add_eq_append [of 0 lane "64 - lane"] by simp
  have "filter (bit (m AND mask lane)) [0..<lane] = filter (bit m) [0..<lane]"
    using l by (intro filter_cong) (auto simp: bit_simps)
  moreover have "filter (bit (m AND mask lane)) [lane..<64] = []" by (simp add: filter_empty_conv bit_simps)
  ultimately show ?thesis unfolding lane_rank_def lanes_of_def m s by simp
qed

lemma lane_rank_nth:
  assumes "k < length (lanes_of m)"
  shows "lanes_of m ! k < 64 \<and> bit m (lanes_of m ! k) \<and> lane_rank m (lanes_of m ! k) = k"
proof -
  let ?l = "lanes_of m ! k"
  have l: "?l < 64" "bit m ?l" using nth_mem [OF assms] by (simp_all add: lanes_of_def)
  have "[0..<64] = [0..<?l] @ [?l..<64]" using l(1) upt_add_eq_append [of 0 ?l "64 - ?l"] by simp
  then have s: "lanes_of m = filter (bit m) [0..<?l] @ ?l # filter (bit m) [Suc ?l..<64]"
    using l by (metis (no_types, lifting) filter.simps(2) filter_append lanes_of_def upt_conv_Cons)
  let ?r = "length (filter (bit m) [0..<?l])"
  have "lanes_of m ! ?r = ?l" "?r < length (lanes_of m)" by (subst s, simp)+
  moreover have "distinct (lanes_of m)" by (simp add: lanes_of_def)
  ultimately have "?r = k" using assms nth_eq_iff_index_eq by blast
  then show ?thesis using l by (simp add: lane_rank_filter)
qed

subsection \<open>What the kernels need of a queue pair\<close>

text \<open>
  \<open>posted\<close> and \<open>completed\<close> count work requests; \<open>stop\<close> is what the kernel reads through \<open>stopRequested\<close>. A post into a
  queue pair with nothing outstanding returns, and so does the wait after it, with nothing outstanding unless the run
  was stopped.
\<close>

definition rma_delivered :: "u32 \<Rightarrow> nat \<Rightarrow> bufs \<Rightarrow> bufs" where
  "rma_delivered n k bs = map (\<lambda>b. (fst b, take (unat n) (fst b) @ drop (unat n) (snd b))) (take k bs) @ drop k bs"

definition bufs_ok :: "u32 \<Rightarrow> bufs \<Rightarrow> bool" where
  "bufs_ok n bs = list_all (\<lambda>b. length (fst b) = unat n \<and> length (snd b) = unat n) bs"

definition prepared :: "u32 \<Rightarrow> u32 \<Rightarrow> u8 list \<times> u8 list \<Rightarrow> bool" where
  "prepared n sd b \<longleftrightarrow> fst b = map (pattern_byte 0 n sd) [0..<unat n] \<and> length (snd b) = unat n"

lemma prepare_prepared: "length (fst b) = unat n \<Longrightarrow> length (snd b) = unat n \<Longrightarrow> prepared n sd (prepare_verify_buffer n sd b)"
  by (simp add: prepared_def prepare_verify_buffer_def dataPattern_def fill_pattern_def)

lemma prepared_lengths: "prepared n sd b \<Longrightarrow> length (fst b) = unat n \<and> length (snd b) = unat n"
  by (auto simp: prepared_def)

lemma verify_delivered:
  assumes "prepared n sd b"
  shows "verify_buffer n sd (take (unat n) (fst b) @ drop (unat n) (snd b)) s = s\<lparr>kpass := map_option (\<lambda>c. c + 1) (kpass s)\<rparr>"
  using assms by (simp add: prepared_def verify_buffer_def dataPattern_def check_pattern_None)

lemma bufs_ok_nth: "bufs_ok n bs \<Longrightarrow> i < length bs \<Longrightarrow> length (fst (bs ! i)) = unat n \<and> length (snd (bs ! i)) = unat n"
  by (simp add: bufs_ok_def list_all_length)

lemma bufs_ok_update: "bufs_ok n bs \<Longrightarrow> prepared n sd b \<Longrightarrow> bufs_ok n (bs[i := b])"
  unfolding bufs_ok_def list_all_iff using set_update_subset_insert [of bs i b] prepared_lengths by blast

lemma bufs_ok_delivered: "bufs_ok n bs \<Longrightarrow> bufs_ok n (rma_delivered n k bs)"
  by (fastforce simp: bufs_ok_def rma_delivered_def list_all_iff dest: in_set_takeD in_set_dropD)

lemma rma_delivered_length [simp]: "length (rma_delivered n k bs) = length bs"
  by (simp add: rma_delivered_def)

lemma rma_delivered_nth:
  "i < k \<Longrightarrow> i < length bs \<Longrightarrow> rma_delivered n k bs ! i = (fst (bs ! i), take (unat n) (fst (bs ! i)) @ drop (unat n) (snd (bs ! i)))"
  by (simp add: rma_delivered_def nth_append)

lemma verify_buffer_frame [simp]:
  "kqp (verify_buffer n sd d s) = kqp s" "kbufs (verify_buffer n sd d s) = kbufs s"
  by (simp_all add: verify_buffer_def)

lemma prepare_batch_length [simp]: "length (prepare_batch iters n sd j k bs) = length bs"
  by (simp add: prepare_batch_def)

lemma prepare_batch_prepared:
  "bufs_ok n bs \<Longrightarrow> b < k \<Longrightarrow> b < length bs \<Longrightarrow> prepared n (sd + batch_op iters j b) (prepare_batch iters n sd j k bs ! b)"
  using bufs_ok_nth [of n bs b] by (simp add: prepare_batch_def prepare_prepared)

lemma prepare_batch_ok:
  assumes "bufs_ok n bs"
  shows "bufs_ok n (prepare_batch iters n sd j k bs)"
proof -
  have "length (fst (prepare_batch iters n sd j k bs ! b)) = unat n \<and> length (snd (prepare_batch iters n sd j k bs ! b)) = unat n"
    if "b < length bs" for b
  proof (cases "b < k")
    case True
    then show ?thesis using prepare_batch_prepared [OF assms True that] prepared_lengths by blast
  next
    case False
    then show ?thesis using bufs_ok_nth [OF assms that] that by (simp add: prepare_batch_def)
  qed
  then show ?thesis by (simp add: bufs_ok_def list_all_length)
qed

lemma verify_batch_frame [simp]:
  "kqp (verify_batch iters n sd j b k s) = kqp s" "kbufs (verify_batch iters n sd j b k s) = kbufs s"
  by (induction k arbitrary: b s) simp_all

lemma verify_batch_delivered:
  assumes "\<forall>i<k. \<exists>x. prepared n (sd + batch_op iters j (b + i)) x \<and>
      snd (kbufs s ! (b + i)) = take (unat n) (fst x) @ drop (unat n) (snd x)"
  shows "verify_batch iters n sd j b k s = s\<lparr>kpass := map_option (\<lambda>c. c + of_nat k) (kpass s)\<rparr>"
  using assms
proof (induction k arbitrary: b s)
  case 0
  then show ?case by (simp add: option.map_ident)
next
  case (Suc k)
  obtain x where x: "prepared n (sd + batch_op iters j b) x" "snd (kbufs s ! b) = take (unat n) (fst x) @ drop (unat n) (snd x)"
    using Suc.prems [rule_format, of 0] by auto
  let ?s = "s\<lparr>kpass := map_option (\<lambda>c. c + 1) (kpass s)\<rparr>"
  have v: "verify_buffer n (sd + batch_op iters j b) (snd (kbufs s ! b)) s = ?s"
    unfolding x(2) by (rule verify_delivered [OF x(1)])
  have "\<forall>i<k. \<exists>x. prepared n (sd + batch_op iters j (Suc b + i)) x \<and>
      snd (kbufs ?s ! (Suc b + i)) = take (unat n) (fst x) @ drop (unat n) (snd x)"
  proof (intro allI impI)
    fix i assume "i < k"
    then show "\<exists>x. prepared n (sd + batch_op iters j (Suc b + i)) x \<and>
        snd (kbufs ?s ! (Suc b + i)) = take (unat n) (fst x) @ drop (unat n) (snd x)"
      using Suc.prems [rule_format, of "Suc i"] by simp
  qed
  from Suc.IH [OF this] show ?case
    by (cases "kpass s") (simp_all add: v algebra_simps)
qed

lemma batch_count_bounds:
  fixes iters bsize j :: u32
  assumes "iters \<noteq> 0" "j < iters" "0 < bsize"
  defines "k \<equiv> batch_count iters bsize j"
  shows "0 < unat k" "k \<le> bsize" "j + k \<le> iters" "unat (iters - (j + k)) + unat k = unat (iters - j)"
proof -
  let ?r = "iters - j"
  have k: "k = (if ?r < bsize then ?r else bsize)" using assms(1) by (simp add: k_def batch_count_def Let_def)
  have r: "unat ?r = unat iters - unat j" using assms(2) by (simp add: unat_sub less_imp_le)
  have jk: "unat j < unat iters" using assms(2) by (simp add: word_less_nat_alt)
  show pos: "0 < unat k" using r jk assms(3) by (auto simp: k unat_gt_0 word_less_nat_alt)
  show "k \<le> bsize" by (simp add: k less_imp_le)
  have le: "k \<le> ?r" by (simp add: k not_less)
  then have ule: "unat k \<le> unat ?r" by (simp add: word_le_nat_alt)
  have u: "unat (j + k) = unat j + unat k"
  proof -
    have "unat j + unat k \<le> unat iters" using ule r jk by linarith
    also have "\<dots> < 2 ^ 32" using unsigned_less [of iters] by simp
    finally show ?thesis by (simp add: unat_word_ariths)
  qed
  show le2: "j + k \<le> iters" unfolding word_le_nat_alt u using ule r jk by linarith
  show "unat (iters - (j + k)) + unat k = unat (iters - j)"
    unfolding unat_sub [OF le2] u r using ule r jk by linarith
qed

locale send_queue =
  fixes post :: "'q \<Rightarrow> 'q option" and quiet :: "'q \<Rightarrow> 'q option" and inv :: "'q \<Rightarrow> bool"
    and posted :: "'q \<Rightarrow> nat" and completed :: "'q \<Rightarrow> nat" and stop :: "'q \<Rightarrow> bool"
  assumes post_law: "inv q \<Longrightarrow> completed q = posted q \<Longrightarrow>
      \<exists>q'. post q = Some q' \<and> inv q' \<and> posted q' = Suc (posted q)"
    and quiet_law: "inv q \<Longrightarrow> posted q \<le> Suc (completed q) \<Longrightarrow>
      \<exists>q'. quiet q = Some q' \<and> posted q' = posted q \<and> (inv q' \<and> completed q' = posted q' \<or> stop q')"
    and completed_mono: "quiet q = Some q' \<Longrightarrow> inv q \<Longrightarrow> completed q \<le> completed q'"
    and post_mono: "post q = Some q' \<Longrightarrow> inv q \<Longrightarrow> completed q \<le> completed q'"
begin

text \<open>One round; \<open>v\<close> says whether the buffers are verified.\<close>

lemma round_returns:
  assumes "inv (kqp s)" "completed (kqp s) = posted (kqp s)"
  shows "\<exists>s'. kernel_round post quiet dma n v sd s = Some s' \<and>
      posted (kqp s') = Suc (posted (kqp s)) \<and> (inv (kqp s') \<and> completed (kqp s') = posted (kqp s') \<or> stop (kqp s'))"
proof -
  obtain q1 where q1: "post (kqp s) = Some q1" "inv q1" "posted q1 = Suc (posted (kqp s))" "completed (kqp s) \<le> completed q1"
    using post_law [OF assms] post_mono [OF _ assms(1)] by blast
  then obtain q2 where q2: "quiet q1 = Some q2" "posted q2 = posted q1" "inv q2 \<and> completed q2 = posted q2 \<or> stop q2"
    using quiet_law [of q1] assms(2) by auto
  show ?thesis using q1 q2 by (auto simp: kernel_round_def Let_def)
qed

lemma round_verifies:
  assumes r: "kernel_round post quiet dma n True sd s = Some s'" and c: "completed (kqp s') = posted (kqp s')"
    and d: "\<forall>q k bs. completed q = posted q \<longrightarrow> dma q k bs = rma_delivered n k bs"
    and ok: "bufs_ok n (kbufs s)" and ne: "kbufs s \<noteq> []"
  shows "bufs_ok n (kbufs s') \<and> kbufs s' \<noteq> [] \<and> kpass s' = map_option (\<lambda>c. c + 1) (kpass s) \<and> kfail s' = kfail s"
proof -
  let ?b = "prepare_verify_buffer n sd (kbufs s ! 0)"
  let ?bs = "(kbufs s)[0 := ?b]"
  have p: "prepared n sd ?b" using bufs_ok_nth [OF ok, of 0] ne by (simp add: prepare_prepared)
  obtain q1 q2 where q: "post (kqp s) = Some q1" "quiet q1 = Some q2"
      "s' = verify_buffer n sd (snd (dma q2 1 ?bs ! 0)) (s\<lparr>kqp := q2, kbufs := dma q2 1 ?bs\<rparr>)"
    using r by (auto simp: kernel_round_def Let_def bind_eq_Some_conv)
  have "dma q2 1 ?bs = rma_delivered n 1 ?bs" using d c q(3) by simp
  moreover have "rma_delivered n 1 ?bs ! 0 = (fst ?b, take (unat n) (fst ?b) @ drop (unat n) (snd ?b))"
    using ne by (subst rma_delivered_nth) simp_all
  moreover have "bufs_ok n (rma_delivered n 1 ?bs)" by (rule bufs_ok_delivered [OF bufs_ok_update [OF ok p]])
  moreover have "rma_delivered n 1 ?bs \<noteq> []" using ne by (metis length_0_conv length_list_update rma_delivered_length)
  ultimately show ?thesis unfolding q(3) by (simp add: verify_delivered [OF p])
qed

lemma kernel_completes:
  assumes "inv (kqp s)" "completed (kqp s) = posted (kqp s)" "iters \<noteq> 0" "i \<le> iters"
    and d: "\<forall>q k bs. completed q = posted q \<longrightarrow> dma q k bs = rma_delivered n k bs"
    and "v \<longrightarrow> bufs_ok n (kbufs s) \<and> kbufs s \<noteq> []"
  shows "\<exists>s'. rdma_ep_kernel post quiet dma stop iters n v sd i s = Some s' \<and>
      (stop (kqp s') \<or> completed (kqp s') = posted (kqp s') \<and> posted (kqp s') = posted (kqp s) + unat (iters - i) \<and>
         (v \<longrightarrow> kpass s' = map_option (\<lambda>c. c + (iters - i)) (kpass s) \<and> kfail s' = kfail s))"
  using assms(1,2,4,6)
proof (induction "unat (iters - i)" arbitrary: i s)
  case 0
  then have "i = iters" by (simp add: unat_eq_0)
  then have "rdma_ep_kernel post quiet dma stop iters n v sd i s = Some s" using assms(3)
    by (subst rdma_ep_kernel.simps) simp
  then show ?case using \<open>i = iters\<close> 0(3) by (simp add: option.map_ident)
next
  case (Suc m)
  have "i \<noteq> iters" using Suc.hyps(2) by auto
  then have lt: "i < iters" using Suc.prems(3) by simp
  show ?case
  proof (cases "stop (kqp s)")
    case True
    then show ?thesis by (subst rdma_ep_kernel.simps) simp
  next
    case False
    obtain s1 where s1: "kernel_round post quiet dma n v (sd + i) s = Some s1"
        "posted (kqp s1) = Suc (posted (kqp s))" "inv (kqp s1) \<and> completed (kqp s1) = posted (kqp s1) \<or> stop (kqp s1)"
      using round_returns [OF Suc.prems(1,2)] by blast
    have step: "rdma_ep_kernel post quiet dma stop iters n v sd i s = rdma_ep_kernel post quiet dma stop iters n v sd (i + 1) s1"
      using False lt s1(1) by (subst rdma_ep_kernel.simps) simp
    show ?thesis
    proof (cases "inv (kqp s1) \<and> completed (kqp s1) = posted (kqp s1)")
      case False
      then have "stop (kqp s1)" using s1(3) by blast
      then have "rdma_ep_kernel post quiet dma stop iters n v sd (i + 1) s1 = Some s1"
        by (subst rdma_ep_kernel.simps) simp
      then show ?thesis using step s1(3) False by auto
    next
      case True
      then have inv1: "inv (kqp s1)" and True: "completed (kqp s1) = posted (kqp s1)" by simp_all
      have u: "unat (iters - (i + 1)) = m" "i + 1 \<le> iters"
        using unat_succ_diff [OF Suc.hyps(2)] inc_le [OF lt] by (simp_all add: algebra_simps)
      have v1: "v \<Longrightarrow> bufs_ok n (kbufs s1) \<and> kbufs s1 \<noteq> [] \<and> kpass s1 = map_option (\<lambda>c. c + 1) (kpass s) \<and> kfail s1 = kfail s"
        by (rule round_verifies [OF _ True d]) (use s1(1) Suc.prems(4) in simp_all)
      have v2: "v \<longrightarrow> bufs_ok n (kbufs s1) \<and> kbufs s1 \<noteq> []" using v1 by simp
      obtain s' where s': "rdma_ep_kernel post quiet dma stop iters n v sd (i + 1) s1 = Some s'"
        "stop (kqp s') \<or> completed (kqp s') = posted (kqp s') \<and> posted (kqp s') = posted (kqp s1) + unat (iters - (i + 1)) \<and>
         (v \<longrightarrow> kpass s' = map_option (\<lambda>c. c + (iters - (i + 1))) (kpass s1) \<and> kfail s' = kfail s1)"
        using Suc.hyps(1) [OF u(1) [symmetric] inv1 True u(2) v2] by (elim exE conjE)
      have "map_option (\<lambda>c. c + (iters - (i + 1))) (map_option (\<lambda>c. c + 1) x) = map_option (\<lambda>c. c + (iters - i)) x" for x
        by (cases x) simp_all
      then have "v \<longrightarrow> map_option (\<lambda>c. c + (iters - (i + 1))) (kpass s1) = map_option (\<lambda>c. c + (iters - i)) (kpass s)"
        using v1 by simp
      moreover have "posted (kqp s1) + unat (iters - (i + 1)) = posted (kqp s) + unat (iters - i)"
        using s1(2) u(1) Suc.hyps(2) by linarith
      ultimately show ?thesis using s' v1 unfolding step by (intro exI [of _ s']) simp
    qed
  qed
qed

end


text \<open>
  Batches: a post that does not ring leaves the queue pair \<open>pending\<close>; ringing once afterwards publishes all that was
  posted. Up to \<open>cap\<close> requests may be outstanding.
\<close>

locale batch_queue = send_queue +
  fixes post_nr :: "nat \<Rightarrow> 'a \<Rightarrow> 'a option" and ring :: "'a \<Rightarrow> 'a" and pending :: "'a \<Rightarrow> bool" and cap :: nat
  assumes inv_pending: "inv q \<Longrightarrow> pending q"
    and post_nr_law: "pending q \<Longrightarrow> posted q < completed q + cap \<Longrightarrow>
      \<exists>q'. post_nr b q = Some q' \<and> pending q' \<and> posted q' = Suc (posted q) \<and> completed q \<le> completed q'"
    and ring_law: "pending q \<Longrightarrow> inv (ring q) \<and> posted (ring q) = posted q \<and> completed (ring q) = completed q"
    and quiet_cap: "inv q \<Longrightarrow> posted q \<le> completed q + cap \<Longrightarrow>
      \<exists>q'. quiet q = Some q' \<and> posted q' = posted q \<and> (inv q' \<and> completed q' = posted q' \<or> stop q')"
begin

lemma post_batch_returns:
  assumes "pending q" "posted q + k \<le> completed q + cap"
  shows "\<exists>q'. post_batch post_nr b k q = Some q' \<and> pending q' \<and> posted q' = posted q + k \<and> completed q \<le> completed q'"
  using assms
proof (induction k arbitrary: b q)
  case 0
  then show ?case by simp
next
  case (Suc k)
  obtain q1 where q1: "post_nr b q = Some q1" "pending q1" "posted q1 = Suc (posted q)" "completed q \<le> completed q1"
    using post_nr_law [OF Suc.prems(1), of b] Suc.prems(2) by auto
  have "posted q1 + k \<le> completed q1 + cap" using q1 Suc.prems(2) by linarith
  from Suc.IH [OF q1(2) this, of "Suc b"] obtain q2 where
    "post_batch post_nr (Suc b) k q1 = Some q2" "pending q2" "posted q2 = posted q1 + k" "completed q1 \<le> completed q2" by blast
  then show ?case using q1 by auto
qed

lemma batch_round_returns:
  assumes "inv (kqp s)" "completed (kqp s) = posted (kqp s)" "k \<le> cap"
  shows "\<exists>s'. batch_round post_nr ring quiet dma iters n v sd j k s = Some s' \<and>
      posted (kqp s') = posted (kqp s) + k \<and> (inv (kqp s') \<and> completed (kqp s') = posted (kqp s') \<or> stop (kqp s'))"
proof -
  obtain q1 where q1: "post_batch post_nr 0 k (kqp s) = Some q1" "pending q1" "posted q1 = posted (kqp s) + k"
      "completed (kqp s) \<le> completed q1"
    using post_batch_returns [OF inv_pending [OF assms(1)], of k 0] assms(2,3) by auto
  moreover obtain q2 where q2: "quiet (ring q1) = Some q2" "posted q2 = posted q1" "inv q2 \<and> completed q2 = posted q2 \<or> stop q2"
    using quiet_cap [of "ring q1"] ring_law [OF q1(2)] q1(3,4) assms(2,3) by auto
  ultimately show ?thesis by (auto simp: batch_round_def Let_def)
qed

lemma batch_round_verifies:
  assumes r: "batch_round post_nr ring quiet dma iters n True sd j k s = Some s'" and c: "completed (kqp s') = posted (kqp s')"
    and d: "\<forall>q k bs. completed q = posted q \<longrightarrow> dma q k bs = rma_delivered n k bs"
    and ok: "bufs_ok n (kbufs s)" and le: "k \<le> length (kbufs s)"
  shows "bufs_ok n (kbufs s') \<and> length (kbufs s') = length (kbufs s) \<and>
      kpass s' = map_option (\<lambda>c. c + of_nat k) (kpass s) \<and> kfail s' = kfail s"
proof -
  let ?bs = "prepare_batch iters n sd j k (kbufs s)"
  obtain q2 where q: "s' = verify_batch iters n sd j 0 k (s\<lparr>kqp := q2, kbufs := dma q2 k ?bs\<rparr>)"
    using r by (auto simp: batch_round_def Let_def bind_eq_Some_conv)
  let ?s = "s\<lparr>kqp := q2, kbufs := rma_delivered n k ?bs\<rparr>"
  have d': "dma q2 k ?bs = rma_delivered n k ?bs" using d c q by simp
  have "snd (rma_delivered n k ?bs ! i) = take (unat n) (fst (?bs ! i)) @ drop (unat n) (snd (?bs ! i))" if "i < k" for i
    using that le by (subst rma_delivered_nth) simp_all
  then have "\<forall>i<k. \<exists>x. prepared n (sd + batch_op iters j (0 + i)) x \<and>
      snd (kbufs ?s ! (0 + i)) = take (unat n) (fst x) @ drop (unat n) (snd x)"
    using prepare_batch_prepared [OF ok] le by (intro allI impI exI conjI [rotated]) auto
  then have "verify_batch iters n sd j 0 k ?s = ?s\<lparr>kpass := map_option (\<lambda>c. c + of_nat k) (kpass ?s)\<rparr>"
    by (rule verify_batch_delivered)
  then show ?thesis unfolding q d' using bufs_ok_delivered [OF prepare_batch_ok [OF ok]] by simp
qed

lemma batch_kernel_completes:
  assumes "inv (kqp s)" "completed (kqp s) = posted (kqp s)" "iters \<noteq> 0" "j \<le> iters" "0 < bsize" "unat bsize \<le> cap"
    and d: "\<forall>q k bs. completed q = posted q \<longrightarrow> dma q k bs = rma_delivered n k bs"
    and "v \<longrightarrow> bufs_ok n (kbufs s) \<and> unat bsize \<le> length (kbufs s)"
  shows "\<exists>s'. rdma_ep_batch_kernel post_nr ring quiet dma stop iters bsize n v sd j s = Some s' \<and>
      (stop (kqp s') \<or> completed (kqp s') = posted (kqp s') \<and> posted (kqp s') = posted (kqp s) + unat (iters - j) \<and>
         (v \<longrightarrow> kpass s' = map_option (\<lambda>c. c + (iters - j)) (kpass s) \<and> kfail s' = kfail s))"
  using assms(1,2,4,8)
proof (induction "unat (iters - j)" arbitrary: j s rule: less_induct)
  case less
  let ?K = "\<lambda>j s. rdma_ep_batch_kernel post_nr ring quiet dma stop iters bsize n v sd j s"
  let ?k = "batch_count iters bsize j"
  show ?case
  proof (cases "j = iters \<or> stop (kqp s)")
    case True
    then have "?K j s = Some s" using assms(3) by (subst rdma_ep_batch_kernel.simps) auto
    then show ?thesis using True less.prems(2) by (auto simp: option.map_ident)
  next
    case False
    then have lt: "j < iters" using less.prems(3) by (simp add: order_less_le)
    note k = batch_count_bounds [OF assms(3) lt assms(5)]
    have kcap: "unat ?k \<le> cap" "unat ?k \<le> unat bsize" using k(2) assms(6) by (simp_all add: word_le_nat_alt)
    obtain s1 where s1: "batch_round post_nr ring quiet dma iters n v sd j (unat ?k) s = Some s1"
        "posted (kqp s1) = posted (kqp s) + unat ?k" "inv (kqp s1) \<and> completed (kqp s1) = posted (kqp s1) \<or> stop (kqp s1)"
      using batch_round_returns [OF less.prems(1,2) kcap(1)] by blast
    have step: "?K j s = (if j + ?k \<ge> iters \<or> stop (kqp s1) then Some s1 else ?K (j + ?k) s1)"
      using False assms(3) s1(1) by (subst rdma_ep_batch_kernel.simps) (auto simp: Let_def)
    show ?thesis
    proof (cases "inv (kqp s1) \<and> completed (kqp s1) = posted (kqp s1)")
      case False
      then show ?thesis using step s1(3) by auto
    next
      case True
      then have inv1: "inv (kqp s1)" and True: "completed (kqp s1) = posted (kqp s1)" by simp_all
      have v1: "v \<Longrightarrow> bufs_ok n (kbufs s1) \<and> length (kbufs s1) = length (kbufs s) \<and>
          kpass s1 = map_option (\<lambda>c. c + of_nat (unat ?k)) (kpass s) \<and> kfail s1 = kfail s"
        by (rule batch_round_verifies [OF _ True d]) (use s1(1) less.prems(4) kcap(2) in auto)
      then have v1: "v \<Longrightarrow> bufs_ok n (kbufs s1) \<and> length (kbufs s1) = length (kbufs s) \<and>
          kpass s1 = map_option (\<lambda>c. c + ?k) (kpass s) \<and> kfail s1 = kfail s" by simp
      show ?thesis
      proof (cases "j + ?k \<ge> iters \<or> stop (kqp s1)")
        case True
        have "stop (kqp s1) \<or> iters - j = ?k" using True k(3) by (auto simp: algebra_simps dest: order.antisym)
        then show ?thesis using step True s1(2) \<open>completed (kqp s1) = posted (kqp s1)\<close> v1 by auto
      next
        case False
        have m: "unat (iters - (j + ?k)) < unat (iters - j)" using k(1,4) by linarith
        have v2: "v \<longrightarrow> bufs_ok n (kbufs s1) \<and> unat bsize \<le> length (kbufs s1)" using v1 less.prems(4) by simp
        obtain s' where s': "?K (j + ?k) s1 = Some s'"
          "stop (kqp s') \<or> completed (kqp s') = posted (kqp s') \<and> posted (kqp s') = posted (kqp s1) + unat (iters - (j + ?k)) \<and>
           (v \<longrightarrow> kpass s' = map_option (\<lambda>c. c + (iters - (j + ?k))) (kpass s1) \<and> kfail s' = kfail s1)"
          using less.hyps [OF m inv1 True k(3) v2] by (elim exE conjE)
        have "map_option (\<lambda>c. c + (iters - (j + ?k))) (map_option (\<lambda>c. c + ?k) x) = map_option (\<lambda>c. c + (iters - j)) x" for x
          by (cases x) simp_all
        then have "v \<longrightarrow> map_option (\<lambda>c. c + (iters - (j + ?k))) (kpass s1) = map_option (\<lambda>c. c + (iters - j)) (kpass s)"
          using v1 by simp
        moreover have "posted (kqp s1) + unat (iters - (j + ?k)) = posted (kqp s) + unat (iters - j)"
          using s1(2) k(4) by linarith
        moreover have "?K j s = ?K (j + ?k) s1" using step False by simp
        ultimately show ?thesis using s' v1 by (intro exI [of _ s']) simp
      qed
    qed
  qed
qed

end

end
