(* ===== verification/Rdma_Ernic.thy ===== *)
theory Rdma_Ernic
  imports Rdma_Common
begin

text \<open>
  Device code of the ROCm ERNIC provider (\<^verbatim>\<open>src/src/endpoints/rdma-ep/rocm-ernic/ernic-queue-pair.hip\<close>): work requests in
  the send ring, the producer index and the doorbell, the completion ring and the waits on it. The adapter is an
  environment of two functions of the history: the producer index of its completion ring, and the results of fetching
  atomics. What it promises is stated by \<open>ernic_lawful\<close> and \<open>ernic_live\<close>; no operation depends on them.
\<close>

subsection \<open>Entries\<close>

definition ERNIC_SEND_SIGNALED :: u32 where "ERNIC_SEND_SIGNALED = 2"
definition ERNIC_UAR_QP_SEND :: u32 where "ERNIC_UAR_QP_SEND = 0x40000000"
definition FETCHING_ATOMIC_CNT :: u32 where "FETCHING_ATOMIC_CNT = 1024"

datatype ernic_wr =
    Rdma_wr (wr_remote_addr: u64) (wr_rkey: u32)
  | Atomic_wr (wr_remote_addr: u64) (wr_compare_add: u64) (wr_swap: u64) (wr_rkey: u32)

record ernic_wqe_hdr =
  wr_id :: u64
  num_sge :: u32
  total_len :: u32
  opcode :: u32
  send_flags :: u32
  imm_data :: u32
  wr :: ernic_wr

record ernic_sge =
  sge_addr :: u64
  sge_length :: u32
  sge_lkey :: u32

text \<open>The bytes of an entry, as ten cells of header and two of the scatter element.\<close>

definition wr_cells :: "ernic_wr \<Rightarrow> u64 list" where
  "wr_cells w = (case w of
     Rdma_wr ra rk \<Rightarrow> [ra, pair32 rk 0, 0, 0, 0, 0]
   | Atomic_wr ra ca sw rk \<Rightarrow> [ra, ca, sw, pair32 rk 0, 0, 0])"

definition hdr_cells :: "ernic_wqe_hdr \<Rightarrow> u64 list" where
  "hdr_cells h = [wr_id h, pair32 (num_sge h) (total_len h), pair32 (opcode h) (send_flags h), pair32 (imm_data h) 0] @ wr_cells (wr h)"

definition sge_cells :: "ernic_sge \<Rightarrow> u64 list" where
  "sge_cells g = [sge_addr g, pair32 (sge_length g) (sge_lkey g)]"

subsection \<open>State\<close>

datatype ernic_event =
    E_poll
  | E_cons u32
  | E_wqe u32 ernic_wqe_hdr ernic_sge
  | E_prod_tail u32
  | E_doorbell u32 u32
  | E_bridge u32
  | E_lock u32

text \<open>
  \<open>prod_tail\<close> and \<open>cq_cons\<close> are the words that only this side writes; each is absent when its pointer is null.
  \<open>tr\<close> has the accesses to memory that the adapter shares, the newest first.
\<close>

record ernic_qp =
  sq_depth :: u32
  sq_head :: u32
  sq_tail :: u32
  sq_wqe_size :: u32
  sq_psn :: u32
  sq_lock :: u32
  uar_ptr :: u64
  uar_qp_offset :: u32
  qp_handle :: u32
  mmio_bridge_shadow :: "mmio_bridge option"
  ernic_target_bdf :: u32
  use_mmio_bridge :: bool
  uar_bar_offset :: u32
  prod_tail :: "u32 option"
  cq_cons :: "u32 option"
  cq_depth :: u32
  op_rdma_write :: u8
  op_rdma_write_imm :: u8
  op_rdma_read :: u8
  op_atomic_fa :: u8
  op_atomic_cs :: u8
  qp_rkey :: u32
  qp_lkey :: u32
  nonfetching_atomic :: u64
  nonfetching_atomic_lkey :: u32
  fetching_atomic :: u64
  fetching_atomic_lkey :: u32
  fetching_atomic_idx :: u32
  sq_mem :: "nat \<Rightarrow> u64"
  tr :: "ernic_event list"

record ernic_dev =
  cq_prod :: "ernic_event list \<Rightarrow> u32"
  fetched :: "ernic_event list \<Rightarrow> u32 \<Rightarrow> u64"
  stop_flag :: "ernic_event list \<Rightarrow> bool"

subsection \<open>Operations\<close>

text \<open>\<open>sq_buf\<close> is cell 0 of \<open>sq_mem\<close>.\<close>

definition ernic_get_sq_wqe :: "ernic_qp \<Rightarrow> u32 \<Rightarrow> nat" where
  "ernic_get_sq_wqe q idx = unat (idx * sq_wqe_size q) div 8"

definition ernic_ring_doorbell :: "ernic_qp \<Rightarrow> ernic_qp" where
  "ernic_ring_doorbell q =
     (let q1 = (case prod_tail q of None \<Rightarrow> q
                | Some cur \<Rightarrow> let nxt = (cur + 1) AND (push_bit 1 (sq_depth q) - 1)
                              in q\<lparr>prod_tail := Some nxt, tr := E_prod_tail nxt # tr q\<rparr>);
          val = (qp_handle q AND 0x00FFFFFF) OR ERNIC_UAR_QP_SEND
      in case (if use_mmio_bridge q1 then mmio_bridge_shadow q1 else None) of
           Some m \<Rightarrow> q1\<lparr>mmio_bridge_shadow := Some (genPciMmioBridgeCmd (ucast (ernic_target_bdf q1)) 2 (uar_bar_offset q1)
                         (ucast val) PCI_MMIO_BRIDGE_CMD_WRITE 4 m), tr := E_bridge val # tr q1\<rparr>
         | None \<Rightarrow> if uar_ptr q1 \<noteq> 0 then q1\<lparr>tr := E_doorbell (uar_qp_offset q1 div 4) val # tr q1\<rparr> else q1)"

definition ernic_ring_doorbell_only :: "ernic_qp \<Rightarrow> ernic_qp" where
  "ernic_ring_doorbell_only q = ernic_ring_doorbell q"

text \<open>The body of the polling loop: consume at most one completion.\<close>

definition ernic_consume_cqe :: "ernic_dev \<Rightarrow> ernic_qp \<Rightarrow> ernic_qp" where
  "ernic_consume_cqe dev q = (case cq_cons q of None \<Rightarrow> q
     | Some cons \<Rightarrow>
         let prod = cq_prod dev (tr q); q1 = q\<lparr>tr := E_poll # tr q\<rparr>
         in if prod \<noteq> cons then
              let new_cons = (cons + 1) AND (push_bit 1 (cq_depth q) - 1); h = sq_head q + 1
              in q1\<lparr>cq_cons := Some new_cons, tr := E_cons new_cons # tr q1, sq_head := (if h \<ge> sq_depth q then 0 else h)\<rparr>
            else q1)"

partial_function (option) ernic_poll_cq_until :: "ernic_dev \<Rightarrow> u32 \<Rightarrow> ernic_qp \<Rightarrow> ernic_qp option" where
  "ernic_poll_cq_until dev requested q =
     (let q1 = ernic_consume_cqe dev q
      in if sq_available (sq_depth q1) (sq_head q1) (sq_tail q1) \<ge> requested then Some q1
         else ernic_poll_cq_until dev requested q1)"

definition ernic_quiet_single :: "ernic_dev \<Rightarrow> ernic_qp \<Rightarrow> ernic_qp option" where
  "ernic_quiet_single dev q = ernic_poll_cq_until dev (sq_depth q) q"

text \<open>A wait of a wavefront: the first lane of the mask polls for all.\<close>

definition ernic_quiet :: "ernic_dev \<Rightarrow> u64 \<Rightarrow> ernic_qp \<Rightarrow> ernic_qp option" where
  "ernic_quiet dev m q = (if first_lane m \<ge> 0 then ernic_poll_cq_until dev (sq_depth q) q else Some q)"

definition ernic_enqueue_wqe :: "ernic_wqe_hdr \<Rightarrow> ernic_sge \<Rightarrow> ernic_qp \<Rightarrow> ernic_qp" where
  "ernic_enqueue_wqe hdr sge q =
     (let a = ernic_get_sq_wqe q (sq_tail q); t = sq_tail q + 1 in
      q\<lparr>sq_mem := XioComEnqueue (sge_cells sge) (a + 10) (XioComEnqueue (hdr_cells hdr) a (sq_mem q)),
        tr := E_wqe (sq_tail q) hdr sge # tr q,
        sq_tail := (if t \<ge> sq_depth q then 0 else t),
        sq_psn := sq_psn q + 1\<rparr>)"

definition ernic_write_rma_wqe :: "ernic_dev \<Rightarrow> u64 \<Rightarrow> u64 \<Rightarrow> u32 \<Rightarrow> u8 \<Rightarrow> u32 \<Rightarrow> ernic_qp \<Rightarrow> ernic_qp option" where
  "ernic_write_rma_wqe dev raddr laddr len op imm q = do {
     q1 \<leftarrow> ernic_poll_cq_until dev 1 q;
     let hdr = \<lparr>wr_id = 0, num_sge = 1, total_len = len, opcode = ucast op, send_flags = ERNIC_SEND_SIGNALED, imm_data = imm,
                wr = Rdma_wr raddr (qp_rkey q1)\<rparr>;
     let sge = \<lparr>sge_addr = laddr, sge_length = len, sge_lkey = qp_lkey q1\<rparr>;
     Some (ernic_enqueue_wqe hdr sge q1) }"

definition ernic_post_wqe_rma_single :: "ernic_dev \<Rightarrow> u32 \<Rightarrow> u64 \<Rightarrow> u64 \<Rightarrow> u8 \<Rightarrow> bool \<Rightarrow> u32 \<Rightarrow> ernic_qp \<Rightarrow> ernic_qp option" where
  "ernic_post_wqe_rma_single dev len laddr raddr op ring_db imm q = do {
     q1 \<leftarrow> ernic_write_rma_wqe dev raddr laddr len op imm q;
     Some (if ring_db then ernic_ring_doorbell q1 else q1) }"

text \<open>The lanes of a wavefront post one after another, in the order of their ranks.\<close>

record rma_args =
  a_len :: u32
  a_laddr :: u64
  a_raddr :: u64
  a_op :: u8
  a_imm :: u32

fun ernic_post_lanes :: "ernic_dev \<Rightarrow> (nat \<Rightarrow> rma_args) \<Rightarrow> nat list \<Rightarrow> ernic_qp \<Rightarrow> ernic_qp option" where
  "ernic_post_lanes dev args [] q = Some q"
| "ernic_post_lanes dev args (l # ls) q = do {
     q1 \<leftarrow> ernic_write_rma_wqe dev (a_raddr (args l)) (a_laddr (args l)) (a_len (args l)) (a_op (args l)) (a_imm (args l)) q;
     ernic_post_lanes dev args ls (ernic_ring_doorbell q1) }"

definition ernic_set_lock :: "u32 \<Rightarrow> ernic_qp \<Rightarrow> ernic_qp" where
  "ernic_set_lock v q = q\<lparr>sq_lock := v, tr := E_lock v # tr q\<rparr>"

definition ernic_post_wqe_rma :: "ernic_dev \<Rightarrow> u64 \<Rightarrow> (nat \<Rightarrow> rma_args) \<Rightarrow> ernic_qp \<Rightarrow> ernic_qp option" where
  "ernic_post_wqe_rma dev m args q = do { q1 \<leftarrow> ernic_post_lanes dev args (lanes_of m) (ernic_set_lock 1 q); Some (ernic_set_lock 0 q1) }"

definition ernic_write_amo_wqe :: "ernic_dev \<Rightarrow> u64 \<Rightarrow> u8 \<Rightarrow> u64 \<Rightarrow> u64 \<Rightarrow> bool \<Rightarrow> ernic_qp \<Rightarrow> (u32 \<times> ernic_qp) option" where
  "ernic_write_amo_wqe dev raddr op atomic_data atomic_cmp fetching q = do {
     q1 \<leftarrow> ernic_poll_cq_until dev 1 q;
     let hdr = \<lparr>wr_id = 0, num_sge = 1, total_len = 8, opcode = ucast op, send_flags = ERNIC_SEND_SIGNALED, imm_data = 0,
                wr = Atomic_wr raddr atomic_cmp atomic_data (qp_rkey q1)\<rparr>;
     let idx = (if fetching then fetching_atomic_idx q1 mod FETCHING_ATOMIC_CNT else 0);
     let sge = (if fetching
                then \<lparr>sge_addr = fetching_atomic q1 + 8 * ucast idx, sge_length = 8, sge_lkey = fetching_atomic_lkey q1\<rparr>
                else \<lparr>sge_addr = nonfetching_atomic q1, sge_length = 8, sge_lkey = nonfetching_atomic_lkey q1\<rparr>);
     let q2 = (if fetching then q1\<lparr>fetching_atomic_idx := fetching_atomic_idx q1 + 1\<rparr> else q1);
     Some (idx, ernic_enqueue_wqe hdr sge q2) }"

definition ernic_post_wqe_amo_single :: "ernic_dev \<Rightarrow> u64 \<Rightarrow> u8 \<Rightarrow> u64 \<Rightarrow> u64 \<Rightarrow> bool \<Rightarrow> ernic_qp \<Rightarrow> (u64 \<times> ernic_qp) option" where
  "ernic_post_wqe_amo_single dev raddr op atomic_data atomic_cmp fetching q = do {
     (idx, q1) \<leftarrow> ernic_write_amo_wqe dev raddr op atomic_data atomic_cmp fetching q;
     let q2 = ernic_ring_doorbell q1;
     if fetching then do { q3 \<leftarrow> ernic_quiet_single dev q2; Some (fetched dev (tr q3) idx, q3) } else Some (0, q2) }"

record amo_args =
  m_raddr :: u64
  m_op :: u8
  m_data :: u64
  m_cmp :: u64

fun ernic_amo_lanes :: "ernic_dev \<Rightarrow> (nat \<Rightarrow> amo_args) \<Rightarrow> bool \<Rightarrow> nat list \<Rightarrow> ernic_qp \<Rightarrow> (u32 list \<times> ernic_qp) option" where
  "ernic_amo_lanes dev args fetching [] q = Some ([], q)"
| "ernic_amo_lanes dev args fetching (l # ls) q = do {
     (idx, q1) \<leftarrow> ernic_write_amo_wqe dev (m_raddr (args l)) (m_op (args l)) (m_data (args l)) (m_cmp (args l)) fetching q;
     (idxs, q2) \<leftarrow> ernic_amo_lanes dev args fetching ls (ernic_ring_doorbell q1);
     Some (idx # idxs, q2) }"

definition ernic_post_wqe_amo :: "ernic_dev \<Rightarrow> u64 \<Rightarrow> (nat \<Rightarrow> amo_args) \<Rightarrow> bool \<Rightarrow> ernic_qp \<Rightarrow> (u64 list \<times> ernic_qp) option" where
  "ernic_post_wqe_amo dev m args fetching q = do {
     (idxs, q1) \<leftarrow> ernic_amo_lanes dev args fetching (lanes_of m) (ernic_set_lock 1 q);
     let q2 = ernic_set_lock 0 q1;
     if fetching then do { q3 \<leftarrow> ernic_quiet dev m q2; Some (map (fetched dev (tr q3)) idxs, q3) }
     else Some (map (\<lambda>_. 0) idxs, q2) }"


text \<open>The calls of \<^verbatim>\<open>QueuePair\<close> that the kernels make.\<close>

definition ernic_put_nbi_single :: "ernic_dev \<Rightarrow> u64 \<Rightarrow> u64 \<Rightarrow> u64 \<Rightarrow> bool \<Rightarrow> ernic_qp \<Rightarrow> ernic_qp option" where
  "ernic_put_nbi_single dev dest source nelems ring_db q =
     ernic_post_wqe_rma_single dev (ucast nelems) source dest (op_rdma_write q) ring_db 0 q"

definition ernic_put_nbi_imm_single :: "ernic_dev \<Rightarrow> u64 \<Rightarrow> u64 \<Rightarrow> u64 \<Rightarrow> u32 \<Rightarrow> bool \<Rightarrow> ernic_qp \<Rightarrow> ernic_qp option" where
  "ernic_put_nbi_imm_single dev dest source nelems imm ring_db q =
     ernic_post_wqe_rma_single dev (ucast nelems) source dest (op_rdma_write_imm q) ring_db imm q"

definition ernic_get_nbi_single :: "ernic_dev \<Rightarrow> u64 \<Rightarrow> u64 \<Rightarrow> u64 \<Rightarrow> bool \<Rightarrow> ernic_qp \<Rightarrow> ernic_qp option" where
  "ernic_get_nbi_single dev dest source nelems ring_db q =
     ernic_post_wqe_rma_single dev (ucast nelems) dest source (op_rdma_read q) ring_db 0 q"

subsection \<open>What the history shows\<close>

fun entries :: "ernic_event list \<Rightarrow> (ernic_wqe_hdr \<times> ernic_sge) list" where
  "entries [] = []"
| "entries (e # t) = (case e of E_wqe _ h g \<Rightarrow> entries t @ [(h, g)] | _ \<Rightarrow> entries t)"

fun published_in :: "ernic_event list \<Rightarrow> nat" where
  "published_in [] = 0"
| "published_in (e # t) = (case e of E_prod_tail _ \<Rightarrow> Suc (published_in t) | _ \<Rightarrow> published_in t)"

fun completed_in :: "ernic_event list \<Rightarrow> nat" where
  "completed_in [] = 0"
| "completed_in (e # t) = (case e of E_cons _ \<Rightarrow> Suc (completed_in t) | _ \<Rightarrow> completed_in t)"

definition ernic_posted :: "ernic_qp \<Rightarrow> nat" where
  "ernic_posted q = length (entries (tr q))"

definition ernic_published :: "ernic_qp \<Rightarrow> nat" where
  "ernic_published q = published_in (tr q)"

definition ernic_completed :: "ernic_qp \<Rightarrow> nat" where
  "ernic_completed q = completed_in (tr q)"

lemmas ernic_counts = ernic_posted_def ernic_published_def ernic_completed_def

text \<open>
  The adapter completes requests that were published, in order, and shows their number modulo twice the depth of the
  completion ring; \<open>served\<close> is that number. It is live if it completes a published request after finitely many polls.
\<close>

definition ernic_lawful :: "ernic_dev \<Rightarrow> (ernic_event list \<Rightarrow> nat) \<Rightarrow> u32 \<Rightarrow> bool" where
  "ernic_lawful dev served C \<longleftrightarrow> (\<forall>t. completed_in t \<le> published_in t \<longrightarrow> published_in t \<le> completed_in t + unat C \<longrightarrow>
     completed_in t \<le> served t \<and> served t \<le> published_in t \<and> cq_prod dev t = of_nat (served t mod (2 * unat C)))"

definition ernic_live :: "(ernic_event list \<Rightarrow> nat) \<Rightarrow> bool" where
  "ernic_live served \<longleftrightarrow> (\<forall>t. completed_in t < published_in t \<longrightarrow> (\<exists>n. completed_in t < served (replicate n E_poll @ t)))"

definition ernic_pending :: "ernic_dev \<Rightarrow> (ernic_event list \<Rightarrow> nat) \<Rightarrow> u32 \<Rightarrow> u32 \<Rightarrow> ernic_qp \<Rightarrow> bool" where
  "ernic_pending dev served D C q \<longleftrightarrow>
     ernic_lawful dev served C \<and> ring_size D \<and> ring_size C \<and> D \<le> C \<and> sq_depth q = D \<and> cq_depth q = C \<and> sq_wqe_size q = 128 \<and>
     ernic_completed q \<le> ernic_published q \<and> ernic_published q \<le> ernic_posted q \<and> ernic_posted q < ernic_completed q + unat D \<and>
     sq_tail q = of_nat (ernic_posted q mod unat D) \<and> sq_head q = of_nat (ernic_completed q mod unat D) \<and>
     prod_tail q = Some (of_nat (ernic_published q mod (2 * unat D))) \<and> cq_cons q = Some (of_nat (ernic_completed q mod (2 * unat C)))"

lemma consume_pending:
  assumes "ernic_pending dev served D C q"
  defines "q' \<equiv> ernic_consume_cqe dev q"
  shows "ernic_pending dev served D C q'" "entries (tr q') = entries (tr q)" "ernic_published q' = ernic_published q"
    "sq_mem q' = sq_mem q"
    "ernic_completed q' = (if served (tr q) = ernic_completed q then ernic_completed q else Suc (ernic_completed q))"
    "served (tr q) = ernic_completed q \<Longrightarrow> tr q' = E_poll # tr q"
    "ernic_completed q \<le> served (tr q)"
proof -
  note p = assms(1) [unfolded ernic_pending_def]
  have D: "ring_size D" "ring_size C" "unat D \<le> unat C" using p by (simp_all add: word_le_nat_alt)
  have le: "completed_in (tr q) \<le> published_in (tr q)" "published_in (tr q) \<le> completed_in (tr q) + unat C"
    using p D(3) unfolding ernic_counts by linarith+
  then have s: "completed_in (tr q) \<le> served (tr q)" "served (tr q) \<le> published_in (tr q)"
      "cq_prod dev (tr q) = of_nat (served (tr q) mod (2 * unat C))"
    using p unfolding ernic_lawful_def by blast+
  have cons: "cq_cons q = Some (of_nat (completed_in (tr q) mod (2 * unat C)))" using p by (simp add: ernic_completed_def)
  have ne: "cq_prod dev (tr q) = of_nat (completed_in (tr q) mod (2 * unat C)) \<longleftrightarrow> served (tr q) = completed_in (tr q)"
    unfolding s(3) by (rule double_index_eq [OF D(2) s(1)]) (use s(2) le(2) in linarith)
  have hd: "(if sq_head q + 1 \<ge> D then 0 else sq_head q + 1) = of_nat (Suc (completed_in (tr q)) mod unat D)"
    using next_index [of D "sq_head q" "completed_in (tr q)"] ring_size_pos [OF D(1)] p by (simp add: ernic_completed_def)
  show "ernic_completed q \<le> served (tr q)" using s(1) by (simp add: ernic_completed_def)
  show "entries (tr q') = entries (tr q)" "ernic_published q' = ernic_published q" "sq_mem q' = sq_mem q"
    by (simp_all add: q'_def ernic_consume_cqe_def cons Let_def ernic_published_def)
  show "served (tr q) = ernic_completed q \<Longrightarrow> tr q' = E_poll # tr q"
    using ne by (simp add: q'_def ernic_consume_cqe_def cons Let_def ernic_completed_def)
  show cc: "ernic_completed q' = (if served (tr q) = ernic_completed q then ernic_completed q else Suc (ernic_completed q))"
    using ne by (simp add: q'_def ernic_consume_cqe_def cons Let_def ernic_completed_def)
  show "ernic_pending dev served D C q'"
  proof (cases "served (tr q) = completed_in (tr q)")
    case True
    then show ?thesis using p ne unfolding q'_def ernic_pending_def
      by (simp add: ernic_consume_cqe_def cons Let_def ernic_counts)
  next
    case False
    have pub: "Suc (completed_in (tr q)) \<le> published_in (tr q)" using False s by linarith
    have post: "length (entries (tr q)) < Suc (completed_in (tr q)) + unat D" using p by (simp add: ernic_counts)
    let ?n = "of_nat (Suc (completed_in (tr q)) mod (2 * unat C))"
    have dq: "sq_depth q = D" "cq_depth q = C" using p by simp_all
    have "q' = q\<lparr>cq_cons := Some ?n, tr := E_cons ?n # E_poll # tr q, sq_head := of_nat (Suc (completed_in (tr q)) mod unat D)\<rparr>"
      using ne False unfolding q'_def ernic_consume_cqe_def cons dq Let_def option.case next_double_index [OF D(2)] hd by simp
    then show ?thesis using p pub post unfolding ernic_pending_def by (simp add: ernic_counts)
  qed
qed

lemma pending_available:
  assumes "ernic_pending dev served D C q"
  shows "unat (sq_available (sq_depth q) (sq_head q) (sq_tail q)) = unat D - (ernic_posted q - ernic_completed q)"
proof -
  note p = assms [unfolded ernic_pending_def]
  have "unat (sq_available (sq_depth q) (sq_head q) (sq_tail q)) = unat D - (ernic_posted q - ernic_completed q) mod unat D"
    using p ring_size_pos [of D] by (intro trans [OF sq_available_exact [of _ "ernic_completed q" "ernic_posted q"]]) auto
  moreover have "(ernic_posted q - ernic_completed q) mod unat D = ernic_posted q - ernic_completed q"
    by (rule mod_less) (use p in linarith)
  ultimately show ?thesis by (simp only:)
qed

definition ernic_polled :: "ernic_qp \<Rightarrow> ernic_qp \<Rightarrow> bool" where
  "ernic_polled q q' \<longleftrightarrow> (\<exists>a b c. q' = q\<lparr>cq_cons := a, tr := b, sq_head := c\<rparr> \<and> entries b = entries (tr q) \<and>
     published_in b = published_in (tr q) \<and> completed_in (tr q) \<le> completed_in b)"

lemma polledI:
  "q' = q\<lparr>cq_cons := a, tr := b, sq_head := c\<rparr> \<Longrightarrow> entries b = entries (tr q) \<Longrightarrow> published_in b = published_in (tr q) \<Longrightarrow>
     completed_in (tr q) \<le> completed_in b \<Longrightarrow> ernic_polled q q'"
  unfolding ernic_polled_def by blast

lemma polled_refl: "ernic_polled q q"
  unfolding ernic_polled_def by (intro exI [of _ "cq_cons q"] exI [of _ "tr q"] exI [of _ "sq_head q"]) simp

lemma polled_trans: "ernic_polled q1 q2 \<Longrightarrow> ernic_polled q2 q3 \<Longrightarrow> ernic_polled q1 q3"
  unfolding ernic_polled_def by (elim exE conjE) (simp, blast intro: order_trans)

lemma consume_polled: "ernic_polled q (ernic_consume_cqe dev q)"
proof (cases "cq_cons q")
  case None
  then show ?thesis by (simp add: ernic_consume_cqe_def polled_refl)
next
  case (Some c)
  show ?thesis
  proof (cases "cq_prod dev (tr q) = c")
    case True
    then have "ernic_consume_cqe dev q = q\<lparr>cq_cons := cq_cons q, tr := E_poll # tr q, sq_head := sq_head q\<rparr>"
      by (simp add: ernic_consume_cqe_def Some)
    then show ?thesis by (rule polledI) simp_all
  next
    case False
    let ?n = "(c + 1) AND (push_bit 1 (cq_depth q) - 1)"
    have "ernic_consume_cqe dev q = q\<lparr>cq_cons := Some ?n, tr := E_cons ?n # E_poll # tr q,
        sq_head := (if sq_head q + 1 \<ge> sq_depth q then 0 else sq_head q + 1)\<rparr>"
      using False by (simp add: ernic_consume_cqe_def Some Let_def)
    then show ?thesis by (rule polledI) simp_all
  qed
qed

lemma poll_polled: "ernic_poll_cq_until dev r q = Some q' \<Longrightarrow> ernic_polled q q'"
proof (induction rule: ernic_poll_cq_until.raw_induct [rotated, consumes 1])
  case (1 poll dev r q q')
  show ?case
  proof (cases "r \<le> sq_available (sq_depth (ernic_consume_cqe dev q)) (sq_head (ernic_consume_cqe dev q)) (sq_tail (ernic_consume_cqe dev q))")
    case True
    then show ?thesis using 1(2) consume_polled by (auto simp: Let_def)
  next
    case False
    then have "poll dev r (ernic_consume_cqe dev q) = Some q'" using 1(2) by (simp add: Let_def)
    then show ?thesis using 1(1) polled_trans [OF consume_polled] by blast
  qed
qed

lemma polled_facts:
  assumes "ernic_polled q q'"
  shows "entries (tr q') = entries (tr q)" "ernic_published q' = ernic_published q" "ernic_posted q' = ernic_posted q"
    "ernic_completed q \<le> ernic_completed q'" "sq_mem q' = sq_mem q" "sq_tail q' = sq_tail q" "sq_depth q' = sq_depth q"
    "sq_wqe_size q' = sq_wqe_size q"
  using assms by (auto simp: ernic_polled_def ernic_counts)

lemma poll_once:
  assumes "ernic_pending dev served D C q" "r \<le> D"
  defines "q1 \<equiv> ernic_consume_cqe dev q"
  shows "ernic_poll_cq_until dev r q =
    (if ernic_posted q + unat r \<le> ernic_completed q1 + unat D then Some q1 else ernic_poll_cq_until dev r q1)"
proof -
  have p1: "ernic_pending dev served D C q1" using consume_pending(1) [OF assms(1)] by (simp add: q1_def)
  then have b: "ernic_completed q1 \<le> ernic_posted q1" "ernic_posted q1 < ernic_completed q1 + unat D"
    unfolding ernic_pending_def by simp_all
  have "ernic_posted q1 = ernic_posted q" using consume_pending(2) [OF assms(1)] by (simp add: q1_def ernic_posted_def)
  then have "r \<le> sq_available (sq_depth q1) (sq_head q1) (sq_tail q1) \<longleftrightarrow> ernic_posted q + unat r \<le> ernic_completed q1 + unat D"
    unfolding word_le_nat_alt pending_available [OF p1] using b assms(2) by (auto simp: word_le_nat_alt)
  then show ?thesis by (subst ernic_poll_cq_until.simps) (simp add: q1_def Let_def)
qed

text \<open>A poll returns when enough of what is published makes the room asked for.\<close>

lemma poll_returns:
  assumes "ernic_pending dev served D C q" "ernic_live served" "r \<le> D"
    and room: "ernic_posted q + unat r \<le> ernic_published q + unat D"
  shows "\<exists>q'. ernic_poll_cq_until dev r q = Some q' \<and> ernic_pending dev served D C q' \<and>
      ernic_posted q + unat r \<le> ernic_completed q' + unat D"
  using assms(1) room
proof (induction "ernic_posted q - ernic_completed q" arbitrary: q rule: less_induct)
  case less
  let ?R = "\<lambda>x. \<exists>q'. ernic_poll_cq_until dev r x = Some q' \<and> ernic_pending dev served D C q' \<and>
      ernic_posted q + unat r \<le> ernic_completed q' + unat D"
  let ?S = "\<lambda>x. ernic_pending dev served D C x \<and> ernic_posted x = ernic_posted q \<and> ernic_published x = ernic_published q \<and>
      ernic_completed x = ernic_completed q"
  have now: "?R x" if x: "?S x" "served (tr x) \<noteq> ernic_completed q" for x
  proof -
    let ?y = "ernic_consume_cqe dev x"
    have xp: "ernic_pending dev served D C x" using x(1) by simp
    have y: "ernic_pending dev served D C ?y" "ernic_posted ?y = ernic_posted q" "ernic_published ?y = ernic_published q"
        "ernic_completed ?y = Suc (ernic_completed q)"
      using consume_pending [OF xp] x by (simp_all add: ernic_posted_def)
    have "ernic_completed ?y \<le> ernic_posted ?y" using y(1) unfolding ernic_pending_def by linarith
    then have "\<exists>q'. ernic_poll_cq_until dev r ?y = Some q' \<and> ernic_pending dev served D C q' \<and>
        ernic_posted ?y + unat r \<le> ernic_completed q' + unat D"
      using y less.prems(2) by (intro less.hyps) simp_all
    then show ?thesis using y poll_once [OF xp assms(3)] x(1) by auto
  qed
  have later: "?R x" if "?S x" "served (replicate n E_poll @ tr x) \<noteq> ernic_completed q" for n x
    using that
  proof (induction n arbitrary: x)
    case (0 x)
    then show ?case by (intro now) simp_all
  next
    case (Suc n x)
    let ?y = "ernic_consume_cqe dev x"
    have xp: "ernic_pending dev served D C x" using Suc.prems(1) by simp
    show ?case
    proof (cases "served (tr x) = ernic_completed q")
      case False
      then show ?thesis using Suc.prems(1) by (intro now)
    next
      case True
      then have y: "?S ?y" "tr ?y = E_poll # tr x"
        using consume_pending [OF xp] Suc.prems(1) by (simp_all add: ernic_posted_def)
      have "served (replicate n E_poll @ tr ?y) \<noteq> ernic_completed q"
        using Suc.prems(2) by (simp add: y(2) replicate_app_Cons_same)
      from Suc.IH [OF y(1) this] show ?thesis using poll_once [OF xp assms(3)] Suc.prems(1) y(1) by auto
    qed
  qed
  show ?case
  proof (cases "ernic_posted q + unat r \<le> ernic_completed q + unat D")
    case True
    then show ?thesis using poll_once [OF less.prems(1) assms(3)] consume_pending(1,5) [OF less.prems(1)] by auto
  next
    case False
    then have "completed_in (tr q) < published_in (tr q)" using less.prems(2) by (simp add: ernic_counts)
    then obtain n where "completed_in (tr q) < served (replicate n E_poll @ tr q)"
      using assms(2) unfolding ernic_live_def by blast
    then show ?thesis using less.prems(1) by (intro later [of q n]) (simp_all add: ernic_completed_def)
  qed
qed

text \<open>Waiting for a request that is not published never ends.\<close>

lemma poll_unpublished_hangs:
  "ernic_poll_cq_until dev r q = Some q' \<Longrightarrow> \<not> (r = D \<and> ernic_pending dev served D C q \<and> ernic_published q < ernic_posted q)"
proof (induction rule: ernic_poll_cq_until.raw_induct [rotated, consumes 1])
  case (1 poll dev r q q')
  show ?case
  proof
    assume a: "r = D \<and> ernic_pending dev served D C q \<and> ernic_published q < ernic_posted q"
    let ?y = "ernic_consume_cqe dev q"
    have y: "ernic_pending dev served D C ?y" "ernic_posted ?y = ernic_posted q" "ernic_published ?y = ernic_published q"
      using consume_pending [of dev served D C q] a by (simp_all add: ernic_posted_def)
    have b: "ernic_completed ?y < ernic_posted ?y" "ernic_posted ?y < ernic_completed ?y + unat D"
      using y a unfolding ernic_pending_def by linarith+
    then have "\<not> r \<le> sq_available (sq_depth ?y) (sq_head ?y) (sq_tail ?y)"
      unfolding word_le_nat_alt pending_available [OF y(1)] using a by auto
    then have "poll dev r ?y = Some q'" using 1(2) by (simp add: Let_def)
    from 1(1) [OF this] show False using y a by simp
  qed
qed

text \<open>Posting and ringing.\<close>

lemma ring_facts:
  "entries (tr (ernic_ring_doorbell q)) = entries (tr q)" "completed_in (tr (ernic_ring_doorbell q)) = completed_in (tr q)"
  "sq_mem (ernic_ring_doorbell q) = sq_mem q"
  "published_in (tr (ernic_ring_doorbell q)) = (case prod_tail q of None \<Rightarrow> published_in (tr q) | Some _ \<Rightarrow> Suc (published_in (tr q)))"
  "sq_depth (ernic_ring_doorbell q) = sq_depth q" "cq_depth (ernic_ring_doorbell q) = cq_depth q" "sq_wqe_size (ernic_ring_doorbell q) = sq_wqe_size q"
  "sq_tail (ernic_ring_doorbell q) = sq_tail q" "sq_head (ernic_ring_doorbell q) = sq_head q" "cq_cons (ernic_ring_doorbell q) = cq_cons q"
  "prod_tail (ernic_ring_doorbell q) = map_option (\<lambda>cur. (cur + 1) AND (push_bit 1 (sq_depth q) - 1)) (prod_tail q)"
  by (simp_all add: ernic_ring_doorbell_def Let_def split: option.splits)

lemma ring_pending:
  assumes "ernic_pending dev served D C q" "ernic_published q < ernic_posted q"
  shows "ernic_pending dev served D C (ernic_ring_doorbell q)" "ernic_posted (ernic_ring_doorbell q) = ernic_posted q"
    "ernic_completed (ernic_ring_doorbell q) = ernic_completed q" "ernic_published (ernic_ring_doorbell q) = Suc (ernic_published q)"
proof -
  note p = assms(1) [unfolded ernic_pending_def]
  have pt: "prod_tail q = Some (of_nat (published_in (tr q) mod (2 * unat D)))" using p by (simp add: ernic_published_def)
  show "ernic_posted (ernic_ring_doorbell q) = ernic_posted q" "ernic_completed (ernic_ring_doorbell q) = ernic_completed q"
      "ernic_published (ernic_ring_doorbell q) = Suc (ernic_published q)"
    by (simp_all add: ernic_counts ring_facts pt)
  have nx: "(of_nat (published_in (tr q) mod (2 * unat D)) + 1) AND (push_bit 1 (sq_depth q) - 1) =
      (of_nat (Suc (published_in (tr q)) mod (2 * unat D)) :: u32)"
    using next_double_index [of D "published_in (tr q)"] p by (simp del: push_bit_of_Suc_0)
  show "ernic_pending dev served D C (ernic_ring_doorbell q)"
    using p assms(2) nx unfolding ernic_pending_def ernic_counts ring_facts pt option.case option.map
    by simp
qed

lemma enqueue_facts:
  "entries (tr (ernic_enqueue_wqe h g q)) = entries (tr q) @ [(h, g)]" "published_in (tr (ernic_enqueue_wqe h g q)) = published_in (tr q)"
  "completed_in (tr (ernic_enqueue_wqe h g q)) = completed_in (tr q)"
  "sq_depth (ernic_enqueue_wqe h g q) = sq_depth q" "cq_depth (ernic_enqueue_wqe h g q) = cq_depth q" "sq_wqe_size (ernic_enqueue_wqe h g q) = sq_wqe_size q"
  "sq_head (ernic_enqueue_wqe h g q) = sq_head q" "cq_cons (ernic_enqueue_wqe h g q) = cq_cons q" "prod_tail (ernic_enqueue_wqe h g q) = prod_tail q"
  "sq_tail (ernic_enqueue_wqe h g q) = (if sq_tail q + 1 \<ge> sq_depth q then 0 else sq_tail q + 1)"
  "sq_mem (ernic_enqueue_wqe h g q) = XioComEnqueue (sge_cells g) (ernic_get_sq_wqe q (sq_tail q) + 10)
     (XioComEnqueue (hdr_cells h) (ernic_get_sq_wqe q (sq_tail q)) (sq_mem q))"
  by (simp_all add: ernic_enqueue_wqe_def Let_def)

lemma enqueue_pending:
  assumes "ernic_pending dev served D C q" "Suc (ernic_posted q) < ernic_completed q + unat D"
  shows "ernic_pending dev served D C (ernic_enqueue_wqe h g q)" "ernic_posted (ernic_enqueue_wqe h g q) = Suc (ernic_posted q)"
    "ernic_completed (ernic_enqueue_wqe h g q) = ernic_completed q" "ernic_published (ernic_enqueue_wqe h g q) = ernic_published q"
proof -
  note p = assms(1) [unfolded ernic_pending_def]
  show "ernic_posted (ernic_enqueue_wqe h g q) = Suc (ernic_posted q)" "ernic_completed (ernic_enqueue_wqe h g q) = ernic_completed q"
      "ernic_published (ernic_enqueue_wqe h g q) = ernic_published q"
    by (simp_all add: ernic_counts enqueue_facts)
  have nx: "(if sq_tail q + 1 \<ge> sq_depth q then 0 else sq_tail q + 1) = of_nat (Suc (length (entries (tr q))) mod unat D)"
    using next_index [of D "sq_tail q" "length (entries (tr q))"] ring_size_pos [of D] p by (simp add: ernic_posted_def)
  show "ernic_pending dev served D C (ernic_enqueue_wqe h g q)"
    using p assms(2) unfolding ernic_pending_def ernic_counts enqueue_facts nx by simp
qed

definition rma_hdr :: "u64 \<Rightarrow> u32 \<Rightarrow> u8 \<Rightarrow> u32 \<Rightarrow> ernic_qp \<Rightarrow> ernic_wqe_hdr" where
  "rma_hdr raddr len op imm q = \<lparr>wr_id = 0, num_sge = 1, total_len = len, opcode = ucast op, send_flags = ERNIC_SEND_SIGNALED,
     imm_data = imm, wr = Rdma_wr raddr (qp_rkey q)\<rparr>"

definition rma_sge :: "u64 \<Rightarrow> u32 \<Rightarrow> ernic_qp \<Rightarrow> ernic_sge" where
  "rma_sge laddr len q = \<lparr>sge_addr = laddr, sge_length = len, sge_lkey = qp_lkey q\<rparr>"

lemma one_le_ring: "Suc 0 < unat D \<Longrightarrow> (1 :: u32) \<le> D"
  by (simp add: word_le_nat_alt)

lemma write_rma_returns:
  assumes p: "ernic_pending dev served D C q" and l: "ernic_live served" and r: "Suc (ernic_posted q) < ernic_completed q + unat D"
  shows "\<exists>q1. ernic_polled q q1 \<and> ernic_pending dev served D C q1 \<and>
      ernic_write_rma_wqe dev raddr laddr len op imm q = Some (ernic_enqueue_wqe (rma_hdr raddr len op imm q) (rma_sge laddr len q) q1)"
proof -
  have b: "ernic_completed q \<le> ernic_published q" "ernic_published q \<le> ernic_posted q" using p unfolding ernic_pending_def by simp_all
  have "(1 :: u32) \<le> D" using r b by (intro one_le_ring) linarith
  then obtain q1 where q1: "ernic_poll_cq_until dev 1 q = Some q1" "ernic_pending dev served D C q1"
    using poll_returns [OF p l, of 1] r b by auto
  have f: "ernic_polled q q1" using poll_polled [OF q1(1)] .
  then have "rma_hdr raddr len op imm q1 = rma_hdr raddr len op imm q" "rma_sge laddr len q1 = rma_sge laddr len q"
    by (auto simp: ernic_polled_def rma_hdr_def rma_sge_def)
  then show ?thesis using q1 f by (auto simp: ernic_write_rma_wqe_def rma_hdr_def rma_sge_def)
qed

lemma post_noring_law:
  assumes p: "ernic_pending dev served D C q" and l: "ernic_live served" and r: "Suc (ernic_posted q) < ernic_completed q + unat D"
  shows "\<exists>q'. ernic_post_wqe_rma_single dev len laddr raddr op False imm q = Some q' \<and> ernic_pending dev served D C q' \<and>
      ernic_posted q' = Suc (ernic_posted q) \<and> ernic_completed q \<le> ernic_completed q' \<and> ernic_published q' = ernic_published q \<and>
      entries (tr q') = entries (tr q) @ [(rma_hdr raddr len op imm q, rma_sge laddr len q)]"
proof -
  obtain q1 where q1: "ernic_polled q q1" "ernic_pending dev served D C q1"
      "ernic_write_rma_wqe dev raddr laddr len op imm q = Some (ernic_enqueue_wqe (rma_hdr raddr len op imm q) (rma_sge laddr len q) q1)"
    using write_rma_returns [OF assms] by blast
  note f = polled_facts [OF q1(1)]
  have "Suc (ernic_posted q1) < ernic_completed q1 + unat D" using f r by linarith
  note e = enqueue_pending [OF q1(2) this, of "rma_hdr raddr len op imm q" "rma_sge laddr len q"]
  show ?thesis using q1(3) e f by (simp add: ernic_post_wqe_rma_single_def enqueue_facts)
qed

lemma post_ring_eq:
  "ernic_post_wqe_rma_single dev len laddr raddr op True imm q =
     map_option ernic_ring_doorbell (ernic_post_wqe_rma_single dev len laddr raddr op False imm q)"
  by (simp add: ernic_post_wqe_rma_single_def split: bind_splits)

lemma ernic_post_mono:
  assumes "ernic_post_wqe_rma_single dev len laddr raddr op ring_db imm q = Some q'"
  shows "ernic_completed q \<le> ernic_completed q'"
proof -
  obtain q1 h g where "ernic_poll_cq_until dev 1 q = Some q1" "q' = (if ring_db then ernic_ring_doorbell (ernic_enqueue_wqe h g q1) else ernic_enqueue_wqe h g q1)"
    using assms by (auto simp: ernic_post_wqe_rma_single_def ernic_write_rma_wqe_def bind_eq_Some_conv Let_def)
  then show ?thesis using polled_facts(4) [OF poll_polled]
    by (cases ring_db) (auto simp: ernic_completed_def ring_facts enqueue_facts)
qed

definition ernic_inv :: "ernic_dev \<Rightarrow> (ernic_event list \<Rightarrow> nat) \<Rightarrow> u32 \<Rightarrow> u32 \<Rightarrow> ernic_qp \<Rightarrow> bool" where
  "ernic_inv dev served D C q \<longleftrightarrow> ernic_pending dev served D C q \<and> ernic_live served \<and> 2 \<le> unat D \<and> ernic_published q = ernic_posted q"

lemma ernic_quiet_law:
  assumes "ernic_inv dev served D C q"
  shows "\<exists>q'. ernic_quiet_single dev q = Some q' \<and> ernic_inv dev served D C q' \<and> ernic_posted q' = ernic_posted q \<and>
      ernic_completed q' = ernic_posted q'"
proof -
  have p: "ernic_pending dev served D C q" "ernic_live served" "ernic_published q = ernic_posted q" "2 \<le> unat D"
    using assms by (simp_all add: ernic_inv_def)
  have d: "sq_depth q = D" using p(1) unfolding ernic_pending_def by simp
  obtain q' where q': "ernic_poll_cq_until dev D q = Some q'" "ernic_pending dev served D C q'"
      "ernic_posted q + unat D \<le> ernic_completed q' + unat D"
    using poll_returns [OF p(1,2), of D] p(3) by auto
  note f = polled_facts [OF poll_polled [OF q'(1)]]
  have "ernic_completed q' \<le> ernic_posted q'" using q'(2) unfolding ernic_pending_def by linarith
  then have "ernic_completed q' = ernic_posted q'" using q'(3) f by linarith
  then show ?thesis using q' f p d by (auto simp: ernic_quiet_single_def ernic_inv_def)
qed

lemma ernic_put_law:
  assumes "ernic_inv dev served D C q" "ernic_completed q = ernic_posted q"
  shows "\<exists>q'. ernic_put_nbi_single dev dest src n True q = Some q' \<and> ernic_inv dev served D C q' \<and> ernic_posted q' = Suc (ernic_posted q)"
proof -
  have p: "ernic_pending dev served D C q" "ernic_live served" "ernic_published q = ernic_posted q" "2 \<le> unat D"
    using assms by (simp_all add: ernic_inv_def)
  have r: "Suc (ernic_posted q) < ernic_completed q + unat D" using assms(2) p(4) by linarith
  obtain q' where q': "ernic_post_wqe_rma_single dev (ucast n) src dest (op_rdma_write q) False 0 q = Some q'"
      "ernic_pending dev served D C q'" "ernic_posted q' = Suc (ernic_posted q)" "ernic_published q' = ernic_published q"
    using post_noring_law [OF p(1,2) r] by blast
  have "ernic_published q' < ernic_posted q'" using q' p(3) by linarith
  note g = ring_pending [OF q'(2) this]
  show ?thesis using q' g p by (auto simp: ernic_put_nbi_single_def post_ring_eq ernic_inv_def)
qed

interpretation ernic: send_queue "ernic_put_nbi_single dev dest src nb True" "ernic_quiet_single dev" "ernic_inv dev served D C"
    ernic_posted ernic_completed "\<lambda>q. stop_flag dev (tr q)" for dev dest src nb served D C
proof
  fix q q'
  show "ernic_inv dev served D C q \<Longrightarrow> ernic_completed q = ernic_posted q \<Longrightarrow>
      \<exists>q'. ernic_put_nbi_single dev dest src nb True q = Some q' \<and> ernic_inv dev served D C q' \<and> ernic_posted q' = Suc (ernic_posted q)"
    by (rule ernic_put_law)
  show "ernic_inv dev served D C q \<Longrightarrow> \<exists>q'. ernic_quiet_single dev q = Some q' \<and>
      ernic_posted q' = ernic_posted q \<and> (ernic_inv dev served D C q' \<and> ernic_completed q' = ernic_posted q' \<or> stop_flag dev (tr q'))"
    using ernic_quiet_law by blast
  show "ernic_quiet_single dev q = Some q' \<Longrightarrow> ernic_completed q \<le> ernic_completed q'"
    unfolding ernic_quiet_single_def by (rule polled_facts(4) [OF poll_polled])
  show "ernic_put_nbi_single dev dest src nb True q = Some q' \<Longrightarrow> ernic_completed q \<le> ernic_completed q'"
    unfolding ernic_put_nbi_single_def by (rule ernic_post_mono)
qed

end
