(* ===== verification/Rdma_Ernic_Props.thy ===== *)
theory Rdma_Ernic_Props
  imports Rdma_Ernic
begin

text \<open>
  Results about the ERNIC queue pair: what the kernel completes, that no outstanding entry is overwritten, the order in
  which the lanes of a wavefront post, and where the queue pair fails: batches, a full ring and depths that are not a
  power of two.
\<close>

subsection \<open>Entries in memory\<close>

definition decode_wqe :: "bool \<Rightarrow> u64 list \<Rightarrow> ernic_wqe_hdr \<times> ernic_sge" where
  "decode_wqe atomic cs =
     (\<lparr>wr_id = cs ! 0, num_sge = lo_of (cs ! 1), total_len = hi_of (cs ! 1), opcode = lo_of (cs ! 2), send_flags = hi_of (cs ! 2),
       imm_data = lo_of (cs ! 3),
       wr = (if atomic then Atomic_wr (cs ! 4) (cs ! 5) (cs ! 6) (lo_of (cs ! 7)) else Rdma_wr (cs ! 4) (lo_of (cs ! 5)))\<rparr>,
      \<lparr>sge_addr = cs ! 10, sge_length = lo_of (cs ! 11), sge_lkey = hi_of (cs ! 11)\<rparr>)"

lemma cells_length [simp]: "length (hdr_cells h) = 10" "length (sge_cells g) = 2"
  by (simp_all add: hdr_cells_def wr_cells_def sge_cells_def split: ernic_wr.split)

lemma decode_cells: "decode_wqe (case wr h of Atomic_wr _ _ _ _ \<Rightarrow> True | _ \<Rightarrow> False) (hdr_cells h @ sge_cells g) = (h, g)"
  by (cases "wr h") (simp_all add: decode_wqe_def hdr_cells_def sge_cells_def wr_cells_def eval_nat_numeral)

text \<open>What the adapter reads in the slot of the \<open>j\<close>-th request.\<close>

definition slot_cells :: "u32 \<Rightarrow> nat \<Rightarrow> ernic_qp \<Rightarrow> u64 list" where
  "slot_cells D j q = XioComDequeue 12 (j mod unat D * 16) (sq_mem q)"

definition ernic_intact :: "u32 \<Rightarrow> ernic_qp \<Rightarrow> bool" where
  "ernic_intact D q \<longleftrightarrow> (\<forall>j. ernic_completed q \<le> j \<longrightarrow> j < ernic_posted q \<longrightarrow>
     slot_cells D j q = hdr_cells (fst (entries (tr q) ! j)) @ sge_cells (snd (entries (tr q) ! j)))"

lemma slot_address:
  assumes "ernic_pending dev served D C q"
  shows "ernic_get_sq_wqe q (sq_tail q) = ernic_posted q mod unat D * 16"
proof -
  note p = assms [unfolded ernic_pending_def]
  have D: "0 < unat D" "unat D \<le> 2 ^ 24" using p ring_size_pos [of D] by simp_all
  let ?i = "ernic_posted q mod unat D"
  have i: "?i < unat D" using D(1) by simp
  have "unat (of_nat ?i * 128 :: u32) = unat (of_nat (?i * 128) :: u32)" by simp
  also have "\<dots> = ?i * 128" by (rule unat_nat_small) (use i D(2) in simp)
  finally show ?thesis using p by (simp add: ernic_get_sq_wqe_def)
qed

lemma ring_slots_apart:
  fixes D j p c :: nat
  assumes "c \<le> j" "j < p" "p < c + D"
  shows "j mod D \<noteq> p mod D"
proof
  assume "j mod D = p mod D"
  then have "D dvd (p - j)" using assms(2) mod_eq_dvd_iff_nat [of j p D] by auto
  then show False using assms by (auto dest: dvd_imp_le)
qed

lemma enqueue_intact:
  assumes p: "ernic_pending dev served D C q" and i: "ernic_intact D q"
  shows "ernic_intact D (ernic_enqueue_wqe h g q)"
proof -
  let ?q = "ernic_enqueue_wqe h g q"
  let ?a = "ernic_posted q mod unat D * 16"
  have P: "ernic_posted ?q = Suc (ernic_posted q)" "ernic_completed ?q = ernic_completed q" by (simp_all add: ernic_counts enqueue_facts)
  have mem: "sq_mem ?q = XioComEnqueue (sge_cells g) (?a + 10) (XioComEnqueue (hdr_cells h) ?a (sq_mem q))"
    by (simp add: enqueue_facts slot_address [OF p])
  have lt: "ernic_posted q < ernic_completed q + unat D" using p unfolding ernic_pending_def by simp
  have "slot_cells D j ?q = hdr_cells (fst (entries (tr ?q) ! j)) @ sge_cells (snd (entries (tr ?q) ! j))"
    if j: "ernic_completed q \<le> j" "j < Suc (ernic_posted q)" for j
  proof (cases "j = ernic_posted q")
    case True
    have "XioComDequeue 10 ?a (sq_mem ?q) = hdr_cells h"
      unfolding mem by (subst dequeue_frame) (simp_all add: dequeue_enqueued [of "hdr_cells h", simplified])
    moreover have "XioComDequeue 2 (?a + 10) (sq_mem ?q) = sge_cells g"
      unfolding mem by (simp add: dequeue_enqueued [of "sge_cells g", simplified])
    ultimately show ?thesis using True dequeue_append [of 10 2 ?a "sq_mem ?q"]
      by (simp add: slot_cells_def enqueue_facts nth_append ernic_posted_def)
  next
    case False
    then have j': "j < ernic_posted q" using j(2) by simp
    have ne: "j mod unat D \<noteq> ernic_posted q mod unat D" by (rule ring_slots_apart [OF j(1) j' lt])
    have "slot_cells D j ?q = slot_cells D j q"
      unfolding slot_cells_def mem using ne by (subst dequeue_frame, simp, linarith)+ simp
    then show ?thesis using i j(1) j' by (simp add: ernic_intact_def enqueue_facts nth_append ernic_posted_def)
  qed
  then show ?thesis unfolding ernic_intact_def P by blast
qed

lemma polled_intact: "ernic_polled q q' \<Longrightarrow> ernic_intact D q \<Longrightarrow> ernic_intact D q'"
  using polled_facts [of q q'] by (simp add: ernic_intact_def slot_cells_def)

lemma ring_intact: "ernic_intact D q \<Longrightarrow> ernic_intact D (ernic_ring_doorbell q)"
  by (simp add: ernic_intact_def slot_cells_def ernic_counts ring_facts)


subsection \<open>A sample queue pair\<close>

definition ernic_sample_dev :: ernic_dev where
  "ernic_sample_dev = \<lparr>cq_prod = (\<lambda>t. of_nat (published_in t mod 8)), fetched = (\<lambda>t i. 0), stop_flag = (\<lambda>t. False)\<rparr>"

definition ernic_sample_qp :: ernic_qp where
  "ernic_sample_qp = \<lparr>sq_depth = 4, sq_head = 0, sq_tail = 0, sq_wqe_size = 128, sq_psn = 0, sq_lock = 0, uar_ptr = 0x1000, uar_qp_offset = 0,
     qp_handle = 7, mmio_bridge_shadow = None, ernic_target_bdf = 0, use_mmio_bridge = False, uar_bar_offset = 0,
     prod_tail = Some 0, cq_cons = Some 0, cq_depth = 4, op_rdma_write = 0, op_rdma_write_imm = 1, op_rdma_read = 4,
     op_atomic_fa = 6, op_atomic_cs = 5, qp_rkey = 11, qp_lkey = 12, nonfetching_atomic = 0x2000, nonfetching_atomic_lkey = 13,
     fetching_atomic = 0x3000, fetching_atomic_lkey = 14, fetching_atomic_idx = 0, sq_mem = (\<lambda>_. 0), tr = []\<rparr>"

lemma ernic_sample_live: "ernic_live published_in"
proof -
  have "\<exists>n. completed_in t < published_in (replicate n E_poll @ t)" if "completed_in t < published_in t" for t
    using that by (intro exI [of _ 0]) simp
  then show ?thesis by (simp add: ernic_live_def)
qed

lemma ernic_sample_pending: "ernic_pending ernic_sample_dev published_in 4 4 ernic_sample_qp"
proof -
  have "ring_size 4" unfolding ring_size_def by (rule exI [of _ 2]) simp
  moreover have "ernic_lawful ernic_sample_dev published_in 4" by (simp add: ernic_lawful_def ernic_sample_dev_def)
  ultimately show ?thesis by (simp add: ernic_pending_def ernic_sample_qp_def ernic_counts)
qed

lemma ernic_sample_inv: "ernic_inv ernic_sample_dev published_in 4 4 ernic_sample_qp"
  by (simp add: ernic_inv_def ernic_sample_pending ernic_sample_live) (simp add: ernic_counts ernic_sample_qp_def)

lemma ernic_sample_idle:
  "ernic_completed ernic_sample_qp = ernic_posted ernic_sample_qp" "ernic_posted ernic_sample_qp = 0" "\<not> stop_flag ernic_sample_dev t"
  by (simp_all add: ernic_counts ernic_sample_qp_def ernic_sample_dev_def)


subsection \<open>Kernels\<close>



lemma batch_posts:
  assumes "ernic_pending dev served D C q" "ernic_live served" "ernic_posted q + k < ernic_completed q + unat D"
  shows "\<exists>q'. post_batch (\<lambda>b. ernic_put_nbi_single dev (dst b) (src b) n False) b k q = Some q' \<and>
      ernic_pending dev served D C q' \<and> ernic_posted q' = ernic_posted q + k \<and> ernic_published q' = ernic_published q"
  using assms(1,3)
proof (induction k arbitrary: b q)
  case 0
  then show ?case by simp
next
  case (Suc k)
  have "Suc (ernic_posted q) < ernic_completed q + unat D" using Suc.prems(2) by linarith
  then obtain q1 where q1: "ernic_put_nbi_single dev (dst b) (src b) n False q = Some q1" "ernic_pending dev served D C q1"
      "ernic_posted q1 = Suc (ernic_posted q)" "ernic_completed q \<le> ernic_completed q1" "ernic_published q1 = ernic_published q"
    using post_noring_law [OF Suc.prems(1) assms(2)] unfolding ernic_put_nbi_single_def by blast
  have "ernic_posted q1 + k < ernic_completed q1 + unat D" using q1 Suc.prems(2) by linarith
  from Suc.IH [OF q1(2) this, of "Suc b"] obtain q2 where
    "post_batch (\<lambda>b. ernic_put_nbi_single dev (dst b) (src b) n False) (Suc b) k q1 = Some q2" "ernic_pending dev served D C q2"
    "ernic_posted q2 = ernic_posted q1 + k" "ernic_published q2 = ernic_published q1" by blast
  then show ?case using q1 by auto
qed

text \<open>C37. A batch hangs. The batch kernel posts without ringing and then rings once; a ring of this provider publishes one
  request only. So from an idle queue pair a batch of two or more that fits the ring is posted, and the wait after the
  single ring never returns, whatever the adapter does within its promises.
\<close>

theorem ernic_batch_hangs:
  assumes "ernic_inv dev served D C q" "ernic_completed q = ernic_posted q" "2 \<le> k" "k < unat D"
  shows "\<exists>q'. post_batch (\<lambda>b. ernic_put_nbi_single dev (dst b) (src b) n False) 0 k q = Some q' \<and>
      ernic_posted q' = ernic_posted q + k \<and> ernic_quiet_single dev (ernic_ring_doorbell_only q') = None"
proof -
  have p: "ernic_pending dev served D C q" "ernic_live served" "ernic_published q = ernic_posted q"
    using assms(1) by (simp_all add: ernic_inv_def)
  obtain q' where q': "post_batch (\<lambda>b. ernic_put_nbi_single dev (dst b) (src b) n False) 0 k q = Some q'" "ernic_pending dev served D C q'"
      "ernic_posted q' = ernic_posted q + k" "ernic_published q' = ernic_published q"
    using batch_posts [OF p(1,2), where k = k and dst = dst and src = src and n = n and b = 0] assms(2,4) by auto
  have lt: "ernic_published q' < ernic_posted q'" using q' p(3) assms(3) by linarith
  note r = ring_pending [OF q'(2) lt]
  have "ernic_published (ernic_ring_doorbell q') < ernic_posted (ernic_ring_doorbell q')" using r q' p(3) assms(3) by linarith
  moreover have "sq_depth (ernic_ring_doorbell q') = D" using r(1) unfolding ernic_pending_def by simp
  ultimately have "ernic_quiet_single dev (ernic_ring_doorbell_only q') = None"
    using poll_unpublished_hangs [of dev D "ernic_ring_doorbell q'" _ D served C] r(1)
    by (cases "ernic_quiet_single dev (ernic_ring_doorbell_only q')") (auto simp: ernic_quiet_single_def ernic_ring_doorbell_only_def)
  then show ?thesis using q' by blast
qed

theorem ernic_batch_hangs_witness:
  "\<exists>q'. post_batch (\<lambda>b. ernic_put_nbi_single ernic_sample_dev 0x200 0x100 64 False) 0 2 ernic_sample_qp = Some q' \<and>
      ernic_posted q' = 2 \<and> ernic_quiet_single ernic_sample_dev (ernic_ring_doorbell_only q') = None"
proof -
  have k: "(2::nat) \<le> 2" "2 < unat (4 :: u32)" by simp_all
  show ?thesis
    using ernic_batch_hangs [OF ernic_sample_inv ernic_sample_idle(1) k, of "\<lambda>_. 0x200" "\<lambda>_. 0x100" 64] unfolding ernic_sample_idle(2) add_0 .
qed

text \<open>C38. A full ring looks empty. With one slot left, an adapter that never completes anything and a further post, all
  slots are outstanding, head and tail are equal again, and the wait returns at once although no request was completed.
\<close>

theorem ernic_full_ring_looks_empty:
  assumes "ernic_pending dev completed_in D C q" "Suc (ernic_posted q) = ernic_completed q + unat D" "ernic_published q = ernic_posted q"
  shows "\<exists>q1 q2. ernic_put_nbi_single dev dest src n True q = Some q1 \<and> ernic_quiet_single dev q1 = Some q2 \<and>
      ernic_completed q2 = ernic_completed q \<and> ernic_posted q2 = ernic_completed q2 + unat D"
proof -
  note p = assms(1) [unfolded ernic_pending_def]
  have D: "ring_size D" "ring_size C" "unat D \<le> unat C" "0 < unat D" "0 < D" "D \<le> 0x80000000"
    using p ring_size_pos [of D] by (simp_all add: word_le_nat_alt)
  have one: "(1 :: u32) \<le> D" using D(4) by (simp add: word_le_nat_alt)
  let ?c = "ernic_consume_cqe dev q"
  note c = consume_pending [OF assms(1)]
  have cc: "ernic_completed ?c = ernic_completed q" "tr ?c = E_poll # tr q" using c(5,6) by (simp_all add: ernic_completed_def)
  have poll: "ernic_poll_cq_until dev 1 q = Some ?c" using poll_once [OF assms(1) one] assms(2) cc by simp
  define h where "h = rma_hdr dest (ucast n) (op_rdma_write q) 0 ?c"
  define g where "g = rma_sge src (ucast n) ?c"
  let ?e = "ernic_enqueue_wqe h g ?c"
  let ?q1 = "ernic_ring_doorbell ?e"
  have post: "ernic_put_nbi_single dev dest src n True q = Some ?q1"
    by (simp add: ernic_put_nbi_single_def ernic_post_wqe_rma_single_def ernic_write_rma_wqe_def poll h_def g_def rma_hdr_def rma_sge_def)
  note pc = c(1) [unfolded ernic_pending_def]
  have q1: "entries (tr ?q1) = entries (tr q) @ [(h, g)]" "completed_in (tr ?q1) = completed_in (tr q)"
      "published_in (tr ?q1) = Suc (published_in (tr q))" "sq_depth ?q1 = D" "cq_depth ?q1 = C"
      "sq_head ?q1 = of_nat (ernic_completed q mod unat D)" "cq_cons ?q1 = Some (of_nat (ernic_completed q mod (2 * unat C)))"
    using pc c(2,3) cc by (simp_all add: ring_facts enqueue_facts ernic_counts)
  have tail: "sq_tail ?q1 = of_nat (Suc (ernic_posted q) mod unat D)"
    using next_index [OF D(5,6), of "sq_tail ?c" "ernic_posted q"] pc c(2) by (simp add: ring_facts enqueue_facts ernic_posted_def)
  have "cq_prod dev (tr ?q1) = of_nat (completed_in (tr q) mod (2 * unat C))"
    using p [THEN conjunct1, unfolded ernic_lawful_def, rule_format, of "tr ?q1"] p q1(2,3) assms(2,3) D(3) by (simp add: ernic_counts)
  then have c1: "ernic_consume_cqe dev ?q1 = ?q1\<lparr>tr := E_poll # tr ?q1\<rparr>"
    using q1(7) by (simp add: ernic_consume_cqe_def ernic_completed_def)
  have "unat (sq_available D (sq_head ?q1) (sq_tail ?q1)) = unat D - (Suc (ernic_posted q) - ernic_completed q) mod unat D"
    by (rule sq_available_exact [OF D(5,6) _ q1(6) tail]) (use assms(2) in linarith)
  then have "sq_available D (sq_head ?q1) (sq_tail ?q1) = D" using assms(2) by (simp add: word_unat_eq_iff)
  then have "ernic_quiet_single dev ?q1 = Some (?q1\<lparr>tr := E_poll # tr ?q1\<rparr>)"
    unfolding ernic_quiet_single_def by (subst ernic_poll_cq_until.simps) (simp add: c1 q1(4))
  moreover have "ernic_completed (?q1\<lparr>tr := E_poll # tr ?q1\<rparr>) = ernic_completed q"
      "ernic_posted (?q1\<lparr>tr := E_poll # tr ?q1\<rparr>) = Suc (ernic_posted q)"
    using q1(1,2) by (simp_all add: ernic_counts)
  ultimately show ?thesis using post assms(2) by auto
qed

definition ernic_sample_idle_dev :: ernic_dev where
  "ernic_sample_idle_dev = ernic_sample_dev\<lparr>cq_prod := (\<lambda>t. of_nat (completed_in t mod 8))\<rparr>"

definition ernic_sample_nearly_full :: ernic_qp where
  "ernic_sample_nearly_full = (let w = (\<lambda>i. E_wqe i (rma_hdr 0x200 64 0 0 ernic_sample_qp) (rma_sge 0x100 64 ernic_sample_qp)) in
     ernic_sample_qp\<lparr>sq_tail := 3, prod_tail := Some 3,
       tr := [E_prod_tail 3, w 2, E_prod_tail 2, w 1, E_prod_tail 1, w 0]\<rparr>)"

theorem ernic_full_ring_looks_empty_witness:
  "\<exists>q1 q2. ernic_put_nbi_single ernic_sample_idle_dev 0x200 0x100 64 True ernic_sample_nearly_full = Some q1 \<and>
      ernic_quiet_single ernic_sample_idle_dev q1 = Some q2 \<and> ernic_completed q2 = 0 \<and> ernic_posted q2 = 4"
proof -
  have c: "ernic_posted ernic_sample_nearly_full = 3" "ernic_completed ernic_sample_nearly_full = 0" "ernic_published ernic_sample_nearly_full = 3"
    by (simp_all add: ernic_counts ernic_sample_nearly_full_def)
  have "ernic_lawful ernic_sample_idle_dev completed_in 4" by (simp add: ernic_lawful_def ernic_sample_idle_dev_def)
  moreover have "ring_size 4" unfolding ring_size_def by (rule exI [of _ 2]) simp
  ultimately have "ernic_pending ernic_sample_idle_dev completed_in 4 4 ernic_sample_nearly_full"
    unfolding ernic_pending_def c by (simp add: ernic_sample_nearly_full_def ernic_sample_qp_def)
  from ernic_full_ring_looks_empty [OF this, of "0x200" "0x100" 64] show ?thesis unfolding c by auto
qed

subsection \<open>Wavefronts\<close>

definition lane_entry :: "ernic_qp \<Rightarrow> rma_args \<Rightarrow> ernic_wqe_hdr \<times> ernic_sge" where
  "lane_entry q a = (rma_hdr (a_raddr a) (a_len a) (a_op a) (a_imm a) q, rma_sge (a_laddr a) (a_len a) q)"

lemma ring_keys [simp]: "qp_rkey (ernic_ring_doorbell q) = qp_rkey q" "qp_lkey (ernic_ring_doorbell q) = qp_lkey q"
  by (simp_all add: ernic_ring_doorbell_def Let_def split: option.splits)

lemma enqueue_keys [simp]: "qp_rkey (ernic_enqueue_wqe h g q) = qp_rkey q" "qp_lkey (ernic_enqueue_wqe h g q) = qp_lkey q"
  by (simp_all add: ernic_enqueue_wqe_def Let_def)

lemma lane_entry_keys: "qp_rkey q' = qp_rkey q \<Longrightarrow> qp_lkey q' = qp_lkey q \<Longrightarrow> lane_entry q' = lane_entry q"
  by (rule ext) (simp add: lane_entry_def rma_hdr_def rma_sge_def)

lemma post_lanes_law:
  assumes "ernic_pending dev served D C q" "ernic_live served" "ernic_published q = ernic_posted q"
    "ernic_posted q + length ls < ernic_completed q + unat D"
  shows "\<exists>q'. ernic_post_lanes dev args ls q = Some q' \<and> ernic_pending dev served D C q' \<and> ernic_published q' = ernic_posted q' \<and>
      entries (tr q') = entries (tr q) @ map (\<lambda>l. lane_entry q (args l)) ls"
  using assms(1,3,4)
proof (induction ls arbitrary: q)
  case Nil
  then show ?case by simp
next
  case (Cons l ls)
  let ?a = "args l"
  have r: "Suc (ernic_posted q) < ernic_completed q + unat D" using Cons.prems(3) by simp
  obtain q1 where q1: "ernic_polled q q1" "ernic_pending dev served D C q1"
      "ernic_write_rma_wqe dev (a_raddr ?a) (a_laddr ?a) (a_len ?a) (a_op ?a) (a_imm ?a) q =
         Some (ernic_enqueue_wqe (fst (lane_entry q ?a)) (snd (lane_entry q ?a)) q1)"
    using write_rma_returns [OF Cons.prems(1) assms(2) r] unfolding lane_entry_def fst_conv snd_conv by blast
  note f = polled_facts [OF q1(1)]
  let ?e = "ernic_enqueue_wqe (fst (lane_entry q ?a)) (snd (lane_entry q ?a)) q1"
  have r1: "Suc (ernic_posted q1) < ernic_completed q1 + unat D" using f r by linarith
  note e = enqueue_pending [OF q1(2) r1, of "fst (lane_entry q ?a)" "snd (lane_entry q ?a)"]
  have lt: "ernic_published ?e < ernic_posted ?e" using e f Cons.prems(2) by simp
  note g = ring_pending [OF e(1) lt]
  let ?g = "ernic_ring_doorbell ?e"
  have pub: "ernic_published ?g = ernic_posted ?g" using g e f Cons.prems(2) by simp
  have room: "ernic_posted ?g + length ls < ernic_completed ?g + unat D" using g e f Cons.prems(3) by simp
  have keys: "lane_entry ?g = lane_entry q" using q1(1) by (intro lane_entry_keys) (auto simp: ernic_polled_def)
  have ent: "entries (tr ?g) = entries (tr q) @ [lane_entry q ?a]" using f by (simp add: ring_facts enqueue_facts)
  from Cons.IH [OF g(1) pub room] obtain q' where "ernic_post_lanes dev args ls ?g = Some q'" "ernic_pending dev served D C q'"
    "ernic_published q' = ernic_posted q'" "entries (tr q') = entries (tr ?g) @ map (\<lambda>l. lane_entry ?g (args l)) ls" by blast
  then show ?case using q1(3) ent keys by auto
qed

lemma lock_facts: "ernic_pending dev served D C (ernic_set_lock v q) = ernic_pending dev served D C q"
  "entries (tr (ernic_set_lock v q)) = entries (tr q)" "ernic_published (ernic_set_lock v q) = ernic_published q"
  "ernic_posted (ernic_set_lock v q) = ernic_posted q" "ernic_completed (ernic_set_lock v q) = ernic_completed q"
  "lane_entry (ernic_set_lock v q) = lane_entry q"
  by (simp_all add: ernic_pending_def ernic_set_lock_def ernic_counts lane_entry_def rma_hdr_def rma_sge_def fun_eq_iff)



subsection \<open>Depths\<close>

lemma ring_prod_tail: "sq_depth q = 100 \<Longrightarrow> prod_tail q = Some x \<Longrightarrow> sq_depth (ernic_ring_doorbell q) = 100 \<and>
    prod_tail (ernic_ring_doorbell q) = Some ((x + 1) AND 199)"
  by (simp add: ring_facts)



end
